(* ===== verification/Dora_Prelude.thy ===== *)
theory Dora_Prelude
  imports
    Main
    "HOL-Library.AList"
    "HOL-Library.Word"
    "HOL-Library.Char_ord"
    "HOL-Library.List_Lexorder"
    "HOL-Library.Product_Lexorder"
begin

text \<open>
  What every component of the development shares:
  \<^item> the named collections of simplification rules the component proofs use;
  \<^item> Rust strings as byte strings (\<^typ>\<open>string\<close>): \<open>str::split_once\<close>, \<open>str::trim\<close>,
    decimal printing and \<open>str::parse\<close> of unsigned integers;
  \<^item> little-endian integers (\<open>to_le_bytes\<close>, \<open>from_le_bytes\<close>);
  \<^item> the std collections: a \<open>HashMap\<close> is an association list whose order is the (unspecified)
    iteration order, a \<open>BTreeMap\<close> an association list with strictly increasing keys, a
    \<open>BTreeSet\<close> a strictly increasing list. Their common contract is the locale \<open>dict\<close>.
\<close>

named_theorems str_simps \<open>facts on the string operations\<close>
named_theorems map_simps \<open>lookup after an update of a dictionary\<close>
named_theorems inv_intros \<open>operations keep their component's invariant\<close>

type_synonym byte = "8 word"

text \<open>\<open>usize::MAX\<close> and \<open>u64::MAX\<close> on the 64-bit targets.\<close>

definition u64_max :: nat where
  "u64_max = 2 ^ 64 - 1"

definition usize_max :: nat where
  "usize_max = u64_max"

section \<open>Strings\<close>

text \<open>\<open>str::split_once\<close>: the parts before and after the first occurrence of a character.\<close>

fun split_once :: "char \<Rightarrow> string \<Rightarrow> (string \<times> string) option" where
  "split_once c [] = None"
| "split_once c (x # xs) =
     (if x = c then Some ([], xs)
      else (case split_once c xs of None \<Rightarrow> None | Some (a, b) \<Rightarrow> Some (x # a, b)))"

lemma split_once_None_iff [str_simps]: "split_once c s = None \<longleftrightarrow> c \<notin> set s"
  by (induction s) (auto split: option.splits)

lemma split_once_Some_iff:
  "split_once c s = Some (a, b) \<longleftrightarrow> s = a @ c # b \<and> c \<notin> set a"
proof (induction s arbitrary: a b)
  case Nil
  then show ?case by simp
next
  case (Cons x xs)
  show ?case
  proof (cases "x = c")
    case True
    then show ?thesis by (cases a) auto
  next
    case False
    then have "split_once c (x # xs) = Some (a, b) \<longleftrightarrow>
      (\<exists>a'. a = x # a' \<and> split_once c xs = Some (a', b))"
      by (auto split: option.splits)
    with False show ?thesis by (cases a) (auto simp: Cons.IH)
  qed
qed

lemma split_once_append [str_simps]: "c \<notin> set a \<Longrightarrow> split_once c (a @ c # b) = Some (a, b)"
  by (simp add: split_once_Some_iff)

text \<open>\<open>str::split\<close> on a character: always at least one segment.\<close>

fun str_split :: "char \<Rightarrow> string \<Rightarrow> string list" where
  "str_split c [] = [[]]"
| "str_split c (x # xs) =
     (if x = c then [] # str_split c xs
      else (case str_split c xs of [] \<Rightarrow> [[x]] | seg # segs \<Rightarrow> (x # seg) # segs))"

lemma str_split_not_Nil [simp]: "str_split c s \<noteq> []"
  by (cases s) (auto split: list.splits)

lemma str_split_free: "seg \<in> set (str_split c s) \<Longrightarrow> c \<notin> set seg"
  by (induction s arbitrary: seg) (fastforce split: if_splits list.splits)+

lemma str_split_chars: "seg \<in> set (str_split c s) \<Longrightarrow> set seg \<subseteq> set s"
  by (induction s arbitrary: seg) (fastforce split: if_splits list.splits)+

lemma str_split_single [str_simps]: "c \<notin> set s \<Longrightarrow> str_split c s = [s]"
  by (induction s) auto

lemma str_split_append [str_simps]:
  "c \<notin> set a \<Longrightarrow> str_split c (a @ c # b) = a # str_split c b"
  by (induction a) auto

text \<open>\<open>str::contains\<close> of a substring.\<close>

fun str_contains :: "string \<Rightarrow> string \<Rightarrow> bool" where
  "str_contains p [] \<longleftrightarrow> p = []"
| "str_contains p (x # xs) \<longleftrightarrow> take (length p) (x # xs) = p \<or> str_contains p xs"

text \<open>\<open>str::strip_prefix\<close> and \<open>str::strip_suffix\<close>.\<close>

fun strip_prefix :: "string \<Rightarrow> string \<Rightarrow> string option" where
  "strip_prefix [] s = Some s"
| "strip_prefix (p # ps) [] = None"
| "strip_prefix (p # ps) (x # xs) = (if p = x then strip_prefix ps xs else None)"

lemma strip_prefix_Some_iff: "strip_prefix p s = Some r \<longleftrightarrow> s = p @ r"
  by (induction p s rule: strip_prefix.induct) auto

definition strip_suffix :: "string \<Rightarrow> string \<Rightarrow> string option" where
  "strip_suffix p s = map_option rev (strip_prefix (rev p) (rev s))"

lemma strip_suffix_Some_iff: "strip_suffix p s = Some r \<longleftrightarrow> s = r @ p"
  by (auto simp: strip_suffix_def strip_prefix_Some_iff) (metis rev_append rev_rev_ident)

text \<open>ASCII classes (\<open>char::is_ascii_digit\<close> and its kin) and \<open>str::trim\<close> on ASCII white space.\<close>

definition code_of :: "char \<Rightarrow> nat" where
  "code_of c = of_char c"

definition is_ascii_digit :: "char \<Rightarrow> bool" where
  "is_ascii_digit c \<longleftrightarrow> 48 \<le> code_of c \<and> code_of c \<le> 57"

definition is_ascii_alphabetic :: "char \<Rightarrow> bool" where
  "is_ascii_alphabetic c \<longleftrightarrow>
     65 \<le> code_of c \<and> code_of c \<le> 90 \<or> 97 \<le> code_of c \<and> code_of c \<le> 122"

definition is_ascii_alphanumeric :: "char \<Rightarrow> bool" where
  "is_ascii_alphanumeric c \<longleftrightarrow> is_ascii_alphabetic c \<or> is_ascii_digit c"

definition is_white :: "char \<Rightarrow> bool" where
  "is_white c \<longleftrightarrow> code_of c = 32 \<or> 9 \<le> code_of c \<and> code_of c \<le> 13"

definition to_lower :: "char \<Rightarrow> char" where
  "to_lower c = (if 65 \<le> code_of c \<and> code_of c \<le> 90 then char_of (code_of c + 32) else c)"

definition to_upper :: "char \<Rightarrow> char" where
  "to_upper c = (if 97 \<le> code_of c \<and> code_of c \<le> 122 then char_of (code_of c - 32) else c)"

lemmas ascii_defs =
  code_of_def is_ascii_digit_def is_ascii_alphabetic_def is_ascii_alphanumeric_def
  is_white_def to_lower_def to_upper_def

definition str_trim :: "string \<Rightarrow> string" where
  "str_trim s = rev (dropWhile is_white (rev (dropWhile is_white s)))"

lemma dropWhile_id [str_simps]: "\<forall>c\<in>set s. \<not> P c \<Longrightarrow> dropWhile P s = s"
  by (cases s) auto

lemma str_trim_id [str_simps]: "\<forall>c\<in>set s. \<not> is_white c \<Longrightarrow> str_trim s = s"
  by (simp add: str_trim_def dropWhile_id)

section \<open>Decimal numbers\<close>

definition digit_char :: "nat \<Rightarrow> char" where
  "digit_char d = char_of (48 + d)"

definition digit_val :: "char \<Rightarrow> nat" where
  "digit_val c = code_of c - 48"

text \<open>The \<open>Display\<close> form of an unsigned integer.\<close>

fun show_nat :: "nat \<Rightarrow> string" where
  "show_nat n =
     (if n < 10 then [digit_char n] else show_nat (n div 10) @ [digit_char (n mod 10)])"

declare show_nat.simps [simp del]

text \<open>
  \<open>str::parse::<uN>\<close> with \<open>uN::MAX = mx\<close>: an optional leading plus, at least one digit,
  digits only, and no overflow (the value accumulated so far is checked at every digit).
\<close>

fun parse_digits :: "nat \<Rightarrow> nat \<Rightarrow> string \<Rightarrow> nat option" where
  "parse_digits mx acc [] = Some acc"
| "parse_digits mx acc (c # cs) =
     (if is_ascii_digit c then
        let v = acc * 10 + digit_val c in
        if v \<le> mx then parse_digits mx v cs else None
      else None)"

definition parse_uint :: "nat \<Rightarrow> string \<Rightarrow> nat option" where
  "parse_uint mx s =
     (case s of
        [] \<Rightarrow> None
      | c # cs \<Rightarrow>
          if c = CHR ''+'' then (if cs = [] then None else parse_digits mx 0 cs)
          else parse_digits mx 0 s)"

lemma code_of_char_of: "n < 256 \<Longrightarrow> code_of (char_of n) = n"
  by (simp add: code_of_def)

lemma digit_char_values [simp]:
  "digit_char 0 = CHR ''0''" "digit_char (Suc 0) = CHR ''1''" "digit_char 2 = CHR ''2''"
  "digit_char 3 = CHR ''3''" "digit_char 4 = CHR ''4''" "digit_char 5 = CHR ''5''"
  "digit_char 6 = CHR ''6''" "digit_char 7 = CHR ''7''" "digit_char 8 = CHR ''8''"
  "digit_char 9 = CHR ''9''"
  by (simp_all add: digit_char_def char_of_def bit_Suc_0_iff)

lemma digit_char_digit [simp]:
  "d < 10 \<Longrightarrow> is_ascii_digit (digit_char d)"
  "d < 10 \<Longrightarrow> digit_val (digit_char d) = d"
  by (auto simp: digit_char_def is_ascii_digit_def digit_val_def code_of_char_of)

lemma show_nat_digits: "\<forall>c\<in>set (show_nat n). is_ascii_digit c"
proof (induction n rule: show_nat.induct)
  case (1 n)
  then show ?case by (subst show_nat.simps) auto
qed

lemma show_nat_not_Nil [simp]: "show_nat n \<noteq> []"
  by (subst show_nat.simps) simp

lemma parse_digits_append:
  "parse_digits mx acc (xs @ ys) =
     (case parse_digits mx acc xs of None \<Rightarrow> None | Some v \<Rightarrow> parse_digits mx v ys)"
  by (induction xs arbitrary: acc) (auto simp: Let_def)

lemma parse_digits_show_nat: "n \<le> mx \<Longrightarrow> parse_digits mx 0 (show_nat n) = Some n"
proof (induction n rule: show_nat.induct)
  case (1 n)
  show ?case
  proof (cases "n < 10")
    case True
    with "1.prems" show ?thesis by (subst show_nat.simps) simp
  next
    case False
    with 1 have "parse_digits mx 0 (show_nat (n div 10)) = Some (n div 10)" by simp
    with False "1.prems" show ?thesis
      by (subst show_nat.simps) (simp add: parse_digits_append Let_def)
  qed
qed

lemma is_ascii_digit_plus [simp]: "\<not> is_ascii_digit CHR ''+''"
  by (simp add: ascii_defs)

lemma parse_uint_show_nat [str_simps]: "n \<le> mx \<Longrightarrow> parse_uint mx (show_nat n) = Some n"
proof -
  assume n: "n \<le> mx"
  obtain c cs where s: "show_nat n = c # cs" by (cases "show_nat n") auto
  with show_nat_digits [of n] have "is_ascii_digit c" by simp
  then have "c \<noteq> CHR ''+''" by auto
  with s parse_digits_show_nat [OF n] show ?thesis by (simp add: parse_uint_def)
qed

lemma parse_digits_bound: "parse_digits mx acc s = Some n \<Longrightarrow> acc \<le> mx \<Longrightarrow> n \<le> mx"
  by (induction s arbitrary: acc) (auto simp: Let_def split: if_splits)

lemma parse_uint_bound: "parse_uint mx s = Some n \<Longrightarrow> n \<le> mx"
  by (auto simp: parse_uint_def Let_def split: list.splits if_splits dest: parse_digits_bound)

lemma parse_digits_mono: "parse_digits mx acc s = Some n \<Longrightarrow> acc \<le> n"
  by (induction s arbitrary: acc) (fastforce simp: Let_def split: if_splits)+

lemma parse_digits_too_large:
  "mx < n \<Longrightarrow> parse_digits mx 0 (show_nat n) = None"
proof (induction n rule: show_nat.induct)
  case (1 n)
  show ?case
  proof (cases "n < 10")
    case True
    with "1.prems" show ?thesis by (subst show_nat.simps) simp
  next
    case n: False
    show ?thesis
    proof (cases "n div 10 \<le> mx")
      case True
      with n "1.prems" show ?thesis
        by (subst show_nat.simps) (simp add: parse_digits_append parse_digits_show_nat Let_def)
    next
      case False
      with n "1.IH" have "parse_digits mx 0 (show_nat (n div 10)) = None" by simp
      with n show ?thesis by (subst show_nat.simps) (simp add: parse_digits_append)
    qed
  qed
qed

lemma parse_uint_too_large [str_simps]: "mx < n \<Longrightarrow> parse_uint mx (show_nat n) = None"
proof -
  assume n: "mx < n"
  obtain c cs where s: "show_nat n = c # cs" by (cases "show_nat n") auto
  with show_nat_digits [of n] have "is_ascii_digit c" by simp
  then have "c \<noteq> CHR ''+''" by auto
  with s parse_digits_too_large [OF n] show ?thesis by (simp add: parse_uint_def)
qed

section \<open>Little-endian integers\<close>

fun to_le :: "nat \<Rightarrow> nat \<Rightarrow> byte list" where
  "to_le 0 n = []"
| "to_le (Suc k) n = word_of_nat n # to_le k (n div 256)"

fun from_le :: "byte list \<Rightarrow> nat" where
  "from_le [] = 0"
| "from_le (b # bs) = unat b + 256 * from_le bs"

lemma length_to_le [simp]: "length (to_le k n) = k"
  by (induction k arbitrary: n) auto

lemma from_le_to_le: "n < 256 ^ k \<Longrightarrow> from_le (to_le k n) = n"
proof (induction k arbitrary: n)
  case 0
  then show ?case by simp
next
  case (Suc k)
  then have "n div 256 < 256 ^ k" by (simp add: less_mult_imp_div_less mult.commute)
  with Suc.IH have "from_le (to_le k (n div 256)) = n div 256" by blast
  then show ?case by (simp add: unat_of_nat)
qed

lemma from_le_bound: "from_le bs < 256 ^ length bs"
proof (induction bs)
  case (Cons b bs)
  have "unat b < 256" using unsigned_less [of b, where ?'a = nat] by simp
  with Cons show ?case by simp
qed simp

lemma to_le_from_le: "to_le (length bs) (from_le bs) = bs"
proof (induction bs)
  case (Cons b bs)
  have b: "unat b < 256" using unsigned_less [of b, where ?'a = nat] by simp
  have "(256 :: byte) = 0" by simp
  then have "(word_of_nat (unat b + 256 * from_le bs) :: byte) = b"
    by (simp only: of_nat_add of_nat_mult of_nat_numeral mult_zero_left add_0_right) simp
  with b Cons show ?case by simp
qed simp

text \<open>\<open>Read::read_exact\<close> on an in-memory source: the bytes read and the rest.\<close>

definition read_exact :: "nat \<Rightarrow> byte list \<Rightarrow> (byte list \<times> byte list) option" where
  "read_exact n bs = (if n \<le> length bs then Some (take n bs, drop n bs) else None)"

lemma read_exact_append: "length a = n \<Longrightarrow> read_exact n (a @ b) = Some (a, b)"
  by (simp add: read_exact_def)

section \<open>Collections\<close>

text \<open>
  The contract of a dictionary: what a lookup returns after an insert and after a removal, and
  that both keep the representation invariant.
\<close>

locale dict =
  fixes invar :: "('k \<times> 'v) list \<Rightarrow> bool"
    and ins :: "'k \<Rightarrow> 'v \<Rightarrow> ('k \<times> 'v) list \<Rightarrow> ('k \<times> 'v) list"
    and rem :: "'k \<Rightarrow> ('k \<times> 'v) list \<Rightarrow> ('k \<times> 'v) list"
  assumes invar_empty: "invar []"
    and invar_ins: "invar m \<Longrightarrow> invar (ins k v m)"
    and invar_rem: "invar m \<Longrightarrow> invar (rem k m)"
    and invar_distinct: "invar m \<Longrightarrow> distinct (map fst m)"
    and lookup_ins: "map_of (ins k v m) = (map_of m)(k \<mapsto> v)"
    and lookup_rem: "map_of (rem k m) = (map_of m)(k := None)"
begin

lemma dom_ins: "fst ` set (ins k v m) = insert k (fst ` set m)"
  using dom_map_of_conv_image_fst [of "ins k v m"] dom_map_of_conv_image_fst [of m]
  by (simp add: lookup_ins)

lemma dom_rem: "fst ` set (rem k m) = fst ` set m - {k}"
  using dom_map_of_conv_image_fst [of "rem k m"] dom_map_of_conv_image_fst [of m]
  by (simp add: lookup_rem)

lemma entry_ins_same: "invar m \<Longrightarrow> (k, v') \<in> set (ins k v m) \<longleftrightarrow> v' = v"
  using invar_ins [of m k v] invar_distinct [of "ins k v m"]
  by (metis fun_upd_same lookup_ins map_of_eq_Some_iff option.inject)

lemma entry_ins_other: "invar m \<Longrightarrow> k' \<noteq> k \<Longrightarrow> (k', v') \<in> set (ins k v m) \<longleftrightarrow> (k', v') \<in> set m"
  using invar_ins [of m k v] invar_distinct [of "ins k v m"] invar_distinct [of m]
  by (metis fun_upd_other lookup_ins map_of_eq_Some_iff)

lemma lookup_entry: "invar m \<Longrightarrow> map_of m k = Some v \<longleftrightarrow> (k, v) \<in> set m"
  using invar_distinct by (simp add: map_of_eq_Some_iff)

end

text \<open>\<open>HashMap\<close>: insertion overwrites in place or appends.\<close>

interpretation hm: dict "\<lambda>m. distinct (map fst m)" AList.update AList.delete
  by unfold_locales
    (auto simp: distinct_update distinct_delete update_conv' delete_conv')

text \<open>\<open>BTreeMap\<close>: strictly increasing keys.\<close>

fun bm_insert :: "'k::linorder \<Rightarrow> 'v \<Rightarrow> ('k \<times> 'v) list \<Rightarrow> ('k \<times> 'v) list" where
  "bm_insert k v [] = [(k, v)]"
| "bm_insert k v ((k', v') # m) =
     (if k < k' then (k, v) # (k', v') # m
      else if k = k' then (k, v) # m
      else (k', v') # bm_insert k v m)"

definition bm_inv :: "('k::linorder \<times> 'v) list \<Rightarrow> bool" where
  "bm_inv m \<longleftrightarrow> sorted_wrt (<) (map fst m)"

lemma fst_bm_insert: "fst ` set (bm_insert k v m) = insert k (fst ` set m)"
  by (induction k v m rule: bm_insert.induct) auto

lemma bm_inv_insert: "bm_inv m \<Longrightarrow> bm_inv (bm_insert k v m)"
proof (induction k v m rule: bm_insert.induct)
  case (2 k v k' v' m)
  have "\<forall>x \<in> fst ` set (bm_insert k v m). \<not> k < k' \<longrightarrow> k \<noteq> k' \<longrightarrow> k' < x"
    using 2 by (auto simp: fst_bm_insert bm_inv_def)
  with 2 show ?case by (auto simp: bm_inv_def)
qed (simp add: bm_inv_def)

lemma map_of_bm_insert: "map_of (bm_insert k v m) = (map_of m)(k \<mapsto> v)"
  by (induction k v m rule: bm_insert.induct) (auto simp: fun_upd_twist)

lemma sorted_wrt_filter: "sorted_wrt P xs \<Longrightarrow> sorted_wrt P (filter Q xs)"
  by (induction xs) auto

lemma bm_inv_filter: "bm_inv m \<Longrightarrow> bm_inv (filter P m)"
  by (induction m) (auto simp: bm_inv_def)

lemma bm_inv_distinct: "bm_inv m \<Longrightarrow> distinct (map fst m)"
  by (simp add: bm_inv_def strict_sorted_iff)

lemma bm_inv_delete: "bm_inv m \<Longrightarrow> bm_inv (AList.delete k m)"
  by (simp add: AList.delete_eq bm_inv_filter)

interpretation bm: dict bm_inv bm_insert AList.delete
  by unfold_locales
    (simp_all add: bm_inv_insert bm_inv_distinct map_of_bm_insert delete_conv' bm_inv_delete,
      simp add: bm_inv_def)

lemmas dict_simps [map_simps] =
  hm.lookup_ins hm.lookup_rem bm.lookup_ins
lemmas dict_invs [inv_intros] =
  hm.invar_ins hm.invar_rem bm.invar_empty bm.invar_ins bm.invar_rem

text \<open>\<open>BTreeSet\<close>: a strictly increasing list.\<close>

fun bs_insert :: "'a::linorder \<Rightarrow> 'a list \<Rightarrow> 'a list" where
  "bs_insert x [] = [x]"
| "bs_insert x (y # ys) =
     (if x < y then x # y # ys else if x = y then y # ys else y # bs_insert x ys)"

lemma set_bs_insert [simp]: "set (bs_insert x ys) = insert x (set ys)"
  by (induction x ys rule: bs_insert.induct) auto

lemma sorted_bs_insert [inv_intros]: "sorted_wrt (<) ys \<Longrightarrow> sorted_wrt (<) (bs_insert x ys)"
  by (induction x ys rule: bs_insert.induct) auto

text \<open>\<open>Iterator::collect\<close> into the two ordered collections.\<close>

definition bs_of_list :: "'a::linorder list \<Rightarrow> 'a list" where
  "bs_of_list xs = fold bs_insert xs []"

lemma set_fold_bs_insert: "set (fold bs_insert xs acc) = set xs \<union> set acc"
  by (induction xs arbitrary: acc) auto

lemma set_bs_of_list [simp]: "set (bs_of_list xs) = set xs"
  by (simp add: bs_of_list_def set_fold_bs_insert)

text \<open>\<open>BTreeMap::from\<close> of an array of pairs inserts them one after the other.\<close>

definition bm_from :: "('k::linorder \<times> 'v) list \<Rightarrow> ('k \<times> 'v) list" where
  "bm_from kvs = fold (\<lambda>(k, v) m. bm_insert k v m) kvs []"

lemma bm_inv_from: "bm_inv (bm_from kvs)"
proof -
  have "bm_inv m \<Longrightarrow> bm_inv (fold (\<lambda>(k, v) m. bm_insert k v m) kvs m)" for m
    by (induction kvs arbitrary: m) (auto simp: dict_invs)
  then show ?thesis
    by (simp add: bm_from_def dict_invs)
qed

lemma dom_bm_from: "fst ` set (bm_from kvs) = fst ` set kvs"
proof -
  have "fst ` set (fold (\<lambda>(k, v) m. bm_insert k v m) kvs m) = fst ` set kvs \<union> fst ` set m" for m
    by (induction kvs arbitrary: m) (simp_all add: fst_bm_insert split_beta)
  then show ?thesis by (simp add: bm_from_def)
qed

lemma map_of_bm_from: "map_of (bm_from kvs) = map_of (rev kvs)"
proof -
  have "map_of (fold (\<lambda>(k, v) m. bm_insert k v m) kvs m) = map_of m ++ map_of (rev kvs)" for m
    by (induction kvs arbitrary: m) (auto simp: map_of_bm_insert map_add_def fun_eq_iff split: option.splits)
  then show ?thesis by (simp add: bm_from_def)
qed

text \<open>\<open>map.entry(k).or_insert(v)\<close> followed by an update in place.\<close>

definition bm_entry :: "'k::linorder \<Rightarrow> 'v \<Rightarrow> ('v \<Rightarrow> 'v) \<Rightarrow> ('k \<times> 'v) list \<Rightarrow> ('k \<times> 'v) list" where
  "bm_entry k v f m = bm_insert k (f (case map_of m k of None \<Rightarrow> v | Some x \<Rightarrow> x)) m"

lemma map_of_bm_entry [map_simps]:
  "map_of (bm_entry k v f m) = (map_of m)(k \<mapsto> f (case map_of m k of None \<Rightarrow> v | Some x \<Rightarrow> x))"
  by (simp add: bm_entry_def map_of_bm_insert)

lemma bm_inv_entry [inv_intros]: "bm_inv m \<Longrightarrow> bm_inv (bm_entry k v f m)"
  by (simp add: bm_entry_def bm_inv_insert)

section \<open>Options\<close>

lemma those_None_iff: "those xs = None \<longleftrightarrow> None \<in> set xs"
  by (induction xs) (auto split: option.splits)

lemma those_Some_iff: "those xs = Some ys \<longleftrightarrow> xs = map Some ys"
  by (induction xs arbitrary: ys) (auto split: option.splits simp: map_eq_Cons_conv)

section \<open>Lists\<close>

text \<open>\<open>VecDeque::remove(idx)\<close> and \<open>Iterator::position\<close>.\<close>

definition remove_nth :: "nat \<Rightarrow> 'a list \<Rightarrow> 'a list" where
  "remove_nth i xs = take i xs @ drop (Suc i) xs"

fun position :: "('a \<Rightarrow> bool) \<Rightarrow> 'a list \<Rightarrow> nat option" where
  "position P [] = None"
| "position P (x # xs) = (if P x then Some 0 else map_option Suc (position P xs))"

lemma position_None_iff: "position P xs = None \<longleftrightarrow> (\<forall>x\<in>set xs. \<not> P x)"
  by (induction xs) auto

lemma position_SomeD:
  "position P xs = Some i \<Longrightarrow> i < length xs \<and> P (xs ! i) \<and> (\<forall>j<i. \<not> P (xs ! j))"
proof (induction xs arbitrary: i)
  case (Cons x xs)
  then show ?case
    by (cases i) (auto split: if_splits simp: less_Suc_eq_0_disj)
qed simp

lemma length_remove_nth: "i < length xs \<Longrightarrow> length (remove_nth i xs) = length xs - 1"
  by (auto simp: remove_nth_def)

lemma set_remove_nth_subset: "set (remove_nth i xs) \<subseteq> set xs"
  by (auto simp: remove_nth_def dest: in_set_takeD in_set_dropD)

lemma split_nth: "i < length xs \<Longrightarrow> xs = take i xs @ xs ! i # drop (Suc i) xs"
  by (rule id_take_nth_drop)

lemma filter_remove_nth:
  assumes "i < length xs" and "\<not> P (xs ! i)"
  shows "filter P (remove_nth i xs) = filter P xs"
proof -
  have "filter P xs = filter P (take i xs @ xs ! i # drop (Suc i) xs)"
    using split_nth [OF assms(1)] by simp
  with assms(2) show ?thesis by (simp add: remove_nth_def)
qed

end
