(* ===== verification/Ids.thy ===== *)
theory Ids
  imports Dora_Prelude
begin

text \<open>
  The identifiers of \<open>libraries/message/src/id.rs\<close>: \<open>NodeId\<close>, \<open>DataId\<close> and \<open>OperatorId\<close>, the two
  validators, the fallible parsers (\<open>FromStr\<close>, \<open>Deserialize\<close>) and the panicking conversions
  (\<open>From<String>\<close>). An error is a value of \<open>invalid_id\<close>, one constructor per message the code
  formats; a panic is \<^const>\<open>None\<close>. A string is its UTF-8 bytes: an offending non-ASCII character
  is reported by its first byte.
\<close>

datatype NodeId = NodeId (node_str: string)
datatype OperatorId = OperatorId (operator_str: string)
datatype DataId = DataId (data_str: string)

datatype invalid_id =
    EmptyId
  | ReservedId
  | LeadingDot string
  | InvalidChar char
  | EmptySegment string

section \<open>Validation\<close>

definition node_char_ok :: "char \<Rightarrow> bool" where
  "node_char_ok c \<longleftrightarrow>
     is_ascii_alphanumeric c \<or> c = CHR ''_'' \<or> c = CHR ''-'' \<or> c = CHR ''.''"

definition data_char_ok :: "char \<Rightarrow> bool" where
  "data_char_ok c \<longleftrightarrow> node_char_ok c \<or> c = CHR ''/''"

definition validate_node_id :: "string \<Rightarrow> invalid_id + unit" where
  "validate_node_id s =
     (if s = [] then Inl EmptyId
      else if s = ''dora'' then Inl ReservedId
      else if hd s = CHR ''.'' then Inl (LeadingDot s)
      else (case find (\<lambda>c. \<not> node_char_ok c) s of
              Some ch \<Rightarrow> Inl (InvalidChar ch)
            | None \<Rightarrow> Inr ()))"

definition validate_data_id :: "string \<Rightarrow> invalid_id + unit" where
  "validate_data_id s =
     (if s = [] then Inl EmptyId
      else (case find (\<lambda>c. \<not> data_char_ok c) s of
              Some ch \<Rightarrow> Inl (InvalidChar ch)
            | None \<Rightarrow>
                if hd s = CHR ''/'' \<or> last s = CHR ''/'' \<or> str_contains ''//'' s
                then Inl (EmptySegment s)
                else Inr ()))"

section \<open>Parsing and conversion\<close>

definition node_id_from_str :: "string \<Rightarrow> invalid_id + NodeId" where
  "node_id_from_str s = (case validate_node_id s of Inl e \<Rightarrow> Inl e | Inr _ \<Rightarrow> Inr (NodeId s))"

definition node_id_from_string :: "string \<Rightarrow> NodeId option" where
  "node_id_from_string s = (case validate_node_id s of Inl e \<Rightarrow> None | Inr _ \<Rightarrow> Some (NodeId s))"

definition data_id_from_str :: "string \<Rightarrow> invalid_id + DataId" where
  "data_id_from_str s = (case validate_data_id s of Inl e \<Rightarrow> Inl e | Inr _ \<Rightarrow> Inr (DataId s))"

definition data_id_from_string :: "string \<Rightarrow> DataId option" where
  "data_id_from_string s = (case validate_data_id s of Inl e \<Rightarrow> None | Inr _ \<Rightarrow> Some (DataId s))"

definition operator_id_from_str :: "string \<Rightarrow> OperatorId" where
  "operator_id_from_str s = OperatorId s"

section \<open>The identifiers are ordered by their strings\<close>

text \<open>\<open>#[derive(PartialOrd, Ord)]\<close> on the newtypes; the ordered collections are keyed by them.\<close>

instantiation NodeId :: linorder
begin
definition less_eq_NodeId :: "NodeId \<Rightarrow> NodeId \<Rightarrow> bool" where
  "less_eq_NodeId a b \<longleftrightarrow> node_str a \<le> node_str b"
definition less_NodeId :: "NodeId \<Rightarrow> NodeId \<Rightarrow> bool" where
  "less_NodeId a b \<longleftrightarrow> node_str a < node_str b"
instance
  by standard (auto simp: less_eq_NodeId_def less_NodeId_def NodeId.expand)
end

instantiation DataId :: linorder
begin
definition less_eq_DataId :: "DataId \<Rightarrow> DataId \<Rightarrow> bool" where
  "less_eq_DataId a b \<longleftrightarrow> data_str a \<le> data_str b"
definition less_DataId :: "DataId \<Rightarrow> DataId \<Rightarrow> bool" where
  "less_DataId a b \<longleftrightarrow> data_str a < data_str b"
instance
  by standard (auto simp: less_eq_DataId_def less_DataId_def DataId.expand)
end

lemma NodeId_less_simps [simp]:
  "NodeId a < NodeId b \<longleftrightarrow> a < b" "NodeId a \<le> NodeId b \<longleftrightarrow> a \<le> b"
  by (simp_all add: less_NodeId_def less_eq_NodeId_def)

lemma DataId_less_simps [simp]:
  "DataId a < DataId b \<longleftrightarrow> a < b" "DataId a \<le> DataId b \<longleftrightarrow> a \<le> b"
  by (simp_all add: less_DataId_def less_eq_DataId_def)

section \<open>What the validators accept\<close>

definition valid_node_id :: "string \<Rightarrow> bool" where
  "valid_node_id s \<longleftrightarrow>
     s \<noteq> [] \<and> s \<noteq> ''dora'' \<and> hd s \<noteq> CHR ''.'' \<and> (\<forall>c\<in>set s. node_char_ok c)"

definition valid_data_id :: "string \<Rightarrow> bool" where
  "valid_data_id s \<longleftrightarrow> (\<forall>c\<in>set s. data_char_ok c) \<and> [] \<notin> set (str_split CHR ''/'' s)"

lemma find_not_None_iff: "find (\<lambda>c. \<not> P c) s = None \<longleftrightarrow> (\<forall>c\<in>set s. P c)"
  by (induction s) auto

lemma find_not_SomeD: "find (\<lambda>c. \<not> P c) s = Some x \<Longrightarrow> x \<in> set s \<and> \<not> P x"
  by (induction s) (auto split: if_splits)

lemma validate_node_id_ok_iff: "validate_node_id s = Inr () \<longleftrightarrow> valid_node_id s"
  by (auto simp: validate_node_id_def valid_node_id_def find_not_None_iff
      dest!: find_not_SomeD split: option.splits)

text \<open>The three slash conditions of \<open>validate_data_id\<close> say that no path segment is empty.\<close>

lemma hd_str_split: "hd (str_split c s) = [] \<longleftrightarrow> s = [] \<or> hd s = c"
  by (cases s) (auto split: list.splits)

lemma empty_segment_tl:
  "[] \<in> set (tl (str_split c s)) \<longleftrightarrow> (s \<noteq> [] \<and> last s = c) \<or> str_contains [c, c] s"
proof (induction s)
  case (Cons x xs)
  obtain seg segs where ss: "str_split c xs = seg # segs"
    by (cases "str_split c xs") auto
  have seg: "seg = [] \<longleftrightarrow> xs = [] \<or> hd xs = c"
    using hd_str_split [of c xs] ss by simp
  have sub: "take (Suc 0) xs = [c] \<longleftrightarrow> xs \<noteq> [] \<and> hd xs = c"
    by (cases xs) auto
  have IH: "[] \<in> set segs \<longleftrightarrow> (xs \<noteq> [] \<and> last xs = c) \<or> str_contains [c, c] xs"
    using Cons.IH by (simp add: ss)
  show ?case
  proof (cases "xs = []")
    case False
    then show ?thesis by (cases "x = c") (auto simp: ss seg eq_commute [of "[]" seg] sub IH)
  qed simp
qed simp

lemma empty_segment_iff:
  "[] \<in> set (str_split c s) \<longleftrightarrow>
     s = [] \<or> hd s = c \<or> last s = c \<or> str_contains [c, c] s"
proof -
  have "[] \<in> set (str_split c s) \<longleftrightarrow>
      hd (str_split c s) = [] \<or> [] \<in> set (tl (str_split c s))"
    by (cases "str_split c s") (simp_all add: eq_commute [of "[]"])
  then show ?thesis
    unfolding empty_segment_tl hd_str_split by blast
qed

lemma validate_data_id_ok_iff: "validate_data_id s = Inr () \<longleftrightarrow> valid_data_id s"
proof (cases "find (\<lambda>c. \<not> data_char_ok c) s")
  case None
  then have "\<forall>c\<in>set s. data_char_ok c"
    by (simp add: find_not_None_iff)
  then show ?thesis
    unfolding validate_data_id_def valid_data_id_def empty_segment_iff None by simp
next
  case (Some ch)
  then have "\<not> (\<forall>c\<in>set s. data_char_ok c)"
    by (blast dest: find_not_SomeD)
  then show ?thesis
    unfolding validate_data_id_def valid_data_id_def Some by simp
qed

lemma node_id_from_str_Inr_iff:
  "node_id_from_str s = Inr n \<longleftrightarrow> valid_node_id s \<and> n = NodeId s"
  using validate_node_id_ok_iff [of s]
  by (auto simp: node_id_from_str_def split: sum.splits)

lemma data_id_from_str_Inr_iff:
  "data_id_from_str s = Inr d \<longleftrightarrow> valid_data_id s \<and> d = DataId s"
  using validate_data_id_ok_iff [of s]
  by (auto simp: data_id_from_str_def split: sum.splits)

lemma node_char_ok_not_slash [simp]: "\<not> node_char_ok CHR ''/''"
  by (simp add: node_char_ok_def ascii_defs)

lemma valid_node_id_no_slash: "valid_node_id s \<Longrightarrow> CHR ''/'' \<notin> set s"
  by (auto simp: valid_node_id_def)

lemma valid_data_segment:
  "valid_data_id s \<Longrightarrow> seg \<in> set (str_split CHR ''/'' s) \<Longrightarrow> valid_data_id seg"
  using str_split_free [of seg "CHR ''/''" s] str_split_chars [of seg "CHR ''/''" s]
  by (auto simp: valid_data_id_def str_split_single)

section \<open>Properties\<close>

text \<open>a data identifier that parses can be taken apart at its slashes: every segment is itself
  a valid data identifier, so the panicking conversion \<open>DataId::from(segment)\<close> never panics on one.\<close>

theorem data_id_segments_convert:
  "data_id_from_str s = Inr d \<Longrightarrow> seg \<in> set (str_split CHR ''/'' s) \<Longrightarrow>
   data_id_from_string seg = Some (DataId seg) \<and> CHR ''/'' \<notin> set seg"
  using valid_data_segment [of s seg] validate_data_id_ok_iff [of seg] str_split_free [of seg]
  by (auto simp: data_id_from_str_Inr_iff data_id_from_string_def split: sum.splits)

text \<open>the node identifiers that parse are exactly the non-empty strings over \<open>[a-zA-Z0-9_.-]\<close>
  other than \<open>dora\<close> that do not start with a dot; none contains a slash or is \<open>.\<close> or \<open>..\<close>, so
  joining one to a path names a direct child.\<close>

theorem node_id_accepted_iff:
  "node_id_from_str s = Inr n \<longleftrightarrow> n = NodeId s \<and> valid_node_id s \<and>
     CHR ''/'' \<notin> set s \<and> s \<noteq> ''.'' \<and> s \<noteq> ''..''"
  using valid_node_id_no_slash [of s] by (auto simp: node_id_from_str_Inr_iff valid_node_id_def)

end
