(* ===== verification/F64.thy ===== *)
theory F64
  imports Dora_Prelude
begin

text \<open>
  The part of \<open>f64\<close> that the configuration grammar uses: \<open>str::parse::<f64>\<close> with its decimal
  grammar and round-to-nearest-even, reciprocal, multiplication by an integer, comparison with
  a bound, truncation to an integer and \<open>Duration::try_from_secs_f64\<close>. A finite number is a sign,
  a mantissa below \<open>2\<^sup>5\<^sup>3\<close> and a binary exponent of at least -1074. A \<open>Duration\<close> is its
  number of nanoseconds.
\<close>

datatype f64 = NaN | Inf bool | Fin bool nat int

type_synonym Duration = nat

section \<open>Rounding a fraction\<close>

definition round_half_even :: "nat \<Rightarrow> nat \<Rightarrow> nat" where
  "round_half_even p q =
     (let d = p div q; r = p mod q in
      if q < 2 * r \<or> (2 * r = q \<and> odd d) then d + 1 else d)"

fun nat_log2 :: "nat \<Rightarrow> nat" where
  "nat_log2 n = (if n < 2 then 0 else Suc (nat_log2 (n div 2)))"

declare nat_log2.simps [simp del]

text \<open>The fraction \<open>p / q\<close> divided by \<open>2\<^sup>e\<close>.\<close>

definition scale_frac :: "nat \<Rightarrow> nat \<Rightarrow> int \<Rightarrow> nat \<times> nat" where
  "scale_frac p q e = (if e < 0 then (p * 2 ^ nat (- e), q) else (p, q * 2 ^ nat e))"

definition frac_log2 :: "nat \<Rightarrow> nat \<Rightarrow> int" where
  "frac_log2 p q =
     (let k = int (nat_log2 p) - int (nat_log2 q); (p', q') = scale_frac p q k in
      if p' < q' then k - 1 else k)"

definition f64_of_frac :: "bool \<Rightarrow> nat \<Rightarrow> nat \<Rightarrow> f64" where
  "f64_of_frac neg p q =
     (if p = 0 then Fin neg 0 0
      else
        let e = max (-1074) (frac_log2 p q - 52);
            (p', q') = scale_frac p q e;
            m = round_half_even p' q';
            (m, e) = (if m = 2 ^ 53 then (2 ^ 52, e + 1) else (m, e))
        in if m = 0 then Fin neg 0 0 else if 971 < e then Inf neg else Fin neg m e)"

section \<open>Parsing\<close>

definition take_sign :: "string \<Rightarrow> bool \<times> string" where
  "take_sign s =
     (case s of
        c # r \<Rightarrow> if c = CHR ''-'' then (True, r) else if c = CHR ''+'' then (False, r)
                 else (False, s)
      | [] \<Rightarrow> (False, s))"

fun digits_val :: "string \<Rightarrow> nat \<Rightarrow> nat" where
  "digits_val [] acc = acc"
| "digits_val (c # cs) acc = digits_val cs (acc * 10 + (code_of c - 48))"

text \<open>The exponent suffix: nothing, or \<open>e\<close>, an optional sign and at least one digit.\<close>

definition parse_exp10 :: "string \<Rightarrow> int option" where
  "parse_exp10 s =
     (case s of
        [] \<Rightarrow> Some 0
      | c # r \<Rightarrow>
          if c = CHR ''e'' \<or> c = CHR ''E''
          then (case take_sign r of (neg, ds) \<Rightarrow>
                  if ds \<noteq> [] \<and> list_all is_ascii_digit ds
                  then Some (if neg then - int (digits_val ds 0) else int (digits_val ds 0))
                  else None)
          else None)"

definition parse_number :: "bool \<Rightarrow> string \<Rightarrow> f64 option" where
  "parse_number neg s =
     (let ip = takeWhile is_ascii_digit s;
          r = dropWhile is_ascii_digit s;
          (fp, r) = (case r of
                       c # r' \<Rightarrow> if c = CHR ''.''
                                then (takeWhile is_ascii_digit r', dropWhile is_ascii_digit r')
                                else ([], r)
                     | [] \<Rightarrow> ([], r))
      in if ip = [] \<and> fp = [] then None
         else (case parse_exp10 r of
                 None \<Rightarrow> None
               | Some e \<Rightarrow>
                   let v = digits_val (ip @ fp) 0; x = e - int (length fp) in
                   Some (if x < 0 then f64_of_frac neg v (10 ^ nat (- x))
                         else f64_of_frac neg (v * 10 ^ nat x) 1)))"

definition parse_f64 :: "string \<Rightarrow> f64 option" where
  "parse_f64 s =
     (case take_sign s of (neg, r) \<Rightarrow>
        let l = map to_lower r in
        if l = ''inf'' \<or> l = ''infinity'' then Some (Inf neg)
        else if l = ''nan'' then Some NaN
        else parse_number neg r)"

section \<open>Arithmetic\<close>

definition f64_is_finite :: "f64 \<Rightarrow> bool" where
  "f64_is_finite x = (case x of Fin _ _ _ \<Rightarrow> True | _ \<Rightarrow> False)"

text \<open>\<open>x <= 0.0\<close> and \<open>x < 0.0\<close>: false for NaN; a negative zero equals zero.\<close>

definition f64_le_zero :: "f64 \<Rightarrow> bool" where
  "f64_le_zero x = (case x of Fin neg m _ \<Rightarrow> neg \<or> m = 0 | Inf neg \<Rightarrow> neg | NaN \<Rightarrow> False)"

definition f64_lt_zero :: "f64 \<Rightarrow> bool" where
  "f64_lt_zero x = (case x of Fin neg m _ \<Rightarrow> neg \<and> m \<noteq> 0 | Inf neg \<Rightarrow> neg | NaN \<Rightarrow> False)"

text \<open>\<open>1.0 / x\<close>.\<close>

definition f64_recip :: "f64 \<Rightarrow> f64" where
  "f64_recip x =
     (case x of
        NaN \<Rightarrow> NaN
      | Inf neg \<Rightarrow> Fin neg 0 0
      | Fin neg m e \<Rightarrow>
          if m = 0 then Inf neg
          else if e < 0 then f64_of_frac neg (2 ^ nat (- e)) m
          else f64_of_frac neg 1 (m * 2 ^ nat e))"

text \<open>\<open>x * k as f64\<close> for an integer \<open>k\<close> that \<open>f64\<close> represents exactly and that is not zero.\<close>

definition f64_mul_nat :: "f64 \<Rightarrow> nat \<Rightarrow> f64" where
  "f64_mul_nat x k =
     (case x of
        Fin neg m e \<Rightarrow>
          if e < 0 then f64_of_frac neg (m * k) (2 ^ nat (- e))
          else f64_of_frac neg (m * k * 2 ^ nat e) 1
      | _ \<Rightarrow> x)"

text \<open>The value of a non-negative finite number as a fraction.\<close>

definition f64_frac :: "nat \<Rightarrow> int \<Rightarrow> nat \<times> nat" where
  "f64_frac m e = (if e < 0 then (m, 2 ^ nat (- e)) else (m * 2 ^ nat e, 1))"

definition f64_ge_nat :: "f64 \<Rightarrow> nat \<Rightarrow> bool" where
  "f64_ge_nat x k =
     (case x of
        Fin neg m e \<Rightarrow>
          (case f64_frac m e of (p, q) \<Rightarrow> if neg then p = 0 \<and> k = 0 else k * q \<le> p)
      | Inf neg \<Rightarrow> \<not> neg
      | NaN \<Rightarrow> False)"

text \<open>\<open>x as u64\<close>: truncation, saturating.\<close>

definition f64_as_u64 :: "f64 \<Rightarrow> nat" where
  "f64_as_u64 x =
     (case x of
        Fin neg m e \<Rightarrow>
          (case f64_frac m e of (p, q) \<Rightarrow> if neg then 0 else min (p div q) u64_max)
      | Inf neg \<Rightarrow> if neg then 0 else u64_max
      | NaN \<Rightarrow> 0)"

text \<open>
  \<open>Duration::try_from_secs_f64\<close>: nearest nanosecond, ties to even; negative, non-finite and
  values of \<open>2\<^sup>6\<^sup>4\<close> seconds or more are errors.
\<close>

definition try_from_secs_f64 :: "f64 \<Rightarrow> Duration option" where
  "try_from_secs_f64 x =
     (case x of
        Fin neg m e \<Rightarrow>
          if neg \<and> m \<noteq> 0 then None
          else (case f64_frac m e of (p, q) \<Rightarrow>
                  if 2 ^ 64 * q \<le> p then None else Some (round_half_even (p * 10 ^ 9) q))
      | _ \<Rightarrow> None)"

section \<open>Facts\<close>

lemma nat_log2_code [simp]:
  "nat_log2 0 = 0" "nat_log2 (Suc 0) = 0"
  "nat_log2 (numeral (Num.Bit0 n)) = Suc (nat_log2 (numeral n))"
  "nat_log2 (numeral (Num.Bit1 n)) = Suc (nat_log2 (numeral n))"
  by (subst nat_log2.simps, simp)+

lemma round_half_even_close:
  "0 < q \<Longrightarrow> 2 * p \<le> 2 * round_half_even p q * q + q"
  "0 < q \<Longrightarrow> 2 * round_half_even p q * q \<le> 2 * p + q"
proof -
  assume "0 < q"
  define d r where "d = p div q" and "r = p mod q"
  have p: "p = d * q + r" and r: "r < q"
    using \<open>0 < q\<close> by (simp_all add: d_def r_def)
  have m: "round_half_even p q = (if q < 2 * r \<or> (2 * r = q \<and> odd d) then d + 1 else d)"
    by (simp add: round_half_even_def Let_def d_def r_def)
  show "2 * p \<le> 2 * round_half_even p q * q + q" "2 * round_half_even p q * q \<le> 2 * p + q"
    unfolding m using r by (auto simp: p algebra_simps)
qed

lemma round_half_even_exact: "0 < q \<Longrightarrow> round_half_even (k * q) q = k"
  by (simp add: round_half_even_def)

end
