(* ===== verification/Metadata_Params.thy ===== *)
theory Metadata_Params
  imports Dora_Prelude
begin

text \<open>
  Message metadata, \<open>libraries/message/src/metadata.rs\<close>: the \<open>Metadata\<close> struct and its typed
  parameters, the startup route-probe markers and acks, the predicate that marks a message as
  belonging to a service or action, the internal wire keys and the FNV-1a schema fingerprint.
  Values of types the program only passes through (an HLC time stamp, a \<open>DateTime\<close>, an Arrow
  array) are elements of the type parameter \<open>'x\<close>; an \<open>f64\<close> is its bit pattern. The parameter
  map is a \<open>BTreeMap\<close>: an association list sorted by key.
\<close>

datatype 'x Parameter =
    PBool bool
  | PInteger "64 word"
  | PString string
  | PListInt "64 word list"
  | PFloat "64 word"
  | PListFloat "64 word list"
  | PListString "string list"
  | PTimestamp 'x

type_synonym 'x MetadataParameters = "(string \<times> 'x Parameter) list"

record 'x Metadata =
  metadata_version :: "16 word"
  timestamp :: 'x
  parameters :: "'x MetadataParameters"

section \<open>Typed accessors\<close>

definition get_string_param :: "'x MetadataParameters \<Rightarrow> string \<Rightarrow> string option" where
  "get_string_param params key =
     (case map_of params key of Some (PString s) \<Rightarrow> Some s | _ \<Rightarrow> None)"

definition get_integer_param :: "'x MetadataParameters \<Rightarrow> string \<Rightarrow> 64 word option" where
  "get_integer_param params key =
     (case map_of params key of Some (PInteger n) \<Rightarrow> Some n | _ \<Rightarrow> None)"

definition get_bool_param :: "'x MetadataParameters \<Rightarrow> string \<Rightarrow> bool option" where
  "get_bool_param params key =
     (case map_of params key of Some (PBool b) \<Rightarrow> Some b | _ \<Rightarrow> None)"

section \<open>Well-known keys\<close>

definition STARTUP_MARKER_PARAM :: string where
  "STARTUP_MARKER_PARAM = ''__dora_startup_marker''"
definition STARTUP_ACK_PARAM :: string where
  "STARTUP_ACK_PARAM = ''__dora_startup_ack''"
definition STARTUP_ACK_CONSUMER_PARAM :: string where
  "STARTUP_ACK_CONSUMER_PARAM = ''__dora_startup_ack_consumer''"
definition STARTUP_ACK_INPUT_PARAM :: string where
  "STARTUP_ACK_INPUT_PARAM = ''__dora_startup_ack_input''"
definition REQUEST_ID :: string where "REQUEST_ID = ''request_id''"
definition GOAL_ID :: string where "GOAL_ID = ''goal_id''"
definition GOAL_STATUS :: string where "GOAL_STATUS = ''goal_status''"
definition OPEN_TELEMETRY_CONTEXT :: string where
  "OPEN_TELEMETRY_CONTEXT = ''open_telemetry_context''"
definition FLUSH :: string where "FLUSH = ''flush''"
definition FRAMING :: string where "FRAMING = ''_framing''"
definition SCHEMA_HASH :: string where "SCHEMA_HASH = ''_schema_hash''"
definition WIRE_SIZE :: string where "WIRE_SIZE = ''_wire_size''"

lemmas key_defs =
  STARTUP_MARKER_PARAM_def STARTUP_ACK_PARAM_def STARTUP_ACK_CONSUMER_PARAM_def
  STARTUP_ACK_INPUT_PARAM_def REQUEST_ID_def GOAL_ID_def GOAL_STATUS_def
  OPEN_TELEMETRY_CONTEXT_def FLUSH_def FRAMING_def SCHEMA_HASH_def WIRE_SIZE_def

lemmas param_defs = get_string_param_def get_integer_param_def get_bool_param_def

section \<open>Constructors and readers of the metadata\<close>

definition CURRENT_VERSION :: "16 word" where
  "CURRENT_VERSION = 2"

definition from_parameters :: "'x \<Rightarrow> 'x MetadataParameters \<Rightarrow> 'x Metadata" where
  "from_parameters ts params =
     \<lparr> metadata_version = CURRENT_VERSION, timestamp = ts, parameters = params \<rparr>"

definition metadata_new :: "'x \<Rightarrow> 'x Metadata" where
  "metadata_new ts = from_parameters ts []"

definition startup_marker :: "'x \<Rightarrow> 'x Metadata" where
  "startup_marker ts = from_parameters ts (bm_from [(STARTUP_MARKER_PARAM, PBool True)])"

definition is_startup_marker :: "'x Metadata \<Rightarrow> bool" where
  "is_startup_marker m =
     (case get_bool_param (parameters m) STARTUP_MARKER_PARAM of Some b \<Rightarrow> b | None \<Rightarrow> False)"

definition startup_ack :: "'x \<Rightarrow> string \<Rightarrow> string \<Rightarrow> 'x Metadata" where
  "startup_ack ts consumer_node input_id =
     from_parameters ts
       (bm_from [(STARTUP_ACK_PARAM, PBool True),
                 (STARTUP_ACK_CONSUMER_PARAM, PString consumer_node),
                 (STARTUP_ACK_INPUT_PARAM, PString input_id)])"

definition startup_ack_identity :: "'x Metadata \<Rightarrow> (string \<times> string) option" where
  "startup_ack_identity m =
     (if \<not> (case get_bool_param (parameters m) STARTUP_ACK_PARAM of
               Some b \<Rightarrow> b | None \<Rightarrow> False)
      then None
      else (case get_string_param (parameters m) STARTUP_ACK_CONSUMER_PARAM of
              None \<Rightarrow> None
            | Some consumer \<Rightarrow>
                (case get_string_param (parameters m) STARTUP_ACK_INPUT_PARAM of
                   None \<Rightarrow> None
                 | Some input \<Rightarrow> Some (consumer, input))))"

definition open_telemetry_context :: "'x Metadata \<Rightarrow> string" where
  "open_telemetry_context m =
     (case get_string_param (parameters m) OPEN_TELEMETRY_CONTEXT of
        Some s \<Rightarrow> s | None \<Rightarrow> [])"

section \<open>Wire accounting, correlation and internal keys\<close>

text \<open>\<open>usize::try_from\<close> an \<open>i64\<close>: a negative value does not convert.\<close>

definition debug_frame_wire_size :: "'x MetadataParameters \<Rightarrow> byte list option \<Rightarrow> nat" where
  "debug_frame_wire_size params data =
     (case Option.bind (get_integer_param params WIRE_SIZE)
             (\<lambda>n. if sint n < 0 then None else Some (nat (sint n))) of
        Some n \<Rightarrow> n
      | None \<Rightarrow> (case data of Some d \<Rightarrow> length d | None \<Rightarrow> 0))"

definition carries_pattern_correlation :: "'x MetadataParameters \<Rightarrow> bool" where
  "carries_pattern_correlation params \<longleftrightarrow>
     map_of params REQUEST_ID \<noteq> None \<or> map_of params GOAL_ID \<noteq> None \<or>
     map_of params GOAL_STATUS \<noteq> None"

definition strip_internal_parameters :: "'x MetadataParameters \<Rightarrow> 'x MetadataParameters" where
  "strip_internal_parameters params = AList.delete FRAMING (AList.delete SCHEMA_HASH params)"

section \<open>FNV-1a\<close>

unbundle bit_operations_syntax

definition fnv1a_step :: "byte \<Rightarrow> 64 word \<Rightarrow> 64 word" where
  "fnv1a_step b hash = (hash XOR ucast b) * 0x100000001b3"

definition fnv1a :: "byte list \<Rightarrow> 64 word" where
  "fnv1a bytes = fold fnv1a_step bytes 0xcbf29ce484222325"

text \<open>
  The FNV prime is odd, hence invertible modulo \<open>2\<^sup>6\<^sup>4\<close>: every step is injective in the running
  hash, and, the byte widened, in the byte.
\<close>

definition fnv_prime_inverse :: "64 word" where
  "fnv_prime_inverse = 0xce965057aff6957b"

lemma fnv_prime_inverse_mult: "0x100000001b3 * fnv_prime_inverse = 1"
  by (simp add: fnv_prime_inverse_def)

lemma fnv_mult_inj: "a * 0x100000001b3 = b * (0x100000001b3 :: 64 word) \<Longrightarrow> a = b"
proof (drule arg_cong [where f = "\<lambda>x. x * fnv_prime_inverse"])
  assume "a * 0x100000001b3 * fnv_prime_inverse = b * 0x100000001b3 * fnv_prime_inverse"
  then show "a = b"
    by (simp only: mult.assoc fnv_prime_inverse_mult mult_1_right)
qed

lemma xor_cancel_left: "a XOR b = a XOR c \<Longrightarrow> b = (c :: 64 word)"
  by (metis bit.xor_left_self)

lemma ucast_byte_back: "ucast (ucast a :: 64 word) = (a :: byte)"
  by (rule bit_word_eqI) (auto simp: bit_simps)

lemma ucast_byte_inj: "ucast a = (ucast b :: 64 word) \<Longrightarrow> a = (b :: byte)"
  by (metis ucast_byte_back)

lemma fnv1a_step_inj: "fnv1a_step b h = fnv1a_step b h' \<Longrightarrow> h = h'"
  unfolding fnv1a_step_def xor.commute [of _ "ucast b"]
  by (drule fnv_mult_inj) (rule xor_cancel_left)

lemma fnv1a_step_byte_inj: "fnv1a_step a h = fnv1a_step b h \<Longrightarrow> a = b"
  unfolding fnv1a_step_def
  by (drule fnv_mult_inj, drule xor_cancel_left) (rule ucast_byte_inj)

lemma fnv1a_fold_inj: "fold fnv1a_step bs h = fold fnv1a_step bs h' \<Longrightarrow> h = h'"
  by (induction bs arbitrary: h h') (auto dest: fnv1a_step_inj)

section \<open>Facts about the parameter maps\<close>

lemma strip_internal_lookup:
  "map_of (strip_internal_parameters ps) k =
     (if k = SCHEMA_HASH \<or> k = FRAMING then None else map_of ps k)"
  by (auto simp: strip_internal_parameters_def AList.delete_conv')

lemma strip_internal_inv: "bm_inv ps \<Longrightarrow> bm_inv (strip_internal_parameters ps)"
  by (simp add: strip_internal_parameters_def dict_invs)

section \<open>Properties\<close>

text \<open>the schema fingerprint tells apart any two byte strings that differ in exactly one byte.\<close>

theorem fnv1a_one_byte:
  "fnv1a (p @ [a] @ q) = fnv1a (p @ [b] @ q) \<longleftrightarrow> a = b"
  by (auto simp: fnv1a_def dest!: fnv1a_fold_inj fnv1a_step_byte_inj)

text \<open>an ack names exactly the consumer and input it was built from; acks and markers are
  never taken for one another, and plain messages for neither.\<close>

theorem startup_probe_roundtrip:
  "startup_ack_identity (startup_ack ts consumer input) = Some (consumer, input) \<and>
   \<not> is_startup_marker (startup_ack ts consumer input) \<and>
   is_startup_marker (startup_marker ts) \<and> startup_ack_identity (startup_marker ts) = None \<and>
   \<not> is_startup_marker (metadata_new ts) \<and> startup_ack_identity (metadata_new ts) = None"
  by (simp add: startup_ack_identity_def startup_ack_def is_startup_marker_def startup_marker_def
      metadata_new_def from_parameters_def bm_from_def param_defs map_of_bm_insert key_defs)

text \<open>stripping the internal keys removes those two and nothing else; in particular it
  neither creates nor hides a service or action correlation or a flush request.\<close>

theorem strip_internal_exact:
  "map_of (strip_internal_parameters ps) k =
     (if k = SCHEMA_HASH \<or> k = FRAMING then None else map_of ps k) \<and>
   carries_pattern_correlation (strip_internal_parameters ps) = carries_pattern_correlation ps \<and>
   get_bool_param (strip_internal_parameters ps) FLUSH = get_bool_param ps FLUSH"
  by (simp add: strip_internal_lookup carries_pattern_correlation_def get_bool_param_def key_defs)

end
