(* ===== verification/Message_Common.thy ===== *)
theory Message_Common
  imports Ids
begin

text \<open>
  \<open>libraries/message/src/common.rs\<close>: log levels and the level filter, the exit status of a node
  process, the report of a node error, the daemon identity with its display form, and the
  reconstruction of a log message from a deserialized helper. UUIDs come from the \<open>uuid\<close> crate:
  their type and the two functions the code calls, \<open>Uuid::parse_str\<close> and \<open>Display\<close>, are
  parameters, and the locale \<open>uuid_format\<close> states the crate's documented grammar.
\<close>

section \<open>Log levels\<close>

datatype LogLevel = LError | LWarn | LInfo | LDebug | LTrace

datatype LogLevelOrStdout = Stdout | LogLevel LogLevel

text \<open>The declaration order of \<open>log::Level\<close>, on which its derived \<open>Ord\<close> rests.\<close>

fun level_rank :: "LogLevel \<Rightarrow> nat" where
  "level_rank LError = 1"
| "level_rank LWarn = 2"
| "level_rank LInfo = 3"
| "level_rank LDebug = 4"
| "level_rank LTrace = 5"

instantiation LogLevel :: linorder
begin
definition less_eq_LogLevel :: "LogLevel \<Rightarrow> LogLevel \<Rightarrow> bool" where
  "less_eq_LogLevel a b \<longleftrightarrow> level_rank a \<le> level_rank b"
definition less_LogLevel :: "LogLevel \<Rightarrow> LogLevel \<Rightarrow> bool" where
  "less_LogLevel a b \<longleftrightarrow> level_rank a < level_rank b"
instance
proof
  fix a b :: LogLevel
  show "a \<le> b \<Longrightarrow> b \<le> a \<Longrightarrow> a = b"
    by (cases a; cases b) (simp_all add: less_eq_LogLevel_def)
qed (auto simp: less_eq_LogLevel_def less_LogLevel_def)
end

fun passes :: "LogLevelOrStdout \<Rightarrow> LogLevelOrStdout \<Rightarrow> bool" where
  "passes Stdout Stdout \<longleftrightarrow> True"
| "passes Stdout (LogLevel _) \<longleftrightarrow> False"
| "passes (LogLevel _) Stdout \<longleftrightarrow> True"
| "passes (LogLevel msg) (LogLevel mx) \<longleftrightarrow> msg \<le> mx"

lemma passes_trans: "passes a b \<Longrightarrow> passes b c \<Longrightarrow> passes a c"
  by (cases a; cases b; cases c) auto

lemma passes_antisym: "passes a b \<Longrightarrow> passes b a \<Longrightarrow> a = b"
  by (cases a; cases b) auto

lemma passes_total: "passes a b \<or> passes b a"
  by (cases a; cases b) auto

section \<open>Exit status of a node process\<close>

text \<open>
  \<open>std::process::ExitStatus\<close> on Unix is the raw wait status: the low seven bits are the
  terminating signal (0: the process exited, 127: it was only stopped), the next byte is the
  exit code.
\<close>

definition status_code :: "nat \<Rightarrow> int option" where
  "status_code st = (if st mod 128 = 0 then Some (int (st div 256 mod 256)) else None)"

definition status_success :: "nat \<Rightarrow> bool" where
  "status_success st \<longleftrightarrow> status_code st = Some 0"

definition status_signal :: "nat \<Rightarrow> int option" where
  "status_signal st =
     (if st mod 128 \<noteq> 0 \<and> st mod 128 \<noteq> 127 then Some (int (st mod 128)) else None)"

datatype NodeExitStatus =
    Success
  | IoError string
  | ExitCode int
  | Signal int
  | UnknownExit

definition is_success :: "NodeExitStatus \<Rightarrow> bool" where
  "is_success s = (case s of Success \<Rightarrow> True | _ \<Rightarrow> False)"

definition exit_status_from :: "string + nat \<Rightarrow> NodeExitStatus" where
  "exit_status_from result =
     (case result of
        Inr status \<Rightarrow>
          if status_success status then Success
          else (case status_code status of
                  Some code \<Rightarrow> ExitCode code
                | None \<Rightarrow> (case status_signal status of
                            Some signal \<Rightarrow> Signal signal
                          | None \<Rightarrow> UnknownExit))
      | Inl err \<Rightarrow> IoError err)"

lemma exit_status_from_iffs:
  "exit_status_from r = Success \<longleftrightarrow> (\<exists>st. r = Inr st \<and> st mod 128 = 0 \<and> st div 256 mod 256 = 0)"
  "exit_status_from r = ExitCode c \<longleftrightarrow>
     (\<exists>st. r = Inr st \<and> st mod 128 = 0 \<and> c = int (st div 256 mod 256) \<and> c \<noteq> 0)"
  "exit_status_from r = Signal s \<longleftrightarrow>
     (\<exists>st. r = Inr st \<and> st mod 128 \<notin> {0, 127} \<and> s = int (st mod 128))"
  by (auto simp: exit_status_from_def status_success_def status_code_def status_signal_def
      split: sum.splits if_splits)

section \<open>Node errors\<close>

datatype NodeErrorCause =
    GraceDuration
  | Cascading NodeId
  | FailedToSpawn string
  | OtherCause string

record 'x NodeError =
  ne_timestamp :: 'x
  cause :: NodeErrorCause
  exit_status :: NodeExitStatus

definition show_int :: "int \<Rightarrow> string" where
  "show_int i = (if i < 0 then CHR ''-'' # show_nat (nat (- i)) else show_nat (nat i))"

definition signal_str :: "int \<Rightarrow> string" where
  "signal_str signal =
     (if signal = 1 then ''SIGHUP'' else if signal = 2 then ''SIGINT''
      else if signal = 3 then ''SIGQUIT'' else if signal = 4 then ''SIGILL''
      else if signal = 6 then ''SIGABRT'' else if signal = 8 then ''SIGFPE''
      else if signal = 9 then ''SIGKILL'' else if signal = 11 then ''SIGSEGV''
      else if signal = 13 then ''SIGPIPE'' else if signal = 14 then ''SIGALRM''
      else if signal = 15 then ''SIGTERM'' else if signal = 22 then ''SIGTTOU''
      else if signal = 23 then ''SIGURG'' else show_int signal)"

definition trim_end :: "string \<Rightarrow> string" where
  "trim_end s = rev (dropWhile is_white (rev s))"

definition dash_line :: string where
  "dash_line = replicate 81 CHR ''-'' @ [CHR 0x0A]"

definition exit_status_text :: "NodeErrorCause \<Rightarrow> NodeExitStatus \<Rightarrow> string" where
  "exit_status_text cz status =
     (case status of
        Success \<Rightarrow> ''<success>''
      | IoError err \<Rightarrow> ''I/O error while reading exit status: '' @ err
      | ExitCode code \<Rightarrow> ''exited with code '' @ show_int code
      | Signal signal \<Rightarrow>
          if cz = GraceDuration
          then ''node was killed by dora because it didn'' @ [CHR 0x27] @
               ''t react to a stop message in time ('' @ signal_str signal @ '')''
          else ''exited because of signal '' @ signal_str signal
      | UnknownExit \<Rightarrow> ''unknown exit status'')"

definition node_error_display :: "'x NodeError \<Rightarrow> string" where
  "node_error_display e =
     (case cause e of
        FailedToSpawn err \<Rightarrow> ''failed to spawn node: '' @ err
      | _ \<Rightarrow>
          exit_status_text (cause e) (exit_status e) @
          (case cause e of
             GraceDuration \<Rightarrow> []
           | Cascading n \<Rightarrow>
               ''. This error occurred because node '' @ [CHR 0x60] @ node_str n @ [CHR 0x60] @
               '' exited before connecting to dora.''
           | FailedToSpawn err \<Rightarrow> ''failed to spawn node: '' @ err
           | OtherCause stderr \<Rightarrow>
               if stderr = [] then []
               else '' with stderr output:'' @ [CHR 0x0A] @ dash_line @ trim_end stderr @
                    [CHR 0x0A] @ dash_line))"

section \<open>Daemon identity\<close>

datatype 'u DaemonId = DaemonId (machine_id: "string option") (daemon_uuid: 'u)

definition matches_machine_id :: "'u DaemonId \<Rightarrow> string \<Rightarrow> bool" where
  "matches_machine_id d m = (case machine_id d of Some i \<Rightarrow> i = m | None \<Rightarrow> False)"

definition daemon_id_display :: "('u \<Rightarrow> string) \<Rightarrow> 'u DaemonId \<Rightarrow> string" where
  "daemon_id_display uuid_show d =
     (case machine_id d of Some i \<Rightarrow> i @ ''-'' | None \<Rightarrow> []) @ uuid_show (daemon_uuid d)"

definition daemon_id_from_display_str ::
  "(string \<Rightarrow> 'u option) \<Rightarrow> string \<Rightarrow> 'u DaemonId option" where
  "daemon_id_from_display_str uuid_parse s =
     (case uuid_parse s of
        Some uuid \<Rightarrow> Some (DaemonId None uuid)
      | None \<Rightarrow>
          if length s < 36 then None
          else
            let split = length s - 36 in
            (case uuid_parse (drop split s) of
               None \<Rightarrow> None
             | Some uuid \<Rightarrow>
                 (case strip_suffix ''-'' (take split s) of
                    None \<Rightarrow> None
                  | Some m \<Rightarrow> Some (DaemonId (Some m) uuid))))"

text \<open>
  The grammar the \<open>uuid\<close> crate documents: 32 hexadecimal digits, the hyphenated form of 36
  characters that \<open>Display\<close> writes, that form in braces, or that form after \<open>urn:uuid:\<close>.
\<close>

locale uuid_format =
  fixes uuid_parse :: "string \<Rightarrow> 'u option"
    and uuid_show :: "'u \<Rightarrow> string"
  assumes parse_show: "uuid_parse (uuid_show u) = Some u"
    and show_length: "length (uuid_show u) = 36"
    and show_chars: "c \<in> set (uuid_show u) \<Longrightarrow> is_ascii_alphanumeric c \<or> c = CHR ''-''"
    and parse_forms: "uuid_parse s = Some u \<Longrightarrow>
      length s = 32 \<or> length s = 36 \<or> (length s = 38 \<and> last s = CHR ''}'') \<or>
      (length s = 45 \<and> take 9 s = ''urn:uuid:'')"
begin

lemma prefixed_not_uuid: "uuid_parse (m @ ''-'' @ uuid_show u) = None"
proof (rule ccontr)
  let ?s = "m @ ''-'' @ uuid_show u"
  assume "\<not> ?thesis"
  then obtain v where "uuid_parse ?s = Some v" by auto
  from parse_forms [OF this] show_length [of u]
  consider "last ?s = CHR ''}''" | "length m = 8" "take 9 ?s = ''urn:uuid:''" by force
  then show False
  proof cases
    case 1
    have "uuid_show u \<noteq> []" using show_length [of u] by auto
    then have "last ?s \<in> set (uuid_show u)" by simp
    with 1 show_chars [of "last ?s" u] show False by (simp add: ascii_defs)
  next
    case 2
    then have "?s ! 8 = CHR '':''"
      using arg_cong [where f = "\<lambda>l. l ! 8", OF 2(2)] by (simp add: show_length)
    with 2 show False by (simp add: nth_append)
  qed
qed

lemma display_roundtrip:
  "daemon_id_from_display_str uuid_parse (daemon_id_display uuid_show d) = Some d"
proof (cases "machine_id d")
  case None
  then show ?thesis
    by (cases d) (simp add: daemon_id_display_def daemon_id_from_display_str_def parse_show)
next
  case (Some m)
  have "strip_suffix ''-'' (m @ ''-'') = Some m"
    by (simp add: strip_suffix_Some_iff)
  with Some show ?thesis
    using prefixed_not_uuid [of m "daemon_uuid d"]
    by (cases d) (simp add: daemon_id_display_def daemon_id_from_display_str_def parse_show
        show_length Let_def)
qed

end

text \<open>
  The canonical texts, taken as the UUIDs themselves, satisfy the grammar: the interpretation
  below discharges the laws on them.
\<close>

definition is_lower_hex :: "char \<Rightarrow> bool" where
  "is_lower_hex c \<longleftrightarrow> is_ascii_digit c \<or> (97 \<le> code_of c \<and> code_of c \<le> 102)"

definition canonical_uuid :: "string \<Rightarrow> bool" where
  "canonical_uuid s \<longleftrightarrow>
     length s = 36 \<and>
     list_all (\<lambda>(i, c). if i \<in> {8, 13, 18, 23 :: nat} then c = CHR ''-'' else is_lower_hex c)
       (enumerate 0 s)"

typedef Uuid = "{s. canonical_uuid s}"
proof
  show "''00000000-0000-0000-0000-000000000000'' \<in> {s. canonical_uuid s}"
    by (simp add: canonical_uuid_def is_lower_hex_def ascii_defs)
qed

definition uuid_to_string :: "Uuid \<Rightarrow> string" where
  "uuid_to_string u = Rep_Uuid u"

definition uuid_parse_str :: "string \<Rightarrow> Uuid option" where
  "uuid_parse_str s = (if canonical_uuid s then Some (Abs_Uuid s) else None)"

lemma canonical_uuid_chars:
  assumes "canonical_uuid s" "c \<in> set s"
  shows "is_ascii_alphanumeric c \<or> c = CHR ''-''"
proof -
  from assms(2) obtain i where "i < length s" "s ! i = c"
    by (auto simp: in_set_conv_nth)
  then have "(i, c) \<in> set (enumerate 0 s)"
    by (auto simp: in_set_enumerate_eq)
  with assms(1) have "c = CHR ''-'' \<or> is_lower_hex c"
    by (auto simp: canonical_uuid_def list_all_iff split: if_splits)
  then show ?thesis
    by (auto simp: is_lower_hex_def ascii_defs)
qed

interpretation canon: uuid_format uuid_parse_str uuid_to_string
proof
  fix u :: Uuid and s c
  show "uuid_parse_str (uuid_to_string u) = Some u"
    using Rep_Uuid [of u] by (simp add: uuid_parse_str_def uuid_to_string_def Rep_Uuid_inverse)
  show "length (uuid_to_string u) = 36"
    using Rep_Uuid [of u] by (simp add: uuid_to_string_def canonical_uuid_def)
  show "c \<in> set (uuid_to_string u) \<Longrightarrow> is_ascii_alphanumeric c \<or> c = CHR ''-''"
    using Rep_Uuid [of u] by (auto simp: uuid_to_string_def dest: canonical_uuid_chars)
  show "uuid_parse_str s = Some u \<Longrightarrow>
      length s = 32 \<or> length s = 36 \<or> (length s = 38 \<and> last s = CHR ''}'') \<or>
      (length s = 45 \<and> take 9 s = ''urn:uuid:'')"
    by (auto simp: uuid_parse_str_def canonical_uuid_def split: if_splits)
qed

section \<open>Log messages\<close>

record ('b, 'u, 'x) LogMessage =
  lm_build_id :: "'b option"
  lm_dataflow_id :: "'u option"
  lm_node_id :: "NodeId option"
  lm_daemon_id :: "'u DaemonId option"
  lm_level :: LogLevelOrStdout
  lm_target :: "string option"
  lm_module_path :: "string option"
  lm_file :: "string option"
  lm_line :: "nat option"
  lm_message :: string
  lm_timestamp :: 'x
  lm_fields :: "(string \<times> string) list option"

record ('b, 'u, 'x) LogMessageHelper =
  h_build_id :: "'b option"
  h_dataflow_id :: "'u option"
  h_node_id :: "NodeId option"
  h_daemon_id :: "'u DaemonId option"
  h_level :: LogLevelOrStdout
  h_target :: "string option"
  h_module_path :: "string option"
  h_file :: "string option"
  h_line :: "nat option"
  h_message :: "string option"
  h_timestamp :: 'x
  h_fields :: "(string \<times> string) list option"

definition or_else :: "'a option \<Rightarrow> 'a option \<Rightarrow> 'a option" where
  "or_else a b = (case a of Some x \<Rightarrow> Some x | None \<Rightarrow> b)"

definition log_field :: "(string \<times> string) list option \<Rightarrow> string \<Rightarrow> string option" where
  "log_field fs k = Option.bind fs (\<lambda>f. map_of f k)"

definition log_message_from_helper ::
  "(string \<Rightarrow> 'b option) \<Rightarrow> (string \<Rightarrow> 'u option) \<Rightarrow>
   ('b, 'u, 'x) LogMessageHelper \<Rightarrow> ('b, 'u, 'x) LogMessage" where
  "log_message_from_helper build_parse uuid_parse h =
     (let fs = h_fields h in
      \<lparr> lm_build_id = or_else (h_build_id h) (Option.bind (log_field fs ''build_id'') build_parse),
        lm_dataflow_id =
          or_else (h_dataflow_id h) (Option.bind (log_field fs ''dataflow_id'') uuid_parse),
        lm_node_id =
          or_else (h_node_id h)
            (Option.bind (log_field fs ''node_id'')
               (\<lambda>s. case node_id_from_str s of Inr n \<Rightarrow> Some n | Inl _ \<Rightarrow> None)),
        lm_daemon_id =
          or_else (h_daemon_id h)
            (Option.bind (log_field fs ''daemon_id'') (daemon_id_from_display_str uuid_parse)),
        lm_level = h_level h,
        lm_target = or_else (h_target h) (log_field fs ''target''),
        lm_module_path = or_else (h_module_path h) (log_field fs ''module_path''),
        lm_file = or_else (h_file h) (log_field fs ''file''),
        lm_line =
          or_else (h_line h) (Option.bind (log_field fs ''line'') (parse_uint (2 ^ 32 - 1))),
        lm_message =
          (case or_else (h_message h) (log_field fs ''message'') of Some m \<Rightarrow> m | None \<Rightarrow> []),
        lm_timestamp = h_timestamp h,
        lm_fields = fs \<rparr>)"

section \<open>Properties\<close>

text \<open>the display form of a daemon identity parses back to it, with or without a machine id and
  whatever characters the machine id has, for any UUID library with the documented grammar.\<close>

theorem daemon_id_display_roundtrip:
  "uuid_format uuid_parse uuid_show \<Longrightarrow>
   daemon_id_from_display_str uuid_parse (daemon_id_display uuid_show d) = Some d"
  by (rule uuid_format.display_roundtrip)

end
