(* ===== verification/Input_Config.thy ===== *)
theory Input_Config
  imports Message_Common F64
begin

text \<open>
  \<open>libraries/message/src/config.rs\<close>: queue policies, the inputs of a node and their two YAML
  forms, the grammar of an input mapping (\<open>FromStr\<close> and \<open>Display\<close>), the rendering of a timer
  interval and byte sizes. A parse error is a value, one constructor per message.
\<close>

section \<open>Queue policies\<close>

definition DEFAULT_QUEUE_SIZE :: nat where
  "DEFAULT_QUEUE_SIZE = 10"

datatype QueuePolicy = DropOldest | Backpressure

text \<open>\<open>usize::saturating_mul\<close>.\<close>

definition sat_mul :: "nat \<Rightarrow> nat \<Rightarrow> nat" where
  "sat_mul a b = min (a * b) usize_max"

definition effective_cap :: "QueuePolicy \<Rightarrow> nat \<Rightarrow> nat" where
  "effective_cap policy queue_size =
     (case policy of
        DropOldest \<Rightarrow> max queue_size 1
      | Backpressure \<Rightarrow> max (sat_mul queue_size 10) 100)"

lemma effective_cap_pos [simp]: "0 < effective_cap p n"
  by (cases p) (auto simp: effective_cap_def)

lemma effective_cap_ge: "n \<le> usize_max \<Longrightarrow> n \<le> effective_cap p n"
  by (cases p) (auto simp: effective_cap_def sat_mul_def)

lemma effective_cap_le_usize: "n \<le> usize_max \<Longrightarrow> effective_cap p n \<le> usize_max"
  by (cases p) (auto simp: effective_cap_def sat_mul_def usize_max_def u64_max_def)

section \<open>Inputs\<close>

record LogSubscriptionFilter =
  min_level :: "LogLevelOrStdout option"
  node_filter :: "NodeId option"

record UserInputMapping =
  um_source :: NodeId
  um_output :: DataId

datatype InputMapping =
    Timer Duration
  | Logs LogSubscriptionFilter
  | User UserInputMapping

record Input =
  mapping :: InputMapping
  queue_size :: "nat option"
  input_timeout :: "64 word option"
  queue_policy :: "QueuePolicy option"

datatype InputDef =
    MappingOnly InputMapping
  | WithOptions InputMapping "nat option" "64 word option" "QueuePolicy option"

definition inputdef_from_input :: "Input \<Rightarrow> InputDef" where
  "inputdef_from_input i =
     (if queue_size i = None \<and> input_timeout i = None \<and> queue_policy i = None
      then MappingOnly (mapping i)
      else WithOptions (mapping i) (queue_size i) (input_timeout i) (queue_policy i))"

definition input_from_inputdef :: "InputDef \<Rightarrow> Input" where
  "input_from_inputdef v =
     (case v of
        MappingOnly m \<Rightarrow>
          \<lparr> mapping = m, queue_size = None, input_timeout = None, queue_policy = None \<rparr>
      | WithOptions m q t p \<Rightarrow>
          \<lparr> mapping = m, queue_size = q, input_timeout = t, queue_policy = p \<rparr>)"

section \<open>Rendering\<close>

definition format_log_level :: "LogLevelOrStdout \<Rightarrow> string" where
  "format_log_level level =
     (case level of
        Stdout \<Rightarrow> ''stdout''
      | LogLevel l \<Rightarrow>
          (case l of
             LError \<Rightarrow> ''error''
           | LWarn \<Rightarrow> ''warn''
           | LInfo \<Rightarrow> ''info''
           | LDebug \<Rightarrow> ''debug''
           | LTrace \<Rightarrow> ''trace''))"

definition format_duration :: "Duration \<Rightarrow> string" where
  "format_duration nanos =
     (if nanos mod 10 ^ 9 = 0 then ''secs/'' @ show_nat (nanos div 10 ^ 9)
      else if nanos mod 10 ^ 6 = 0 then ''millis/'' @ show_nat (nanos div 10 ^ 6)
      else if nanos mod 10 ^ 3 = 0 then ''micros/'' @ show_nat (nanos div 10 ^ 3)
      else ''nanos/'' @ show_nat nanos)"

definition input_mapping_display :: "InputMapping \<Rightarrow> string" where
  "input_mapping_display m =
     (case m of
        Timer interval \<Rightarrow> ''dora/timer/'' @ format_duration interval
      | Logs filt \<Rightarrow>
          ''dora/logs'' @
          (case (min_level filt, node_filter filt) of
             (Some level, nf) \<Rightarrow>
               ''/'' @ format_log_level level @
               (case nf of Some n \<Rightarrow> ''/'' @ node_str n | None \<Rightarrow> [])
           | (None, Some n) \<Rightarrow> ''/stdout/'' @ node_str n
           | (None, None) \<Rightarrow> [])
      | User u \<Rightarrow> node_str (um_source u) @ ''/'' @ data_str (um_output u))"

section \<open>Parsing\<close>

datatype timer_unit = Secs | Millis | Micros | Nanos

datatype mapping_error =
    NoSourceSegment
  | TimerWithoutUnit
  | NotAnInteger timer_unit string
  | HzNotANumber string
  | HzNotPositive string
  | HzOutOfRange string
  | UnknownTimerUnit string
  | ZeroInterval string string
  | BadIdentifier invalid_id
  | UnknownLogLevel string
  | UnknownDoraInput string
  | InvalidDoraInput

definition parse_log_level_str :: "string \<Rightarrow> mapping_error + LogLevelOrStdout" where
  "parse_log_level_str s =
     (let l = map to_lower s in
      if l = ''stdout'' then Inr Stdout
      else if l = ''error'' then Inr (LogLevel LError)
      else if l = ''warn'' then Inr (LogLevel LWarn)
      else if l = ''info'' then Inr (LogLevel LInfo)
      else if l = ''debug'' then Inr (LogLevel LDebug)
      else if l = ''trace'' then Inr (LogLevel LTrace)
      else Inl (UnknownLogLevel l))"

fun unit_nanos :: "timer_unit \<Rightarrow> nat" where
  "unit_nanos Secs = 10 ^ 9"
| "unit_nanos Millis = 10 ^ 6"
| "unit_nanos Micros = 10 ^ 3"
| "unit_nanos Nanos = 1"

definition parse_unit_count :: "timer_unit \<Rightarrow> string \<Rightarrow> mapping_error + Duration" where
  "parse_unit_count u v =
     (case parse_uint u64_max v of
        None \<Rightarrow> Inl (NotAnInteger u v)
      | Some n \<Rightarrow> Inr (n * unit_nanos u))"

definition parse_hz :: "string \<Rightarrow> mapping_error + Duration" where
  "parse_hz v =
     (case parse_f64 v of
        None \<Rightarrow> Inl (HzNotANumber v)
      | Some hz \<Rightarrow>
          if \<not> f64_is_finite hz \<or> f64_le_zero hz then Inl (HzNotPositive v)
          else (case try_from_secs_f64 (f64_recip hz) of
                  None \<Rightarrow> Inl (HzOutOfRange v)
                | Some d \<Rightarrow> Inr d))"

definition parse_interval :: "string \<Rightarrow> string \<Rightarrow> mapping_error + Duration" where
  "parse_interval u v =
     (if u = ''secs'' then parse_unit_count Secs v
      else if u = ''millis'' then parse_unit_count Millis v
      else if u = ''micros'' then parse_unit_count Micros v
      else if u = ''nanos'' then parse_unit_count Nanos v
      else if u = ''hz'' then parse_hz v
      else Inl (UnknownTimerUnit u))"

definition parse_timer :: "string \<Rightarrow> mapping_error + InputMapping" where
  "parse_timer s =
     (case split_once CHR ''/'' s of
        None \<Rightarrow> Inl TimerWithoutUnit
      | Some (u, v) \<Rightarrow>
          (case parse_interval u v of
             Inl e \<Rightarrow> Inl e
           | Inr interval \<Rightarrow>
               if interval = 0 then Inl (ZeroInterval u v) else Inr (Timer interval)))"

definition parse_logs :: "string \<Rightarrow> mapping_error + InputMapping" where
  "parse_logs rest =
     (let seg = (case split_once CHR ''/'' rest of
                   Some (level, n) \<Rightarrow>
                     (case node_id_from_str n of
                        Inl e \<Rightarrow> Inl (BadIdentifier e)
                      | Inr node_id \<Rightarrow> Inr (Some level, Some node_id))
                 | None \<Rightarrow> Inr (if rest = [] then None else Some rest, None))
      in case seg of
           Inl e \<Rightarrow> Inl e
         | Inr (None, nf) \<Rightarrow> Inr (Logs \<lparr> min_level = None, node_filter = nf \<rparr>)
         | Inr (Some level, nf) \<Rightarrow>
             (case parse_log_level_str level of
                Inl e \<Rightarrow> Inl e
              | Inr l \<Rightarrow> Inr (Logs \<lparr> min_level = Some l, node_filter = nf \<rparr>)))"

definition parse_user :: "string \<Rightarrow> string \<Rightarrow> mapping_error + InputMapping" where
  "parse_user source output =
     (case node_id_from_str source of
        Inl e \<Rightarrow> Inl (BadIdentifier e)
      | Inr src \<Rightarrow>
          (case data_id_from_str output of
             Inl e \<Rightarrow> Inl (BadIdentifier e)
           | Inr out \<Rightarrow> Inr (User \<lparr> um_source = src, um_output = out \<rparr>)))"

definition input_mapping_from_str :: "string \<Rightarrow> mapping_error + InputMapping" where
  "input_mapping_from_str s =
     (case split_once CHR ''/'' s of
        None \<Rightarrow> Inl NoSourceSegment
      | Some (source, output) \<Rightarrow>
          if source = ''dora'' then
            (case split_once CHR ''/'' output of
               Some (kind, rest) \<Rightarrow>
                 if kind = ''timer'' then parse_timer rest
                 else if kind = ''logs'' then parse_logs rest
                 else Inl (UnknownDoraInput kind)
             | None \<Rightarrow>
                 if output = ''logs''
                 then Inr (Logs \<lparr> min_level = None, node_filter = None \<rparr>)
                 else Inl InvalidDoraInput)
          else parse_user source output)"

section \<open>Byte sizes\<close>

datatype byte_size_error =
    InvalidByteSize string
  | UnknownByteUnit string
  | ByteSizeTooLarge string
  | InvalidByteNumber string
  | NegativeByteSize string

definition byte_unit :: "string \<Rightarrow> nat option" where
  "byte_unit u =
     (if u = ''B'' then Some 1
      else if u = ''KB'' \<or> u = ''K'' then Some 1024
      else if u = ''MB'' \<or> u = ''M'' then Some (1024 * 1024)
      else if u = ''GB'' \<or> u = ''G'' then Some (1024 * 1024 * 1024)
      else None)"

definition parse_byte_count :: "string \<Rightarrow> byte_size_error + nat" where
  "parse_byte_count text =
     (let s = str_trim text in
      if list_all (\<lambda>c. \<not> is_ascii_alphabetic c) s then
        (case parse_uint u64_max s of
           None \<Rightarrow> Inl (InvalidByteSize s)
         | Some n \<Rightarrow> Inr n)
      else
        let num_part = str_trim (takeWhile (\<lambda>c. \<not> is_ascii_alphabetic c) s);
            unit_part = map to_upper (str_trim (dropWhile (\<lambda>c. \<not> is_ascii_alphabetic c) s))
        in case byte_unit unit_part of
             None \<Rightarrow> Inl (UnknownByteUnit unit_part)
           | Some multiplier \<Rightarrow>
               (case parse_uint u64_max num_part of
                  Some num \<Rightarrow>
                    if num * multiplier \<le> u64_max then Inr (num * multiplier)
                    else Inl (ByteSizeTooLarge s)
                | None \<Rightarrow>
                    (case parse_f64 num_part of
                       None \<Rightarrow> Inl (InvalidByteNumber num_part)
                     | Some num \<Rightarrow>
                         if \<not> f64_is_finite num \<or> f64_lt_zero num then Inl (NegativeByteSize s)
                         else
                           let bytes = f64_mul_nat num multiplier in
                           if f64_ge_nat bytes (2 ^ 64) then Inl (ByteSizeTooLarge s)
                           else Inr (f64_as_u64 bytes))))"

definition byte_size_from_str :: "string \<Rightarrow> byte_size_error + nat" where
  "byte_size_from_str s =
     (case parse_byte_count s of
        Inl e \<Rightarrow> Inl e
      | Inr bytes \<Rightarrow>
          if bytes \<le> usize_max then Inr bytes else Inl (ByteSizeTooLarge (str_trim s)))"

definition byte_size_display :: "nat \<Rightarrow> string" where
  "byte_size_display bytes =
     (if bytes = 0 then ''0B''
      else if bytes mod (1024 * 1024 * 1024) = 0
        then show_nat (bytes div (1024 * 1024 * 1024)) @ ''GB''
      else if bytes mod (1024 * 1024) = 0 then show_nat (bytes div (1024 * 1024)) @ ''MB''
      else if bytes mod 1024 = 0 then show_nat (bytes div 1024) @ ''KB''
      else show_nat bytes)"

definition byte_size_visit_i64 :: "int \<Rightarrow> nat option" where
  "byte_size_visit_i64 v =
     (if v < 0 then None else if nat v \<le> usize_max then Some (nat v) else None)"

subsection \<open>Printing and parsing byte sizes\<close>

lemma digit_not_alphabetic: "is_ascii_digit c \<Longrightarrow> \<not> is_ascii_alphabetic c"
  by (auto simp: ascii_defs)

lemma digit_not_white: "is_ascii_digit c \<Longrightarrow> \<not> is_white c"
  by (auto simp: ascii_defs is_white_def)

lemma show_nat_takeWhile:
  assumes "is_ascii_alphabetic a"
  shows "takeWhile (\<lambda>c. \<not> is_ascii_alphabetic c) (show_nat n @ a # u) = show_nat n"
    and "dropWhile (\<lambda>c. \<not> is_ascii_alphabetic c) (show_nat n @ a # u) = a # u"
  using show_nat_digits [of n] assms digit_not_alphabetic
  by (simp_all add: takeWhile_append dropWhile_append)

lemma str_trim_show_nat: "str_trim (show_nat n) = show_nat n"
  using show_nat_digits [of n] digit_not_white
  by (intro str_trim_id) auto

lemma str_trim_show_nat_unit:
  assumes "\<forall>c\<in>set u. \<not> is_white c"
  shows "str_trim (show_nat n @ u) = show_nat n @ u"
  using show_nat_digits [of n] digit_not_white assms
  by (intro str_trim_id) auto

lemma parse_byte_count_unit:
  assumes "u = a # r" "is_ascii_alphabetic a" "\<forall>c\<in>set u. \<not> is_white c"
    "byte_unit (map to_upper u) = Some k" "n \<le> u64_max" "n * k \<le> u64_max"
  shows "parse_byte_count (show_nat n @ u) = Inr (n * k)"
  using assms show_nat_takeWhile [of a n r] str_trim_show_nat_unit [of u n] str_trim_id [of u]
  by (simp add: parse_byte_count_def str_trim_show_nat parse_uint_show_nat Let_def)

lemma parse_byte_count_plain:
  "n \<le> u64_max \<Longrightarrow> parse_byte_count (show_nat n) = Inr n"
  using show_nat_digits [of n] digit_not_alphabetic
  by (simp add: parse_byte_count_def str_trim_show_nat parse_uint_show_nat list_all_iff)

lemma byte_unit_suffixes:
  "byte_unit (map to_upper ''B'') = Some 1"
  "byte_unit (map to_upper ''KB'') = Some 1024"
  "byte_unit (map to_upper ''MB'') = Some (1024 * 1024)"
  "byte_unit (map to_upper ''GB'') = Some (1024 * 1024 * 1024)"
  by (simp_all add: byte_unit_def ascii_defs)

lemma div_mult_le_u64: "n \<le> u64_max \<Longrightarrow> n mod k = 0 \<Longrightarrow> n div k \<le> u64_max \<and> n div k * k = n"
  by (metis div_le_dividend le_trans mult_div_mod_eq add.right_neutral mult.commute)

lemma byte_size_roundtrip:
  assumes "n \<le> usize_max"
  shows "byte_size_from_str (byte_size_display n) = Inr n"
proof -
  have n: "n \<le> u64_max" using assms by (simp add: usize_max_def)
  note U = parse_byte_count_unit [OF refl _ _ byte_unit_suffixes(1)]
    parse_byte_count_unit [OF refl _ _ byte_unit_suffixes(2)]
    parse_byte_count_unit [OF refl _ _ byte_unit_suffixes(3)]
    parse_byte_count_unit [OF refl _ _ byte_unit_suffixes(4)]
  have ok: "is_ascii_alphabetic CHR ''B''" "is_ascii_alphabetic CHR ''K''"
    "is_ascii_alphabetic CHR ''M''" "is_ascii_alphabetic CHR ''G''"
    "\<forall>c\<in>set ''B''. \<not> is_white c" "\<forall>c\<in>set ''KB''. \<not> is_white c"
    "\<forall>c\<in>set ''MB''. \<not> is_white c" "\<forall>c\<in>set ''GB''. \<not> is_white c"
    by (simp_all add: ascii_defs is_white_def)
  have zero: "''0B'' = show_nat 0 @ ''B''"
    by (subst show_nat.simps) simp
  have "parse_byte_count (byte_size_display n) = Inr n"
    unfolding byte_size_display_def zero
    using div_mult_le_u64 [OF n] n
      U(1) [OF ok(1) ok(5), of 0] U(2) [OF ok(2) ok(6)] U(3) [OF ok(3) ok(7)] U(4) [OF ok(4) ok(8)]
    by (auto simp: parse_byte_count_plain simp del: append_Cons append.simps)
  then show ?thesis
    using assms by (simp add: byte_size_from_str_def)
qed

section \<open>Printing and parsing input mappings\<close>

text \<open>
  The mappings that parsing produces: a timer never has a zero interval, an identifier is valid,
  and a node filter comes with a level.
\<close>

definition mapping_wf :: "InputMapping \<Rightarrow> bool" where
  "mapping_wf m =
     (case m of
        Timer d \<Rightarrow> 0 < d
      | Logs f \<Rightarrow>
          (case node_filter f of
             None \<Rightarrow> True
           | Some n \<Rightarrow> valid_node_id (node_str n) \<and> min_level f \<noteq> None)
      | User u \<Rightarrow> valid_node_id (node_str (um_source u)) \<and> valid_data_id (data_str (um_output u)))"

text \<open>The unit that \<^const>\<open>format_duration\<close> chooses, and whether its count is a \<open>u64\<close>.\<close>

definition duration_unit :: "Duration \<Rightarrow> timer_unit" where
  "duration_unit d =
     (if d mod 10 ^ 9 = 0 then Secs else if d mod 10 ^ 6 = 0 then Millis
      else if d mod 10 ^ 3 = 0 then Micros else Nanos)"

definition count_fits :: "InputMapping \<Rightarrow> bool" where
  "count_fits m =
     (case m of Timer d \<Rightarrow> d div unit_nanos (duration_unit d) \<le> u64_max | _ \<Rightarrow> True)"

lemma duration_unit_divides: "d mod unit_nanos (duration_unit d) = 0"
  by (simp add: duration_unit_def)

lemma parse_interval_display:
  "split_once CHR ''/'' (format_duration d) = Some (u, v) \<Longrightarrow>
   parse_interval u v = parse_unit_count (duration_unit d) (show_nat (d div unit_nanos (duration_unit d)))"
  by (auto simp: format_duration_def duration_unit_def parse_interval_def split: if_splits)

lemma format_duration_split:
  "\<exists>u. split_once CHR ''/'' (format_duration d) =
     Some (u, show_nat (d div unit_nanos (duration_unit d)))"
  by (auto simp: format_duration_def duration_unit_def)

lemma parse_timer_display:
  assumes "0 < d"
  shows "parse_timer (format_duration d) =
    (if d div unit_nanos (duration_unit d) \<le> u64_max then Inr (Timer d)
     else Inl (NotAnInteger (duration_unit d) (show_nat (d div unit_nanos (duration_unit d)))))"
proof -
  let ?k = "unit_nanos (duration_unit d)"
  obtain u where sp: "split_once CHR ''/'' (format_duration d) = Some (u, show_nat (d div ?k))"
    using format_duration_split by blast
  have "d div ?k * ?k = d"
    using duration_unit_divides [of d] by (metis add.right_neutral div_mult_mod_eq)
  then show ?thesis
    using assms sp parse_interval_display [OF sp]
    by (auto simp: parse_timer_def parse_unit_count_def parse_uint_show_nat parse_uint_too_large)
qed

lemma parse_log_level_format: "parse_log_level_str (format_log_level l) = Inr l"
proof (cases l)
  case (LogLevel k)
  then show ?thesis
    by (cases k) (simp_all add: parse_log_level_str_def format_log_level_def ascii_defs)
qed (simp add: parse_log_level_str_def format_log_level_def ascii_defs)

lemma format_log_level_no_slash: "CHR ''/'' \<notin> set (format_log_level l)" "format_log_level l \<noteq> []"
  by (auto simp: format_log_level_def split: LogLevelOrStdout.splits LogLevel.splits)

lemma parse_logs_level:
  "parse_logs (format_log_level l) = Inr (Logs \<lparr> min_level = Some l, node_filter = None \<rparr>)"
proof -
  have "split_once CHR ''/'' (format_log_level l) = None"
    by (simp add: split_once_None_iff format_log_level_no_slash)
  then show ?thesis
    by (simp add: parse_logs_def parse_log_level_format format_log_level_no_slash Let_def)
qed

lemma parse_logs_level_node:
  assumes "valid_node_id n"
  shows "parse_logs (format_log_level l @ CHR ''/'' # n) =
    Inr (Logs \<lparr> min_level = Some l, node_filter = Some (NodeId n) \<rparr>)"
proof -
  have "split_once CHR ''/'' (format_log_level l @ CHR ''/'' # n) = Some (format_log_level l, n)"
    by (simp add: split_once_append format_log_level_no_slash)
  moreover have "node_id_from_str n = Inr (NodeId n)"
    using assms by (simp add: node_id_from_str_Inr_iff)
  ultimately show ?thesis
    by (simp add: parse_logs_def parse_log_level_format Let_def)
qed

lemma parse_user_display:
  assumes "valid_node_id n" "valid_data_id d"
  shows "input_mapping_from_str (n @ ''/'' @ d) =
    Inr (User \<lparr> um_source = NodeId n, um_output = DataId d \<rparr>)"
proof -
  have "split_once CHR ''/'' (n @ ''/'' @ d) = Some (n, d)"
    using assms by (simp add: split_once_append valid_node_id_no_slash)
  moreover have "n \<noteq> ''dora''" "node_id_from_str n = Inr (NodeId n)" "data_id_from_str d = Inr (DataId d)"
    using assms by (auto simp: valid_node_id_def node_id_from_str_Inr_iff data_id_from_str_Inr_iff)
  ultimately show ?thesis
    by (simp add: input_mapping_from_str_def parse_user_def)
qed

lemma dora_timer_route: "input_mapping_from_str (''dora/timer/'' @ r) = parse_timer r"
  and dora_logs_route: "input_mapping_from_str (''dora/logs/'' @ r) = parse_logs r"
  and dora_logs_bare:
    "input_mapping_from_str ''dora/logs'' = Inr (Logs \<lparr> min_level = None, node_filter = None \<rparr>)"
  by (simp_all add: input_mapping_from_str_def)

lemma mapping_roundtrip:
  assumes "mapping_wf m"
  shows "input_mapping_from_str (input_mapping_display m) = Inr m \<longleftrightarrow> count_fits m"
proof (cases m)
  case (Timer d)
  with assms show ?thesis
    using parse_timer_display [of d] dora_timer_route [of "format_duration d"]
    by (simp add: mapping_wf_def count_fits_def input_mapping_display_def del: append.simps)
next
  case (Logs f)
  obtain ml nf where f: "f = \<lparr> min_level = ml, node_filter = nf \<rparr>" by (cases f) auto
  show ?thesis
  proof (cases ml)
    case None
    with assms Logs f show ?thesis
      using dora_logs_bare
      by (auto simp: mapping_wf_def count_fits_def input_mapping_display_def split: option.splits)
  next
    case (Some l)
    show ?thesis
    proof (cases nf)
      case None
      with Some Logs f show ?thesis
        using dora_logs_route [of "format_log_level l"] parse_logs_level [of l]
        by (simp add: count_fits_def input_mapping_display_def)
    next
      case (Some n)
      with \<open>ml = Some l\<close> assms Logs f show ?thesis
        using dora_logs_route [of "format_log_level l @ CHR ''/'' # node_str n"]
          parse_logs_level_node [of "node_str n" l]
        by (simp add: mapping_wf_def count_fits_def input_mapping_display_def)
    qed
  qed
next
  case (User u)
  with assms show ?thesis
    using parse_user_display [of "node_str (um_source u)" "data_str (um_output u)"]
    by (cases u) (simp add: mapping_wf_def count_fits_def input_mapping_display_def)
qed

lemma parse_timer_wf: "parse_timer s = Inr m \<Longrightarrow> mapping_wf m"
  by (auto simp: parse_timer_def mapping_wf_def split: option.splits prod.splits sum.splits if_splits)

lemma parse_logs_wf: "parse_logs s = Inr m \<Longrightarrow> mapping_wf m"
  by (auto simp: parse_logs_def mapping_wf_def Let_def node_id_from_str_Inr_iff
      split: option.splits prod.splits sum.splits if_splits)

lemma parse_user_wf: "parse_user a b = Inr m \<Longrightarrow> mapping_wf m"
  by (auto simp: parse_user_def mapping_wf_def node_id_from_str_Inr_iff data_id_from_str_Inr_iff
      split: sum.splits)

lemma mapping_wf_bare_logs: "mapping_wf (Logs \<lparr> min_level = None, node_filter = None \<rparr>)"
  by (simp add: mapping_wf_def)

lemma input_mapping_from_str_wf: "input_mapping_from_str s = Inr m \<Longrightarrow> mapping_wf m"
  by (auto simp: input_mapping_from_str_def mapping_wf_bare_logs
      split: option.splits prod.splits if_splits
      dest: parse_timer_wf parse_logs_wf parse_user_wf)

section \<open>Delivery of log messages\<close>

text \<open>
  The test the daemon applies to a log subscriber, \<open>binaries/daemon/src/dora_events.rs\<close>: the level
  filter, the node filter, and no delivery to the node that wrote the message.
\<close>

definition log_delivered ::
  "LogSubscriptionFilter \<Rightarrow> NodeId \<Rightarrow> LogLevelOrStdout \<Rightarrow> NodeId option \<Rightarrow> bool" where
  "log_delivered filt sub_node level origin =
     (if (case min_level filt of Some ml \<Rightarrow> \<not> passes level ml | None \<Rightarrow> False) then False
      else if (case node_filter filt of Some n \<Rightarrow> origin \<noteq> Some n | None \<Rightarrow> False) then False
      else origin \<noteq> Some sub_node)"

section \<open>Properties\<close>

text \<open>whatever parses as an input mapping has a non-zero timer interval, valid node and data
  identifiers, and a level whenever it restricts the node.\<close>

theorem parsed_mapping_wf:
  "input_mapping_from_str s = Inr m \<Longrightarrow> mapping_wf m"
  by (rule input_mapping_from_str_wf)

text \<open>C8: a well-formed input mapping is rendered to a string that parses back to it, if and only
  if the count printed for a timer interval fits in a \<open>u64\<close>.\<close>

theorem mapping_display_roundtrip:
  "mapping_wf m \<Longrightarrow>
   input_mapping_from_str (input_mapping_display m) = Inr m \<longleftrightarrow> count_fits m"
  by (rule mapping_roundtrip)

theorem mapping_display_roundtrip_witness:
  "input_mapping_from_str (input_mapping_display (Timer 333333)) = Inr (Timer 333333)"
  using mapping_display_roundtrip [of "Timer 333333"]
  by (simp add: mapping_wf_def count_fits_def duration_unit_def u64_max_def)

text \<open>a log filter with a node but no level, which the wire form cannot express, is rendered as
  a \<open>stdout\<close> filter on that node; re-parsed, it delivers exactly the same messages.\<close>

theorem node_only_log_filter_equivalent:
  "valid_node_id (node_str n) \<Longrightarrow>
   \<exists>f. input_mapping_from_str
          (input_mapping_display (Logs \<lparr> min_level = None, node_filter = Some n \<rparr>)) =
         Inr (Logs f) \<and>
       log_delivered f = log_delivered \<lparr> min_level = None, node_filter = Some n \<rparr>"
proof -
  assume "valid_node_id (node_str n)"
  then have "input_mapping_from_str
      (input_mapping_display (Logs \<lparr> min_level = None, node_filter = Some n \<rparr>)) =
      Inr (Logs \<lparr> min_level = Some Stdout, node_filter = Some n \<rparr>)"
    using dora_logs_route [of "format_log_level Stdout @ CHR ''/'' # node_str n"]
      parse_logs_level_node [of "node_str n" Stdout]
    by (simp add: input_mapping_display_def format_log_level_def)
  moreover have "passes l Stdout" for l
    by (cases l) auto
  ultimately show ?thesis
    by (auto simp: log_delivered_def fun_eq_iff)
qed

text \<open>every byte size that fits in a \<open>usize\<close> is rendered, in the coarsest exact unit, to a string
  that parses back to it.\<close>

theorem byte_size_display_roundtrip:
  "n \<le> usize_max \<Longrightarrow> byte_size_from_str (byte_size_display n) = Inr n"
  by (rule byte_size_roundtrip)

end
