(* ===== verification/Node_Events.thy ===== *)
theory Node_Events
  imports Ids Metadata_Params
begin

text \<open>
  The events a daemon sends to a node (\<open>NodeEvent\<close>, \<open>libraries/message/src/daemon_to_node.rs\<close>)
  with the size hint of their encoding, and the items of a node's event stream (\<open>EventItem\<close>,
  \<open>apis/rust/node/src/event_stream/thread.rs\<close>). Decoded Arrow data and error reports are opaque
  (\<open>'x\<close>).
\<close>

datatype 'x NodeEvent =
    Stop
  | Reload "OperatorId option"
  | InputEvent DataId "'x Metadata" "byte list option"
  | InputClosed DataId
  | InputRecovered DataId
  | NodeRestarted NodeId
  | AllInputsClosed
  | ParamUpdate string "byte list"
  | ParamDeleted string
  | NodeFailed "DataId list" string NodeId
  | ExtensionDropped string string

definition PER_EVENT_ENVELOPE :: nat where
  "PER_EVENT_ENVELOPE = 128"

definition encode_size_hint :: "'x NodeEvent \<Rightarrow> nat" where
  "encode_size_hint e =
     (let payload =
        (case e of
           InputEvent _ _ data \<Rightarrow> (case data of Some d \<Rightarrow> length d | None \<Rightarrow> 0)
         | ParamUpdate _ value_json \<Rightarrow> length value_json
         | NodeFailed _ err _ \<Rightarrow> length err
         | ExtensionDropped ns key \<Rightarrow> length ns + length key
         | _ \<Rightarrow> 0)
      in min (payload + PER_EVENT_ENVELOPE) usize_max)"

datatype 'x EventItem =
    NodeEv "'x NodeEvent"
  | ZenohInput DataId "'x Metadata" 'x
  | FatalError 'x
  | TimeoutError 'x

end
