(* ===== verification/Event_Scheduler.thy ===== *)
theory Event_Scheduler
  imports Node_Events Input_Config "HOL-Library.Multiset" "HOL-Library.Sublist"
begin

text \<open>
  The fair scheduler of a node's event stream, \<open>apis/rust/node/src/event_stream/scheduler.rs\<close>:
  one bounded queue per input and one for all other events, the eviction rule that protects
  service/action correlations and the stop signal, and least-recently-used service of the inputs.
  The state is the code's four fields; a \<open>HashMap\<close> is an association list with distinct keys
  in an arbitrary order; log output is not modelled; drop counters do not wrap.
\<close>

section \<open>Classification of events\<close>

definition event_parameters :: "'x EventItem \<Rightarrow> 'x MetadataParameters option" where
  "event_parameters event =
     (case event of
        NodeEv (InputEvent _ metadata _) \<Rightarrow> Some (parameters metadata)
      | ZenohInput _ metadata _ \<Rightarrow> Some (parameters metadata)
      | _ \<Rightarrow> None)"

definition is_correlated :: "'x EventItem \<Rightarrow> bool" where
  "is_correlated event =
     (case event_parameters event of Some ps \<Rightarrow> carries_pattern_correlation ps | None \<Rightarrow> False)"

definition is_stop :: "'x EventItem \<Rightarrow> bool" where
  "is_stop event = (case event of NodeEv Stop \<Rightarrow> True | _ \<Rightarrow> False)"

section \<open>Eviction\<close>

datatype Eviction =
    RemoveAt nat
  | DropIncoming
  | DropCorrelatedLoud nat

definition select_eviction :: "'x EventItem list \<Rightarrow> 'x EventItem \<Rightarrow> Eviction" where
  "select_eviction queue incoming =
     (case position (\<lambda>e. \<not> is_correlated e \<and> \<not> is_stop e) queue of
        Some idx \<Rightarrow> RemoveAt idx
      | None \<Rightarrow>
          if \<not> is_correlated incoming \<and> \<not> is_stop incoming then DropIncoming
          else (case position (\<lambda>e. \<not> is_stop e) queue of
                  Some idx \<Rightarrow> DropCorrelatedLoud idx
                | None \<Rightarrow> DropIncoming))"

section \<open>The scheduler\<close>

definition NON_INPUT_EVENT_ID :: DataId where
  "NON_INPUT_EVENT_ID = DataId ''dora.non_input_event''"

definition NON_INPUT_EVENT_QUEUE_SIZE :: nat where
  "NON_INPUT_EVENT_QUEUE_SIZE = 1000"

record 'x Scheduler =
  last_used :: "DataId list"
  event_queues :: "(DataId \<times> nat \<times> 'x EventItem list) list"
  queue_policies :: "(DataId \<times> QueuePolicy) list"
  dropped :: "(DataId \<times> nat) list"

definition with_policies ::
  "(DataId \<times> nat \<times> 'x EventItem list) list \<Rightarrow> (DataId \<times> QueuePolicy) list \<Rightarrow> 'x Scheduler" where
  "with_policies queues policies =
     \<lparr> last_used = filter (\<lambda>t. t \<noteq> NON_INPUT_EVENT_ID) (map fst queues),
       event_queues = queues, queue_policies = policies, dropped = [] \<rparr>"

definition drain_drop_counts :: "'x Scheduler \<Rightarrow> (DataId \<times> nat) list \<times> 'x Scheduler" where
  "drain_drop_counts s = (dropped s, s\<lparr>dropped := []\<rparr>)"

definition policy_for :: "'x Scheduler \<Rightarrow> DataId \<Rightarrow> QueuePolicy" where
  "policy_for s i = (case map_of (queue_policies s) i of Some p \<Rightarrow> p | None \<Rightarrow> DropOldest)"

definition effective_cap_for :: "'x Scheduler \<Rightarrow> DataId \<Rightarrow> nat" where
  "effective_cap_for s i =
     effective_cap (policy_for s i)
       (case map_of (event_queues s) i of Some (sz, _) \<Rightarrow> sz | None \<Rightarrow> DEFAULT_QUEUE_SIZE)"

definition drop_count :: "'x Scheduler \<Rightarrow> DataId \<Rightarrow> nat" where
  "drop_count s i = (case map_of (dropped s) i of Some n \<Rightarrow> n | None \<Rightarrow> 0)"

definition record_drop :: "DataId \<Rightarrow> 'x Scheduler \<Rightarrow> 'x Scheduler" where
  "record_drop i s = s\<lparr>dropped := AList.update i (drop_count s i + 1) (dropped s)\<rparr>"

definition record_non_input_drop :: "'x Scheduler \<Rightarrow> 'x Scheduler" where
  "record_non_input_drop s = record_drop NON_INPUT_EVENT_ID s"

text \<open>The queue an event goes to, and whether it asks for a flush of that queue.\<close>

definition flush_requested :: "'x Metadata \<Rightarrow> bool" where
  "flush_requested metadata \<longleftrightarrow> get_bool_param (parameters metadata) FLUSH = Some True"

definition event_target :: "'x EventItem \<Rightarrow> DataId \<times> bool" where
  "event_target event =
     (case event of
        NodeEv (InputEvent i metadata _) \<Rightarrow> (i, flush_requested metadata)
      | ZenohInput i metadata _ \<Rightarrow> (i, flush_requested metadata)
      | _ \<Rightarrow> (NON_INPUT_EVENT_ID, False))"

definition flush_queue :: "DataId \<Rightarrow> 'x Scheduler \<Rightarrow> 'x Scheduler" where
  "flush_queue i s =
     (case map_of (event_queues s) i of
        None \<Rightarrow> s
      | Some (sz, queue) \<Rightarrow>
          s\<lparr>event_queues :=
              AList.update i (sz, filter (\<lambda>e. is_correlated e \<or> is_stop e) queue)
                (event_queues s)\<rparr>)"

definition ensure_queue :: "DataId \<Rightarrow> 'x Scheduler \<Rightarrow> 'x Scheduler" where
  "ensure_queue i s =
     (if map_of (event_queues s) i = None
      then s\<lparr>last_used := last_used s @ [i],
             event_queues := AList.update i (DEFAULT_QUEUE_SIZE, []) (event_queues s)\<rparr>
      else s)"

definition set_queue :: "DataId \<Rightarrow> nat \<Rightarrow> 'x EventItem list \<Rightarrow> 'x Scheduler \<Rightarrow> 'x Scheduler" where
  "set_queue i sz queue s =
     s\<lparr>event_queues := AList.update i (sz, queue) (event_queues s)\<rparr>"

definition enqueue :: "DataId \<Rightarrow> 'x EventItem \<Rightarrow> 'x Scheduler \<Rightarrow> 'x Scheduler" where
  "enqueue i event s =
     (case map_of (event_queues s) i of
        None \<Rightarrow> s
      | Some (sz, queue) \<Rightarrow>
          if length queue < effective_cap (policy_for s i) sz
          then set_queue i sz (queue @ [event]) s
          else
            let s = record_drop i s in
            (case select_eviction queue event of
               RemoveAt idx \<Rightarrow> set_queue i sz (remove_nth idx queue @ [event]) s
             | DropIncoming \<Rightarrow> s
             | DropCorrelatedLoud idx \<Rightarrow> set_queue i sz (remove_nth idx queue @ [event]) s))"

definition add_event :: "'x EventItem \<Rightarrow> 'x Scheduler \<Rightarrow> 'x Scheduler" where
  "add_event event s =
     (case event_target event of (i, should_flush) \<Rightarrow>
        enqueue i event (ensure_queue i (if should_flush then flush_queue i s else s)))"

text \<open>The oldest event of a queue, taken out of it.\<close>

definition pop_front :: "DataId \<Rightarrow> 'x Scheduler \<Rightarrow> ('x EventItem \<times> 'x Scheduler) option" where
  "pop_front i s =
     (case map_of (event_queues s) i of
        Some (sz, event # queue) \<Rightarrow> Some (event, set_queue i sz queue s)
      | _ \<Rightarrow> None)"

text \<open>The loop over \<open>last_used\<close>: \<open>front\<close> holds the identifiers already passed.\<close>

fun next_lru :: "DataId list \<Rightarrow> DataId list \<Rightarrow> 'x Scheduler \<Rightarrow> ('x EventItem \<times> 'x Scheduler) option" where
  "next_lru front [] s = None"
| "next_lru front (i # rest) s =
     (case pop_front i s of
        Some (event, s') \<Rightarrow> Some (event, s'\<lparr>last_used := front @ rest @ [i]\<rparr>)
      | None \<Rightarrow> next_lru (front @ [i]) rest s)"

definition next_event :: "'x Scheduler \<Rightarrow> ('x EventItem \<times> 'x Scheduler) option" where
  "next_event s =
     (case pop_front NON_INPUT_EVENT_ID s of
        Some r \<Rightarrow> Some r
      | None \<Rightarrow> next_lru [] (last_used s) s)"

definition sched_is_empty :: "'x Scheduler \<Rightarrow> bool" where
  "sched_is_empty s = list_all (\<lambda>(_, _, queue). queue = []) (event_queues s)"

section \<open>Views and the invariant\<close>

definition queue_of :: "'x Scheduler \<Rightarrow> DataId \<Rightarrow> 'x EventItem list" where
  "queue_of s i = (case map_of (event_queues s) i of Some (_, q) \<Rightarrow> q | None \<Rightarrow> [])"

definition has_queue :: "'x Scheduler \<Rightarrow> DataId \<Rightarrow> bool" where
  "has_queue s i \<longleftrightarrow> map_of (event_queues s) i \<noteq> None"

abbreviation event_id :: "'x EventItem \<Rightarrow> DataId" where
  "event_id e \<equiv> fst (event_target e)"

abbreviation wants_flush :: "'x EventItem \<Rightarrow> bool" where
  "wants_flush e \<equiv> snd (event_target e)"

abbreviation protected :: "'x EventItem \<Rightarrow> bool" where
  "protected e \<equiv> is_correlated e \<or> is_stop e"

definition sched_inv :: "'x Scheduler \<Rightarrow> bool" where
  "sched_inv s \<longleftrightarrow>
     distinct (map fst (event_queues s)) \<and> distinct (last_used s) \<and>
     (\<forall>i. i \<in> set (last_used s) \<longrightarrow> has_queue s i) \<and>
     (\<forall>i. has_queue s i \<longrightarrow> i \<noteq> NON_INPUT_EVENT_ID \<longrightarrow> i \<in> set (last_used s)) \<and>
     (\<forall>i. length (queue_of s i) \<le> effective_cap_for s i) \<and>
     (\<forall>i. \<forall>e\<in>set (queue_of s i). event_id e = i)"

lemma sched_invD:
  assumes "sched_inv s"
  shows "distinct (map fst (event_queues s))" "distinct (last_used s)"
    and "i \<in> set (last_used s) \<Longrightarrow> has_queue s i"
    and "has_queue s i \<Longrightarrow> i \<noteq> NON_INPUT_EVENT_ID \<Longrightarrow> i \<in> set (last_used s)"
    and "length (queue_of s i) \<le> effective_cap_for s i"
    and "e \<in> set (queue_of s i) \<Longrightarrow> event_id e = i"
  using assms by (auto simp: sched_inv_def)

subsection \<open>The effect of each step on the views\<close>

lemma set_queue_views [simp]:
  "queue_of (set_queue i sz q s) j = (if j = i then q else queue_of s j)"
  "has_queue (set_queue i sz q s) j \<longleftrightarrow> j = i \<or> has_queue s j"
  "last_used (set_queue i sz q s) = last_used s"
  "queue_policies (set_queue i sz q s) = queue_policies s"
  "dropped (set_queue i sz q s) = dropped s"
  by (auto simp: set_queue_def queue_of_def has_queue_def map_simps)

lemma record_drop_views [simp]:
  "queue_of (record_drop i s) j = queue_of s j"
  "has_queue (record_drop i s) j = has_queue s j"
  "last_used (record_drop i s) = last_used s"
  "queue_policies (record_drop i s) = queue_policies s"
  "event_queues (record_drop i s) = event_queues s"
  "drop_count (record_drop i s) j = drop_count s j + (if j = i then 1 else 0)"
  by (auto simp: record_drop_def queue_of_def has_queue_def drop_count_def map_simps)

lemma flush_queue_views [simp]:
  "queue_of (flush_queue i s) j = (if j = i then filter protected (queue_of s j) else queue_of s j)"
  "has_queue (flush_queue i s) j = has_queue s j"
  "last_used (flush_queue i s) = last_used s"
  "queue_policies (flush_queue i s) = queue_policies s"
  "dropped (flush_queue i s) = dropped s"
  by (auto simp: flush_queue_def queue_of_def has_queue_def map_simps split: option.splits prod.splits)

lemma ensure_queue_views [simp]:
  "queue_of (ensure_queue i s) j = queue_of s j"
  "has_queue (ensure_queue i s) j \<longleftrightarrow> j = i \<or> has_queue s j"
  "last_used (ensure_queue i s) = last_used s @ (if has_queue s i then [] else [i])"
  "queue_policies (ensure_queue i s) = queue_policies s"
  "dropped (ensure_queue i s) = dropped s"
  by (auto simp: ensure_queue_def queue_of_def has_queue_def map_simps)

lemma policy_for_cong: "queue_policies s = queue_policies t \<Longrightarrow> policy_for s i = policy_for t i"
  by (simp add: policy_for_def)

lemma drop_count_cong: "dropped s = dropped t \<Longrightarrow> drop_count s i = drop_count t i"
  by (simp add: drop_count_def)

lemma cap_flush_queue [simp]: "effective_cap_for (flush_queue i s) j = effective_cap_for s j"
  by (auto simp: effective_cap_for_def policy_for_cong [OF flush_queue_views(4)])
    (auto simp: flush_queue_def map_simps split: option.splits prod.splits)

lemma cap_ensure_queue [simp]: "effective_cap_for (ensure_queue i s) j = effective_cap_for s j"
  by (auto simp: effective_cap_for_def policy_for_cong [OF ensure_queue_views(4)])
    (auto simp: ensure_queue_def map_simps split: option.splits prod.splits)

lemma cap_record_drop [simp]: "effective_cap_for (record_drop i s) j = effective_cap_for s j"
  by (simp add: effective_cap_for_def policy_for_cong [OF record_drop_views(4)])

lemma cap_set_queue:
  "map_of (event_queues s) i = Some (sz, q) \<Longrightarrow>
   effective_cap_for (set_queue i sz q' s) j = effective_cap_for s j"
  by (simp add: effective_cap_for_def policy_for_cong [OF set_queue_views(4)])
    (simp add: set_queue_def map_simps)

lemma effective_cap_for_pos [simp]: "0 < effective_cap_for s i"
  by (simp add: effective_cap_for_def)

subsection \<open>Inserting into one bounded queue\<close>

definition push_bounded :: "nat \<Rightarrow> 'x EventItem list \<Rightarrow> 'x EventItem \<Rightarrow> 'x EventItem list" where
  "push_bounded cap q e =
     (if length q < cap then q @ [e]
      else (case select_eviction q e of
              RemoveAt idx \<Rightarrow> remove_nth idx q @ [e]
            | DropIncoming \<Rightarrow> q
            | DropCorrelatedLoud idx \<Rightarrow> remove_nth idx q @ [e]))"

lemma select_eviction_cases:
  obtains (ordinary) idx where "select_eviction q e = RemoveAt idx" "idx < length q"
      "\<not> protected (q ! idx)"
  | (incoming) "select_eviction q e = DropIncoming" "\<forall>x\<in>set q. protected x"
      "\<not> protected e \<or> (\<forall>x\<in>set q. is_stop x)"
  | (correlated) idx where "select_eviction q e = DropCorrelatedLoud idx" "idx < length q"
      "\<not> is_stop (q ! idx)" "protected e" "\<forall>x\<in>set q. protected x"
proof (cases "position (\<lambda>e. \<not> is_correlated e \<and> \<not> is_stop e) q")
  case (Some idx)
  then show thesis
    using position_SomeD [OF Some] ordinary [of idx] by (simp add: select_eviction_def)
next
  case None
  then have all: "\<forall>x\<in>set q. protected x" by (auto simp: position_None_iff)
  show thesis
  proof (cases "position (\<lambda>e. \<not> is_stop e) q")
    case (Some idx)
    then show thesis
      using None all position_SomeD [OF Some] incoming correlated [of idx]
      by (cases "protected e") (auto simp: select_eviction_def)
  next
    case none: None
    then have "\<forall>x\<in>set q. is_stop x" by (auto simp: position_None_iff)
    with None none all incoming show thesis by (auto simp: select_eviction_def)
  qed
qed

lemma remove_nth_subseq: "subseq (remove_nth i q) q"
proof (induction q arbitrary: i)
  case (Cons x xs)
  then show ?case
    by (cases i) (auto simp: remove_nth_def)
qed (simp add: remove_nth_def)

lemma push_bounded_subseq: "subseq (push_bounded cap q e) (q @ [e])"
  by (auto simp: push_bounded_def list_emb_append_mono remove_nth_subseq
      split: Eviction.splits)

lemma push_bounded_length:
  assumes "length q \<le> cap"
  shows "length (push_bounded cap q e) \<le> cap"
    and "length (push_bounded cap q e) + (if length q < cap then 0 else 1) = length q + 1"
  using assms
  by (cases rule: select_eviction_cases [where q = q and e = e]; auto simp: push_bounded_def length_remove_nth)+

lemma push_bounded_not_Nil: "0 < cap \<Longrightarrow> push_bounded cap q e \<noteq> []"
  by (auto simp: push_bounded_def split: Eviction.splits)

lemma push_bounded_keeps_protected:
  "\<not> protected e \<Longrightarrow> filter protected (push_bounded cap q e) = filter protected q"
  by (cases rule: select_eviction_cases [where q = q and e = e]) (auto simp: push_bounded_def filter_remove_nth)

lemma push_bounded_keeps_stops:
  "filter is_stop (push_bounded cap q e) =
     filter is_stop q @ (if is_stop e \<and> (length q < cap \<or> \<not> list_all is_stop q) then [e] else [])"
  by (cases rule: select_eviction_cases [where q = q and e = e])
    (auto simp: push_bounded_def filter_remove_nth list_all_iff)

lemma push_bounded_has_stop:
  "0 < cap \<Longrightarrow> is_stop e \<Longrightarrow> \<exists>x\<in>set (push_bounded cap q e). is_stop x"
  by (cases rule: select_eviction_cases [where q = q and e = e]; cases q)
    (auto simp: push_bounded_def)

lemma push_bounded_mem: "x \<in> set (push_bounded cap q e) \<Longrightarrow> x = e \<or> x \<in> set q"
  using set_remove_nth_subset [of _ q]
  by (fastforce simp: push_bounded_def split: Eviction.splits if_splits)

subsection \<open>The effect of \<open>add_event\<close>\<close>

definition flushed :: "'x EventItem \<Rightarrow> 'x Scheduler \<Rightarrow> 'x EventItem list" where
  "flushed e s =
     (let q = queue_of s (event_id e) in if wants_flush e then filter protected q else q)"

lemma enqueue_views:
  assumes "has_queue s i"
  shows "queue_of (enqueue i e s) j =
      (if j = i then push_bounded (effective_cap_for s i) (queue_of s i) e else queue_of s j)"
    and "has_queue (enqueue i e s) j = has_queue s j"
    and "last_used (enqueue i e s) = last_used s"
    and "drop_count (enqueue i e s) j = drop_count s j +
      (if j = i \<and> effective_cap_for s i \<le> length (queue_of s i) then 1 else 0)"
    and "effective_cap_for (enqueue i e s) j = effective_cap_for s j"
proof -
  obtain sz q where m: "map_of (event_queues s) i = Some (sz, q)"
    using assms by (auto simp: has_queue_def)
  then have q: "queue_of s i = q" and cap: "effective_cap_for s i = effective_cap (policy_for s i) sz"
    by (simp_all add: queue_of_def effective_cap_for_def)
  note unf = enqueue_def m q cap push_bounded_def Let_def
  show "queue_of (enqueue i e s) j =
      (if j = i then push_bounded (effective_cap_for s i) (queue_of s i) e else queue_of s j)"
    by (auto simp: unf split: Eviction.splits)
  show "has_queue (enqueue i e s) j = has_queue s j"
    using assms by (auto simp: unf split: Eviction.splits)
  show "last_used (enqueue i e s) = last_used s"
    by (auto simp: unf split: Eviction.splits)
  show "drop_count (enqueue i e s) j = drop_count s j +
      (if j = i \<and> effective_cap_for s i \<le> length (queue_of s i) then 1 else 0)"
    by (simp add: unf drop_count_cong [OF set_queue_views(5)] split: Eviction.split)
  show "effective_cap_for (enqueue i e s) j = effective_cap_for s j"
    using cap_set_queue [OF m, of _ j] cap_set_queue [of "record_drop i s" i sz q _ j]
    by (simp add: enqueue_def m Let_def split: Eviction.split)
qed

text \<open>The state between the flush and the insertion.\<close>

definition prepared :: "'x EventItem \<Rightarrow> 'x Scheduler \<Rightarrow> 'x Scheduler" where
  "prepared e s =
     ensure_queue (event_id e) (if wants_flush e then flush_queue (event_id e) s else s)"

lemma prepared_views:
  "queue_of (prepared e s) j = (if j = event_id e then flushed e s else queue_of s j)"
  "has_queue (prepared e s) j \<longleftrightarrow> j = event_id e \<or> has_queue s j"
  "last_used (prepared e s) = last_used s @ (if has_queue s (event_id e) then [] else [event_id e])"
  "effective_cap_for (prepared e s) j = effective_cap_for s j"
  "dropped (prepared e s) = dropped s"
  by (cases "wants_flush e"; simp add: prepared_def flushed_def)+

lemma add_event_prepared: "add_event e s = enqueue (event_id e) e (prepared e s)"
  by (simp add: add_event_def prepared_def split_beta)

lemma add_event_queue:
  "queue_of (add_event e s) j =
     (if j = event_id e
      then push_bounded (effective_cap_for s j) (flushed e s) e else queue_of s j)"
  by (simp add: add_event_prepared enqueue_views prepared_views)

lemma add_event_views [simp]:
  "has_queue (add_event e s) j \<longleftrightarrow> j = event_id e \<or> has_queue s j"
  "last_used (add_event e s) = last_used s @ (if has_queue s (event_id e) then [] else [event_id e])"
  "effective_cap_for (add_event e s) j = effective_cap_for s j"
  by (simp_all add: add_event_prepared enqueue_views prepared_views)

lemma add_event_drop_count:
  "drop_count (add_event e s) j = drop_count s j +
     (if j = event_id e \<and> effective_cap_for s j \<le> length (flushed e s) then 1 else 0)"
  using drop_count_cong [OF prepared_views(5), of e s j]
  by (simp add: add_event_prepared enqueue_views prepared_views)

lemma distinct_event_queues:
  assumes "distinct (map fst (event_queues s))"
  shows "distinct (map fst (event_queues (add_event e s)))"
    and "pop_front i s = Some (x, s') \<Longrightarrow> distinct (map fst (event_queues s'))"
  using assms
  by (auto simp: add_event_def enqueue_def ensure_queue_def flush_queue_def set_queue_def
      record_drop_def pop_front_def Let_def distinct_update
      split: prod.splits option.splits Eviction.splits list.splits)

lemma flushed_subset: "set (flushed e s) \<subseteq> set (queue_of s (event_id e))"
  by (auto simp: flushed_def Let_def)

lemma flushed_length: "length (flushed e s) \<le> length (queue_of s (event_id e))"
  by (simp add: flushed_def Let_def)

lemma add_event_inv:
  assumes "sched_inv s"
  shows "sched_inv (add_event e s)"
proof -
  note I = sched_invD [OF assms]
  have len: "length (flushed e s) \<le> effective_cap_for s (event_id e)"
    using flushed_length [of e s] I(5) [of "event_id e"] by simp
  have ids: "x \<in> set (push_bounded c (flushed e s) e) \<Longrightarrow> event_id x = event_id e" for x c
    using push_bounded_mem [of x c "flushed e s" e] flushed_subset [of e s] I(6) by blast
  have nl: "\<not> has_queue s (event_id e) \<Longrightarrow> event_id e \<notin> set (last_used s)"
    using I(3) by blast
  show ?thesis
    unfolding sched_inv_def
  proof (intro conjI allI impI ballI)
    show "distinct (map fst (event_queues (add_event e s)))"
      by (rule distinct_event_queues(1) [OF I(1)])
    show "distinct (last_used (add_event e s))"
      using I(2) nl by simp
  next
    fix i assume "i \<in> set (last_used (add_event e s))"
    then show "has_queue (add_event e s) i"
      using I(3) [of i] by (auto split: if_splits)
  next
    fix i assume "has_queue (add_event e s) i" "i \<noteq> NON_INPUT_EVENT_ID"
    then show "i \<in> set (last_used (add_event e s))"
      using I(4) [of i] by auto
  next
    fix i
    show "length (queue_of (add_event e s) i) \<le> effective_cap_for (add_event e s) i"
      using I(5) [of i] push_bounded_length(1) [OF len, of e] by (simp add: add_event_queue)
  next
    fix i x assume "x \<in> set (queue_of (add_event e s) i)"
    then show "event_id x = i"
      using I(6) [of x i] ids [of x] by (simp add: add_event_queue split: if_splits)
  qed
qed

subsection \<open>The effect of \<open>next\<close>\<close>

lemma pop_front_None_iff: "pop_front i s = None \<longleftrightarrow> queue_of s i = []"
  by (auto simp: pop_front_def queue_of_def split: option.splits prod.splits list.splits)

lemma pop_front_views:
  assumes "pop_front i s = Some (e, s')"
  shows "queue_of s i = e # queue_of s' i"
    and "j \<noteq> i \<Longrightarrow> queue_of s' j = queue_of s j"
    and "has_queue s' j = has_queue s j"
    and "last_used s' = last_used s"
    and "effective_cap_for s' j = effective_cap_for s j"
    and "dropped s' = dropped s"
proof -
  obtain sz q where m: "map_of (event_queues s) i = Some (sz, e # q)"
    and s': "s' = set_queue i sz q s"
    using assms by (auto simp: pop_front_def split: option.splits prod.splits list.splits)
  show "queue_of s i = e # queue_of s' i" "j \<noteq> i \<Longrightarrow> queue_of s' j = queue_of s j"
    "last_used s' = last_used s" "dropped s' = dropped s"
    by (simp_all add: s' queue_of_def [of s] m)
  show "has_queue s' j = has_queue s j"
    by (auto simp: s' has_queue_def [of s] m)
  show "effective_cap_for s' j = effective_cap_for s j"
    by (simp add: s' cap_set_queue [OF m])
qed

lemma next_lru_None_iff: "next_lru front ids s = None \<longleftrightarrow> (\<forall>i\<in>set ids. queue_of s i = [])"
proof (induction ids arbitrary: front)
  case (Cons i ids)
  then show ?case
    using pop_front_None_iff [of i s]
    by (cases "pop_front i s") (auto dest: pop_front_views(1))
qed simp

lemma next_lru_SomeD:
  assumes "next_lru front ids s = Some (e, s')"
  shows "\<exists>a i b t. ids = a @ i # b \<and> (\<forall>x\<in>set a. queue_of s x = []) \<and>
    pop_front i s = Some (e, t) \<and> s' = t\<lparr>last_used := front @ a @ b @ [i]\<rparr>"
  using assms
proof (induction ids arbitrary: front)
  case (Cons i ids)
  show ?case
  proof (cases "pop_front i s")
    case None
    with Cons.prems have "next_lru (front @ [i]) ids s = Some (e, s')" by simp
    from Cons.IH [OF this] obtain a k b t where
      "ids = a @ k # b" "\<forall>x\<in>set a. queue_of s x = []" "pop_front k s = Some (e, t)"
      "s' = t\<lparr>last_used := (front @ [i]) @ a @ b @ [k]\<rparr>" by blast
    with None show ?thesis
      by (intro exI [of _ "i # a"] exI [of _ k] exI [of _ b] exI [of _ t])
        (simp add: pop_front_None_iff)
  next
    case (Some r)
    with Cons.prems show ?thesis
      by (intro exI [of _ "[]"] exI [of _ i] exI [of _ ids] exI [of _ "snd r"])
        (auto split: prod.splits)
  qed
qed simp

lemma last_used_update_views [simp]:
  "queue_of (s\<lparr>last_used := l\<rparr>) j = queue_of s j"
  "has_queue (s\<lparr>last_used := l\<rparr>) j = has_queue s j"
  "effective_cap_for (s\<lparr>last_used := l\<rparr>) j = effective_cap_for s j"
  by (simp_all add: queue_of_def has_queue_def effective_cap_for_def policy_for_def)

text \<open>One call of \<open>next\<close>: the queue served, and what happens to the service order.\<close>

lemma next_event_cases:
  assumes "next_event s = Some (e, s')"
  obtains (control) "pop_front NON_INPUT_EVENT_ID s = Some (e, s')"
  | (input) a i b t where "queue_of s NON_INPUT_EVENT_ID = []" "last_used s = a @ i # b"
      "\<forall>x\<in>set a. queue_of s x = []" "pop_front i s = Some (e, t)"
      "s' = t\<lparr>last_used := a @ b @ [i]\<rparr>"
proof (cases "pop_front NON_INPUT_EVENT_ID s")
  case None
  with assms have "next_lru [] (last_used s) s = Some (e, s')"
    by (simp add: next_event_def)
  from next_lru_SomeD [OF this] None input show thesis
    by (auto simp: pop_front_None_iff)
next
  case (Some r)
  with assms control show thesis by (simp add: next_event_def)
qed

lemma next_event_serves:
  assumes "next_event s = Some (e, s')"
  shows "\<exists>i. queue_of s i = e # queue_of s' i \<and> (\<forall>j. j \<noteq> i \<longrightarrow> queue_of s' j = queue_of s j)"
    and "has_queue s' j = has_queue s j"
    and "set (last_used s') = set (last_used s)"
    and "distinct (last_used s) \<Longrightarrow> distinct (last_used s')"
    and "effective_cap_for s' j = effective_cap_for s j"
    and "drop_count s' j = drop_count s j"
    and "distinct (map fst (event_queues s)) \<Longrightarrow> distinct (map fst (event_queues s'))"
proof -
  from assms show "\<exists>i. queue_of s i = e # queue_of s' i \<and> (\<forall>j. j \<noteq> i \<longrightarrow> queue_of s' j = queue_of s j)"
    and "has_queue s' j = has_queue s j"
    and "set (last_used s') = set (last_used s)"
    and "distinct (last_used s) \<Longrightarrow> distinct (last_used s')"
    and "effective_cap_for s' j = effective_cap_for s j"
    and "drop_count s' j = drop_count s j"
    and "distinct (map fst (event_queues s)) \<Longrightarrow> distinct (map fst (event_queues s'))"
    by (cases rule: next_event_cases;
        force simp: drop_count_def dest: pop_front_views distinct_event_queues(2))+
qed

lemma next_event_inv:
  assumes "sched_inv s" "next_event s = Some (e, s')"
  shows "sched_inv s'"
proof -
  note I = sched_invD [OF assms(1)] and N = next_event_serves [OF assms(2)]
  obtain i where i: "queue_of s i = e # queue_of s' i" "\<And>j. j \<noteq> i \<Longrightarrow> queue_of s' j = queue_of s j"
    using N(1) by blast
  have sub: "set (queue_of s' j) \<subseteq> set (queue_of s j)"
    and len: "length (queue_of s' j) \<le> length (queue_of s j)" for j
    using i by (cases "j = i"; force)+
  show ?thesis
    unfolding sched_inv_def N(2,3,5)
    using I(1-4) N(4,7) sub I(6) le_trans [OF len I(5)] by blast
qed

lemma next_event_None_iff:
  assumes "sched_inv s"
  shows "next_event s = None \<longleftrightarrow> (\<forall>i. queue_of s i = [])"
proof -
  have "next_event s = None \<longleftrightarrow>
      queue_of s NON_INPUT_EVENT_ID = [] \<and> (\<forall>i\<in>set (last_used s). queue_of s i = [])"
    using pop_front_None_iff [of NON_INPUT_EVENT_ID s]
    by (cases "pop_front NON_INPUT_EVENT_ID s") (auto simp: next_event_def next_lru_None_iff)
  moreover have "queue_of s i = []" if "\<not> has_queue s i" for i
    using that by (cases "map_of (event_queues s) i") (auto simp: queue_of_def has_queue_def)
  ultimately show ?thesis
    using sched_invD(4) [OF assms] by metis
qed

lemma sched_is_empty_iff:
  "distinct (map fst (event_queues s)) \<Longrightarrow> sched_is_empty s \<longleftrightarrow> (\<forall>i. queue_of s i = [])"
  by (force simp: sched_is_empty_def queue_of_def list_all_iff map_of_eq_Some_iff
      split: option.splits prod.splits)

section \<open>Runs of the scheduler\<close>

datatype 'x sched_op = Add "'x EventItem" | Next

fun sched_run :: "'x sched_op list \<Rightarrow> 'x Scheduler \<Rightarrow> 'x EventItem list \<times> 'x Scheduler" where
  "sched_run [] s = ([], s)"
| "sched_run (Add e # ops) s = sched_run ops (add_event e s)"
| "sched_run (Next # ops) s =
     (case next_event s of
        None \<Rightarrow> sched_run ops s
      | Some (e, s') \<Rightarrow> (case sched_run ops s' of (es, t) \<Rightarrow> (e # es, t)))"

fun added :: "'x sched_op list \<Rightarrow> 'x EventItem list" where
  "added [] = []"
| "added (Add e # ops) = e # added ops"
| "added (Next # ops) = added ops"

fun nexts :: "'x sched_op list \<Rightarrow> nat" where
  "nexts [] = 0"
| "nexts (Add e # ops) = nexts ops"
| "nexts (Next # ops) = Suc (nexts ops)"

abbreviation for_id :: "DataId \<Rightarrow> 'x EventItem list \<Rightarrow> 'x EventItem list" where
  "for_id i \<equiv> filter (\<lambda>e. event_id e = i)"

lemma sched_run_inv: "sched_inv s \<Longrightarrow> sched_inv (snd (sched_run ops s))"
  by (induction ops s rule: sched_run.induct)
    (auto simp: add_event_inv split: option.splits prod.splits dest: next_event_inv)

text \<open>In a state that satisfies the invariant the queue served is that of the event's identifier.\<close>

lemma next_event_queues:
  assumes "sched_inv s" "next_event s = Some (e, s')"
  shows "queue_of s i = (if event_id e = i then e # queue_of s' i else queue_of s' i)"
proof -
  obtain k where k: "queue_of s k = e # queue_of s' k" "\<And>j. j \<noteq> k \<Longrightarrow> queue_of s' j = queue_of s j"
    using next_event_serves(1) [OF assms(2)] by blast
  then have "event_id e = k"
    using sched_invD(6) [OF assms(1), of e k] by simp
  with k show ?thesis by auto
qed

lemma add_event_subseq:
  "subseq (queue_of (add_event e s) i) (queue_of s i @ for_id i [e])"
proof (cases "event_id e = i")
  case True
  have "subseq (flushed e s) (queue_of s i)"
    using True by (auto simp: flushed_def Let_def)
  then have "subseq (flushed e s @ [e]) (queue_of s i @ [e])"
    by (simp add: list_emb_append_mono)
  with True show ?thesis
    using subseq_order.trans [OF push_bounded_subseq, of "flushed e s" e "queue_of s i @ [e]"]
    by (simp add: add_event_queue)
qed (simp add: add_event_queue)

lemma sched_run_fifo:
  assumes "sched_inv s"
  shows "subseq (for_id i (fst (sched_run ops s)) @ queue_of (snd (sched_run ops s)) i)
    (queue_of s i @ for_id i (added ops))"
  using assms
proof (induction ops s rule: sched_run.induct)
  case (2 e ops s)
  let ?r = "sched_run ops (add_event e s)"
  have "subseq (for_id i (fst ?r) @ queue_of (snd ?r) i)
      (queue_of (add_event e s) i @ for_id i (added ops))"
    using 2 add_event_inv by blast
  also have "subseq \<dots> ((queue_of s i @ for_id i [e]) @ for_id i (added ops))"
    by (rule list_emb_append_mono [OF add_event_subseq subseq_order.refl])
  finally show ?case by (simp split: if_splits)
next
  case (3 ops s)
  show ?case
  proof (cases "next_event s")
    case (Some r)
    obtain e s' where r: "r = (e, s')" by fastforce
    have "sched_inv s'" using 3 Some r by (blast intro: next_event_inv)
    with 3 Some r have "subseq (for_id i (fst (sched_run ops s')) @ queue_of (snd (sched_run ops s')) i)
      (queue_of s' i @ for_id i (added ops))" by blast
    then show ?thesis
      using next_event_queues [OF "3.prems", of e s' i] Some r
      by (cases "event_id e = i") (auto split: prod.splits)
  qed (use 3 in simp)
qed simp

lemma add_event_accounting:
  assumes "sched_inv s" "\<not> wants_flush e"
  shows "length (queue_of (add_event e s) i) + drop_count (add_event e s) i =
    length (queue_of s i) + drop_count s i + length (for_id i [e])"
proof (cases "event_id e = i")
  case True
  have f: "flushed e s = queue_of s i"
    using True assms(2) by (simp add: flushed_def)
  have "length (queue_of s i) \<le> effective_cap_for s i"
    using sched_invD(5) [OF assms(1)] .
  from push_bounded_length(2) [OF this, of e] True f show ?thesis
    by (auto simp: add_event_queue add_event_drop_count split: if_splits)
qed (simp add: add_event_queue add_event_drop_count)

lemma sched_run_accounting:
  assumes "sched_inv s" "\<forall>e\<in>set (added ops). \<not> wants_flush e"
  shows "length (for_id i (fst (sched_run ops s))) + length (queue_of (snd (sched_run ops s)) i) +
      drop_count (snd (sched_run ops s)) i =
    length (queue_of s i) + drop_count s i + length (for_id i (added ops))"
  using assms
proof (induction ops s rule: sched_run.induct)
  case (2 e ops s)
  then show ?case
    using add_event_accounting [of s e i] add_event_inv [of s e] by simp
next
  case (3 ops s)
  show ?case
  proof (cases "next_event s")
    case (Some r)
    obtain e s' where r: "r = (e, s')" by fastforce
    have "sched_inv s'" using 3 Some r by (blast intro: next_event_inv)
    with 3 Some r show ?thesis
      using next_event_queues [OF "3.prems"(1), of e s' i] next_event_serves(6) [of s e s' i]
      by (auto split: prod.splits)
  qed (use 3 in simp)
qed simp

subsection \<open>Fairness\<close>

lemma split_before:
  assumes "a @ i # b = a' @ k # b'" "i \<notin> set a'" "k \<noteq> i"
  obtains c where "a = a' @ k # c" "b' = c @ i # b"
  using assms by (auto simp: append_eq_append_conv2 append_eq_Cons_conv Cons_eq_append_conv)

lemma add_event_keeps_waiting:
  assumes "queue_of s i \<noteq> []"
  shows "queue_of (add_event e s) i \<noteq> []"
  using assms by (simp add: add_event_queue push_bounded_not_Nil)

lemma next_event_advances:
  assumes "sched_inv s" "last_used s = a @ i # b" "queue_of s i \<noteq> []"
    and "queue_of s NON_INPUT_EVENT_ID = []"
  obtains e s' where "next_event s = Some (e, s')" "event_id e = i"
  | e s' a' b' where "next_event s = Some (e, s')" "last_used s' = a' @ i # b'"
      "length a = Suc (length a')" "queue_of s' i \<noteq> []" "queue_of s' NON_INPUT_EVENT_ID = []"
proof -
  obtain e s' where n: "next_event s = Some (e, s')"
    using next_event_None_iff [OF assms(1)] assms(3) by (cases "next_event s") auto
  show thesis
  proof (cases "event_id e = i")
    case True
    with n that(1) show thesis by blast
  next
    case False
    note q = next_event_queues [OF assms(1) n]
    have qi: "queue_of s' i \<noteq> []" "queue_of s' NON_INPUT_EVENT_ID = []"
      using q [of i] q [of NON_INPUT_EVENT_ID] False assms(3,4) by (auto split: if_splits)
    from n show thesis
    proof (cases rule: next_event_cases)
      case control
      then show thesis using pop_front_views(1) assms(4) by fastforce
    next
      case (input a' k b' t)
      have "k \<noteq> i"
        using q [of i] pop_front_views(1) [OF input(4)] False
          sched_invD(6) [OF assms(1), of e k] by auto
      moreover have "i \<notin> set a'" using input(3) assms(3) by auto
      ultimately obtain c where c: "a = a' @ k # c" "b' = c @ i # b"
        using split_before [of a i b a' k b'] assms(2) input(2) by metis
      show thesis
        using that(2) [OF n, of "a' @ c" "b @ [k]"] c input(5) qi by simp
    qed
  qed
qed

lemma sched_run_fair:
  assumes "sched_inv s" "last_used s = a @ i # b" "queue_of s i \<noteq> []"
    and "queue_of s NON_INPUT_EVENT_ID = []"
    and "\<forall>e\<in>set (added ops). event_id e \<noteq> NON_INPUT_EVENT_ID" "length a < nexts ops"
  shows "\<exists>e\<in>set (fst (sched_run ops s)). event_id e = i"
  using assms
proof (induction ops s arbitrary: a b rule: sched_run.induct)
  case (2 e ops s)
  show ?case
    using "2.IH" [OF add_event_inv [OF "2.prems"(1), of e], of a] "2.prems"
      add_event_keeps_waiting [of s i e]
    by (auto simp: add_event_queue)
next
  case (3 ops s)
  from "3.prems"(1-4) show ?case
  proof (cases rule: next_event_advances)
    case (1 e s')
    then show ?thesis by (auto split: prod.splits)
  next
    case (2 e s' a' b')
    have "\<exists>x\<in>set (fst (sched_run ops s')). event_id x = i"
      using "3.IH"(2) [OF 2(1) refl next_event_inv [OF "3.prems"(1) 2(1)] 2(2,4,5)] "3.prems"(5,6) 2(3)
      by simp
    with 2(1) show ?thesis by (auto split: prod.splits)
  qed
qed simp

subsection \<open>A fresh scheduler\<close>

lemma with_policies_inv:
  assumes "distinct (map fst queues)" "\<forall>(i, sz, q)\<in>set queues. q = []"
  shows "sched_inv (with_policies queues policies)"
proof -
  have "queue_of (with_policies queues policies) i = []" for i
    using assms(2)
    by (auto simp: queue_of_def with_policies_def split: option.splits dest!: map_of_SomeD)
  moreover have "has_queue (with_policies queues policies) i \<longleftrightarrow> i \<in> fst ` set queues" for i
    by (simp add: has_queue_def with_policies_def map_of_eq_None_iff)
  ultimately show ?thesis
    using assms(1) by (auto simp: sched_inv_def with_policies_def)
qed

lemma sched_run_cap:
  "effective_cap_for (snd (sched_run ops s)) i = effective_cap_for s i"
  by (induction ops s rule: sched_run.induct)
    (auto split: option.splits prod.splits dest: next_event_serves(5))

section \<open>Properties\<close>

text \<open>A scheduler with two inputs, used to instantiate the properties.\<close>

definition plain_input :: "string \<Rightarrow> unit EventItem" where
  "plain_input i = NodeEv (InputEvent (DataId i) (metadata_new ()) None)"

definition two_inputs :: "unit Scheduler" where
  "two_inputs =
     with_policies [(NON_INPUT_EVENT_ID, NON_INPUT_EVENT_QUEUE_SIZE, []),
                    (DataId ''camera'', 2, []), (DataId ''lidar'', 1, [])] []"

definition both_waiting :: "unit Scheduler" where
  "both_waiting = add_event (plain_input ''lidar'') (add_event (plain_input ''camera'') two_inputs)"

lemma two_inputs_inv: "sched_inv two_inputs"
  unfolding two_inputs_def by (rule with_policies_inv) (simp_all add: NON_INPUT_EVENT_ID_def)

lemma both_waiting_inv: "sched_inv both_waiting"
  unfolding both_waiting_def by (intro add_event_inv two_inputs_inv)

lemma plain_input_target [simp]: "event_target (plain_input i) = (DataId i, False)"
  by (simp add: plain_input_def event_target_def flush_requested_def metadata_new_def
      from_parameters_def get_bool_param_def)

lemma plain_input_kind [simp]: "\<not> is_correlated (plain_input i)" "\<not> is_stop (plain_input i)"
  by (simp_all add: plain_input_def is_correlated_def event_parameters_def metadata_new_def
      from_parameters_def carries_pattern_correlation_def is_stop_def)

lemma two_inputs_views:
  "queue_of two_inputs i = []" "last_used two_inputs = [DataId ''camera'', DataId ''lidar'']"
  "has_queue two_inputs (DataId ''camera'')" "has_queue two_inputs (DataId ''lidar'')"
  by (simp_all add: two_inputs_def with_policies_def queue_of_def has_queue_def NON_INPUT_EVENT_ID_def)

lemma both_waiting_views:
  "queue_of both_waiting (DataId ''lidar'') = [plain_input ''lidar'']"
  "queue_of both_waiting NON_INPUT_EVENT_ID = []"
  "last_used both_waiting = [DataId ''camera'', DataId ''lidar'']"
  by (simp_all add: both_waiting_def add_event_queue two_inputs_views push_bounded_def flushed_def
      NON_INPUT_EVENT_ID_def)

text \<open>C2: no input starves. An input that waits at position \<open>k\<close> of the service order is served within
  \<open>k + 1\<close> calls of \<open>next\<close>, whatever other input events arrive in between, as long as no control
  event is pending or arrives.\<close>

theorem scheduler_fair:
  "sched_inv s \<Longrightarrow> last_used s = a @ i # b \<Longrightarrow> queue_of s i \<noteq> [] \<Longrightarrow>
   queue_of s NON_INPUT_EVENT_ID = [] \<Longrightarrow>
   (\<forall>e\<in>set (added ops). event_id e \<noteq> NON_INPUT_EVENT_ID) \<Longrightarrow> length a < nexts ops \<Longrightarrow>
   \<exists>e\<in>set (fst (sched_run ops s)). event_id e = i"
  by (rule sched_run_fair)

theorem scheduler_fair_witness:
  "\<exists>e\<in>set (fst (sched_run [Next, Add (plain_input ''camera''), Next] both_waiting)).
     event_id e = DataId ''lidar''"
proof -
  have "DataId ''camera'' \<noteq> NON_INPUT_EVENT_ID"
    by (simp add: NON_INPUT_EVENT_ID_def)
  then show ?thesis
    using scheduler_fair [OF both_waiting_inv, of "[DataId ''camera'']" "DataId ''lidar''" "[]"
        "[Next, Add (plain_input ''camera''), Next]"]
    by (simp add: both_waiting_views del: sched_run.simps)
qed

text \<open>C3: the stop signal is never lost to a full queue: inserting an event keeps every queued stop, in
  order, and after a stop is inserted one is queued.\<close>

theorem stop_never_evicted:
  "prefix (filter is_stop (queue_of s i)) (filter is_stop (queue_of (add_event e s) i)) \<and>
   (is_stop e \<longrightarrow> (\<exists>x\<in>set (queue_of (add_event e s) NON_INPUT_EVENT_ID). is_stop x))"
proof -
  have f: "filter is_stop (flushed e s) = filter is_stop (queue_of s (event_id e))"
    by (auto simp: flushed_def Let_def intro: filter_cong)
  have "event_id e = NON_INPUT_EVENT_ID" if "is_stop e"
    using that
    by (auto simp: is_stop_def event_target_def split: EventItem.splits NodeEvent.splits)
  then show ?thesis
    using push_bounded_has_stop [of "effective_cap_for s (event_id e)" e "flushed e s"]
    by (auto simp: add_event_queue push_bounded_keeps_stops f)
qed

theorem stop_never_evicted_witness:
  "\<exists>x\<in>set (queue_of (add_event (NodeEv Stop) two_inputs) NON_INPUT_EVENT_ID). is_stop x"
  using stop_never_evicted [of two_inputs "DataId ''camera''" "NodeEv Stop"]
  by (simp add: is_stop_def)

text \<open>C4: an ordinary event never costs a service or action message: inserting one, even with a flush
  request, keeps all correlated events and stops of every queue, in order.\<close>

theorem ordinary_event_keeps_correlations:
  "\<not> protected e \<Longrightarrow>
   filter protected (queue_of (add_event e s) i) = filter protected (queue_of s i)"
  by (auto simp: add_event_queue push_bounded_keeps_protected flushed_def Let_def)

theorem ordinary_event_keeps_correlations_witness:
  "filter protected (queue_of (add_event (plain_input ''camera'') both_waiting) (DataId ''lidar'')) =
   filter protected (queue_of both_waiting (DataId ''lidar''))"
  using ordinary_event_keeps_correlations [of "plain_input ''camera''" both_waiting] by simp

text \<open>C5: every queue stays within the effective capacity of its input, whatever is inserted and
  taken, and the structural invariant of the scheduler is kept.\<close>

theorem scheduler_bounded:
  "sched_inv s \<Longrightarrow>
   sched_inv (snd (sched_run ops s)) \<and>
   length (queue_of (snd (sched_run ops s)) i) \<le> effective_cap_for s i"
  using sched_invD(5) [OF sched_run_inv, of s ops i] sched_run_inv [of s ops]
  by (simp add: sched_run_cap)

theorem scheduler_bounded_witness:
  "length (queue_of (snd (sched_run (replicate 5 (Add (plain_input ''lidar''))) two_inputs))
     (DataId ''lidar'')) \<le> 1"
  using scheduler_bounded [OF two_inputs_inv, of "replicate 5 (Add (plain_input ''lidar''))" "DataId ''lidar''"]
  by (simp add: effective_cap_for_def policy_for_def two_inputs_def with_policies_def
      NON_INPUT_EVENT_ID_def effective_cap_def)

text \<open>C6: per input, events are delivered in arrival order and none twice: what was delivered followed
  by what is queued is a subsequence of what was queued followed by what arrived.\<close>

theorem scheduler_fifo:
  "sched_inv s \<Longrightarrow>
   subseq (for_id i (fst (sched_run ops s)) @ queue_of (snd (sched_run ops s)) i)
     (queue_of s i @ for_id i (added ops))"
  by (rule sched_run_fifo)

theorem scheduler_fifo_witness:
  "subseq
     (for_id (DataId ''camera'')
        (fst (sched_run [Add (plain_input ''camera''), Next, Add (NodeEv Stop), Next] two_inputs)) @
      queue_of (snd (sched_run [Add (plain_input ''camera''), Next, Add (NodeEv Stop), Next] two_inputs))
        (DataId ''camera''))
     (queue_of two_inputs (DataId ''camera'') @
      for_id (DataId ''camera'') (added [Add (plain_input ''camera''), Next, Add (NodeEv Stop), Next]))"
  by (rule scheduler_fifo [OF two_inputs_inv])

text \<open>C7: without flush requests every event is accounted for: per input, the events that were queued
  or arrived are the ones delivered, still queued, or counted as dropped.\<close>

theorem scheduler_accounts_for_every_event:
  "sched_inv s \<Longrightarrow> (\<forall>e\<in>set (added ops). \<not> wants_flush e) \<Longrightarrow>
   length (for_id i (fst (sched_run ops s))) + length (queue_of (snd (sched_run ops s)) i) +
     drop_count (snd (sched_run ops s)) i =
   length (queue_of s i) + drop_count s i + length (for_id i (added ops))"
  by (rule sched_run_accounting)

theorem scheduler_accounts_for_every_event_witness:
  "length (for_id (DataId ''lidar'') (fst (sched_run (replicate 3 (Add (plain_input ''lidar''))) two_inputs))) +
     length (queue_of (snd (sched_run (replicate 3 (Add (plain_input ''lidar''))) two_inputs)) (DataId ''lidar'')) +
     drop_count (snd (sched_run (replicate 3 (Add (plain_input ''lidar''))) two_inputs)) (DataId ''lidar'') = 3"
  using scheduler_accounts_for_every_event
    [OF two_inputs_inv, of "replicate 3 (Add (plain_input ''lidar''))" "DataId ''lidar''"]
  by (simp add: numeral_3_eq_3 two_inputs_views drop_count_def)
    (simp add: two_inputs_def with_policies_def)

text \<open>control events come first, and the scheduler returns nothing exactly when it holds nothing.\<close>

theorem next_priority_and_emptiness:
  "sched_inv s \<Longrightarrow>
   (queue_of s NON_INPUT_EVENT_ID = e # q \<longrightarrow>
      (\<exists>s'. next_event s = Some (e, s') \<and> queue_of s' NON_INPUT_EVENT_ID = q)) \<and>
   (next_event s = None \<longleftrightarrow> sched_is_empty s)"
proof -
  assume inv: "sched_inv s"
  have "\<exists>s'. next_event s = Some (e, s') \<and> queue_of s' NON_INPUT_EVENT_ID = q"
    if h: "queue_of s NON_INPUT_EVENT_ID = e # q"
  proof -
    obtain x s' where p: "pop_front NON_INPUT_EVENT_ID s = Some (x, s')"
      using h pop_front_None_iff [of NON_INPUT_EVENT_ID s]
      by (cases "pop_front NON_INPUT_EVENT_ID s") auto
    with pop_front_views(1) [OF p] h show ?thesis
      by (simp add: next_event_def)
  qed
  then show ?thesis
    using next_event_None_iff [OF inv] sched_is_empty_iff [OF sched_invD(1) [OF inv]] by auto
qed

end
