(* ===== verification/Recording_Format.thy ===== *)
theory Recording_Format
  imports Dora_Prelude "HOL-Library.Sublist"
begin

text \<open>
  The \<open>.drec\<close> recording format, \<open>libraries/recording/src/lib.rs\<close>: the writer over an in-memory
  sink (its state is the bytes written so far and the two totals), the reader over an in-memory
  source (its state is the bytes not yet read), and the parser of a record body. An \<open>eyre\<close> error
  and an out-of-bounds slice are values of \<open>rec_error\<close>. Strings are their UTF-8 bytes;
  \<open>str::from_utf8\<close> is \<open>utf8_valid\<close>. A UUID is its 16 bytes. I/O errors other than the end of the
  source do not occur, and the totals do not wrap.
\<close>

datatype rec_error =
    BadMagic
  | UnexpectedEof
  | VersionTooNew nat
  | VersionTooOld nat
  | YamlTooLarge nat
  | RecordTooLarge nat
  | RecordLenOverflow nat
  | NodeIdTooLong nat
  | OutputIdTooLong nat
  | BufferTooShort nat
  | LengthOverflow nat
  | InvalidNodeUtf8
  | InvalidOutputUtf8
  | SlicePanic

section \<open>Constants and records\<close>

definition bytes_of :: "string \<Rightarrow> byte list" where
  "bytes_of s = map (\<lambda>c. of_nat (code_of c)) s"

definition MAGIC :: "byte list" where
  "MAGIC = bytes_of ''DORAREC'' @ [0]"

definition FOOTER_MAGIC :: "byte list" where
  "FOOTER_MAGIC = bytes_of ''DORAEND'' @ [0]"

definition FORMAT_VERSION :: nat where "FORMAT_VERSION = 2"
definition MIN_SUPPORTED_FORMAT_VERSION :: nat where "MIN_SUPPORTED_FORMAT_VERSION = 2"
definition MAX_RECORD_BYTES :: nat where "MAX_RECORD_BYTES = 64 * 1024 * 1024"

record RecordingHeader =
  version :: nat
  start_nanos :: nat
  dataflow_id :: "byte list"
  descriptor_yaml :: "byte list"

record RecordEntry =
  node_id :: "byte list"
  output_id :: "byte list"
  timestamp_offset_nanos :: nat
  event_bytes :: "byte list"

record RecordEntryHeader =
  eh_node_id :: "byte list"
  eh_output_id :: "byte list"
  eh_timestamp_offset_nanos :: nat

record RecordingFooter =
  total_messages :: nat
  total_bytes :: nat

definition encoded_len :: "RecordEntry \<Rightarrow> nat" where
  "encoded_len e =
     2 + length (node_id e) + 2 + length (output_id e) + 8 + 4 + length (event_bytes e)"

section \<open>UTF-8\<close>

definition is_cont :: "byte \<Rightarrow> bool" where
  "is_cont b \<longleftrightarrow> 0x80 \<le> unat b \<and> unat b \<le> 0xBF"

fun utf8_valid :: "byte list \<Rightarrow> bool" where
  "utf8_valid [] = True"
| "utf8_valid (a # r) =
     (let n = unat a in
      if n < 0x80 then utf8_valid r
      else if 0xC2 \<le> n \<and> n \<le> 0xDF then
        (case r of b # r' \<Rightarrow> is_cont b \<and> utf8_valid r' | _ \<Rightarrow> False)
      else if 0xE0 \<le> n \<and> n \<le> 0xEF then
        (case r of
           b # c # r' \<Rightarrow>
             is_cont b \<and> is_cont c \<and> (n = 0xE0 \<longrightarrow> 0xA0 \<le> unat b) \<and> (n = 0xED \<longrightarrow> unat b \<le> 0x9F) \<and>
             utf8_valid r'
         | _ \<Rightarrow> False)
      else if 0xF0 \<le> n \<and> n \<le> 0xF4 then
        (case r of
           b # c # d # r' \<Rightarrow>
             is_cont b \<and> is_cont c \<and> is_cont d \<and> (n = 0xF0 \<longrightarrow> 0x90 \<le> unat b) \<and>
             (n = 0xF4 \<longrightarrow> unat b \<le> 0x8F) \<and> utf8_valid r'
         | _ \<Rightarrow> False)
      else False)"

section \<open>Writing\<close>

record RecordingWriter =
  out :: "byte list"
  w_messages :: nat
  w_bytes :: nat

definition write_header :: "RecordingHeader \<Rightarrow> rec_error + byte list" where
  "write_header h =
     (if MAX_RECORD_BYTES < length (descriptor_yaml h)
      then Inl (YamlTooLarge (length (descriptor_yaml h)))
      else Inr (MAGIC @ to_le 2 (version h) @ to_le 8 (start_nanos h) @ dataflow_id h @
                to_le 4 (length (descriptor_yaml h)) @ descriptor_yaml h))"

definition writer_new :: "RecordingHeader \<Rightarrow> rec_error + RecordingWriter" where
  "writer_new h =
     (case write_header h of
        Inl e \<Rightarrow> Inl e
      | Inr bs \<Rightarrow> Inr \<lparr> out = bs, w_messages = 0, w_bytes = 0 \<rparr>)"

text \<open>The bytes of one record: length prefix, then the body.\<close>

definition record_body :: "RecordEntry \<Rightarrow> byte list" where
  "record_body e =
     to_le 2 (length (node_id e)) @ node_id e @ to_le 2 (length (output_id e)) @ output_id e @
     to_le 8 (timestamp_offset_nanos e) @ to_le 4 (length (event_bytes e)) @ event_bytes e"

definition write_entry :: "RecordEntry \<Rightarrow> RecordingWriter \<Rightarrow> rec_error + RecordingWriter" where
  "write_entry e w =
     (if MAX_RECORD_BYTES < encoded_len e then Inl (RecordTooLarge (encoded_len e))
      else if 2 ^ 32 \<le> encoded_len e then Inl (RecordLenOverflow (encoded_len e))
      else if 2 ^ 16 \<le> length (node_id e) then Inl (NodeIdTooLong (length (node_id e)))
      else if 2 ^ 16 \<le> length (output_id e) then Inl (OutputIdTooLong (length (output_id e)))
      else Inr (w\<lparr> out := out w @ to_le 4 (encoded_len e) @ record_body e,
                   w_messages := w_messages w + 1,
                   w_bytes := w_bytes w + (encoded_len e + 4) \<rparr>))"

definition write_entry_skip_oversized ::
  "RecordEntry \<Rightarrow> RecordingWriter \<Rightarrow> rec_error + (nat option \<times> RecordingWriter)" where
  "write_entry_skip_oversized e w =
     (if MAX_RECORD_BYTES < encoded_len e then Inr (Some (encoded_len e), w)
      else (case write_entry e w of Inl err \<Rightarrow> Inl err | Inr w' \<Rightarrow> Inr (None, w')))"

definition finish :: "RecordingWriter \<Rightarrow> RecordingFooter \<times> byte list" where
  "finish w =
     (\<lparr> total_messages = w_messages w, total_bytes = w_bytes w \<rparr>,
      out w @ FOOTER_MAGIC @ to_le 8 (w_messages w) @ to_le 8 (w_bytes w))"

section \<open>Reading\<close>

text \<open>Slicing \<open>buf[a..b]\<close>; out of range it panics.\<close>

definition slice :: "byte list \<Rightarrow> nat \<Rightarrow> nat \<Rightarrow> rec_error + byte list" where
  "slice buf a b =
     (if a \<le> b \<and> b \<le> length buf then Inr (take (b - a) (drop a buf)) else Inl SlicePanic)"

definition read_array :: "nat \<Rightarrow> byte list \<Rightarrow> nat \<Rightarrow> rec_error + (byte list \<times> nat)" where
  "read_array n buf pos =
     (if length buf < pos + n then Inl (BufferTooShort pos)
      else (case slice buf pos (pos + n) of Inl e \<Rightarrow> Inl e | Inr arr \<Rightarrow> Inr (arr, pos + n)))"

definition read_slice :: "byte list \<Rightarrow> nat \<Rightarrow> nat \<Rightarrow> rec_error + (byte list \<times> nat)" where
  "read_slice buf pos len =
     (if usize_max < pos + len then Inl (LengthOverflow len)
      else
        let e = pos + len in
        if length buf < e then Inl (BufferTooShort pos)
        else (case slice buf pos e of Inl err \<Rightarrow> Inl err | Inr s \<Rightarrow> Inr (s, e)))"

definition bind_res :: "'e + 'a \<Rightarrow> ('a \<Rightarrow> 'e + 'b) \<Rightarrow> 'e + 'b" where
  "bind_res r f = (case r of Inl e \<Rightarrow> Inl e | Inr a \<Rightarrow> f a)"

definition parse_record :: "byte list \<Rightarrow> rec_error + RecordEntry" where
  "parse_record buf =
     bind_res (read_array 2 buf 0) (\<lambda>(nl, pos).
     bind_res (read_slice buf pos (from_le nl)) (\<lambda>(nid, pos).
     if \<not> utf8_valid nid then Inl InvalidNodeUtf8 else
     bind_res (read_array 2 buf pos) (\<lambda>(ol, pos).
     bind_res (read_slice buf pos (from_le ol)) (\<lambda>(oid, pos).
     if \<not> utf8_valid oid then Inl InvalidOutputUtf8 else
     bind_res (read_array 8 buf pos) (\<lambda>(ts, pos).
     bind_res (read_array 4 buf pos) (\<lambda>(el, pos).
     bind_res (read_slice buf pos (from_le el)) (\<lambda>(ev, pos).
       Inr \<lparr> node_id = nid, output_id = oid, timestamp_offset_nanos = from_le ts,
             event_bytes = ev \<rparr>)))))))"

definition read_next_record :: "byte list \<Rightarrow> rec_error + (byte list option \<times> byte list)" where
  "read_next_record src =
     (case read_exact 4 src of
        None \<Rightarrow> Inr (None, [])
      | Some (len_buf, src) \<Rightarrow>
          if len_buf = take 4 FOOTER_MAGIC then Inr (None, src)
          else if MAX_RECORD_BYTES < from_le len_buf then Inl (RecordTooLarge (from_le len_buf))
          else (case read_exact (from_le len_buf) src of
                  None \<Rightarrow> Inr (None, [])
                | Some (record_buf, src) \<Rightarrow> Inr (Some record_buf, src)))"

definition next_entry :: "byte list \<Rightarrow> rec_error + (RecordEntry option \<times> byte list)" where
  "next_entry src =
     bind_res (read_next_record src) (\<lambda>(r, src).
       case r of
         None \<Rightarrow> Inr (None, src)
       | Some record_buf \<Rightarrow> bind_res (parse_record record_buf) (\<lambda>e. Inr (Some e, src)))"

definition next_entry_header :: "byte list \<Rightarrow> rec_error + (RecordEntryHeader option \<times> byte list)" where
  "next_entry_header src =
     bind_res (read_next_record src) (\<lambda>(r, src).
       case r of
         None \<Rightarrow> Inr (None, src)
       | Some record_buf \<Rightarrow>
           bind_res (parse_record record_buf) (\<lambda>e.
             Inr (Some \<lparr> eh_node_id = node_id e, eh_output_id = output_id e,
                         eh_timestamp_offset_nanos = timestamp_offset_nanos e \<rparr>, src)))"

lemma read_next_record_consumes:
  "read_next_record src = Inr (Some r, src') \<Longrightarrow> length src = 4 + length r + length src'"
  by (auto simp: read_next_record_def read_exact_def split: if_splits)

function next_entry_for_node ::
  "byte list \<Rightarrow> byte list \<Rightarrow> rec_error + (RecordEntry option \<times> byte list)" where
  "next_entry_for_node n src =
     (case read_next_record src of
        Inl e \<Rightarrow> Inl e
      | Inr (None, src') \<Rightarrow> Inr (None, src')
      | Inr (Some record_buf, src') \<Rightarrow>
          (case parse_record record_buf of
             Inl e \<Rightarrow> Inl e
           | Inr e \<Rightarrow> if node_id e \<noteq> n then next_entry_for_node n src' else Inr (Some e, src')))"
  by pat_completeness auto
termination
  by (relation "measure (\<lambda>(_, src). length src)") (auto dest: read_next_record_consumes)

declare next_entry_for_node.simps [simp del]

definition read_header :: "byte list \<Rightarrow> rec_error + (RecordingHeader \<times> byte list)" where
  "read_header src =
     (case read_exact 8 src of
        None \<Rightarrow> Inl UnexpectedEof
      | Some (magic, src) \<Rightarrow>
          if magic \<noteq> MAGIC then Inl BadMagic
          else (case read_exact 2 src of
            None \<Rightarrow> Inl UnexpectedEof
          | Some (vb, src) \<Rightarrow>
              if FORMAT_VERSION < from_le vb then Inl (VersionTooNew (from_le vb))
              else if from_le vb < MIN_SUPPORTED_FORMAT_VERSION
                then Inl (VersionTooOld (from_le vb))
              else (case read_exact 8 src of
                None \<Rightarrow> Inl UnexpectedEof
              | Some (nb, src) \<Rightarrow>
                  (case read_exact 16 src of
                     None \<Rightarrow> Inl UnexpectedEof
                   | Some (ub, src) \<Rightarrow>
                       (case read_exact 4 src of
                          None \<Rightarrow> Inl UnexpectedEof
                        | Some (yb, src) \<Rightarrow>
                            if MAX_RECORD_BYTES < from_le yb then Inl (YamlTooLarge (from_le yb))
                            else (case read_exact (from_le yb) src of
                                    None \<Rightarrow> Inl UnexpectedEof
                                  | Some (yaml, src) \<Rightarrow>
                                      Inr (\<lparr> version = from_le vb, start_nanos = from_le nb,
                                             dataflow_id = ub, descriptor_yaml = yaml \<rparr>, src)))))))"

section \<open>Reading a whole recording\<close>

lemma next_entry_consumes:
  "next_entry src = Inr (Some e, src') \<Longrightarrow> length src' < length src"
  by (auto simp: next_entry_def bind_res_def split: sum.splits option.splits
      dest!: read_next_record_consumes)

function read_all :: "byte list \<Rightarrow> rec_error + RecordEntry list" where
  "read_all src =
     (case next_entry src of
        Inl e \<Rightarrow> Inl e
      | Inr (None, _) \<Rightarrow> Inr []
      | Inr (Some e, src') \<Rightarrow> map_sum id (Cons e) (read_all src'))"
  by pat_completeness auto
termination
  by (relation "measure length") (auto dest: next_entry_consumes)

lemma next_entry_for_node_consumes:
  "next_entry_for_node n src = Inr (Some e, src') \<Longrightarrow> length src' < length src"
proof (induction n src rule: next_entry_for_node.induct)
  case (1 n src)
  obtain rb s1 where rd: "read_next_record src = Inr (Some rb, s1)"
    using "1.prems" by (subst (asm) next_entry_for_node.simps)
      (auto split: sum.splits option.splits)
  then have len: "length s1 < length src"
    by (simp add: read_next_record_consumes)
  obtain e' where e': "parse_record rb = Inr e'"
    using "1.prems" rd by (subst (asm) next_entry_for_node.simps) (auto split: sum.splits)
  show ?case
  proof (cases "node_id e' = n")
    case True
    with "1.prems" rd e' len show ?thesis
      by (subst (asm) next_entry_for_node.simps) simp
  next
    case False
    then have "next_entry_for_node n s1 = Inr (Some e, src')"
      using "1.prems" rd e' by (subst (asm) next_entry_for_node.simps) simp
    from "1.IH" [OF rd refl refl e' False this] len show ?thesis by simp
  qed
qed

function read_all_for_node :: "byte list \<Rightarrow> byte list \<Rightarrow> rec_error + RecordEntry list" where
  "read_all_for_node n src =
     (case next_entry_for_node n src of
        Inl e \<Rightarrow> Inl e
      | Inr (None, _) \<Rightarrow> Inr []
      | Inr (Some e, src') \<Rightarrow> map_sum id (Cons e) (read_all_for_node n src'))"
  by pat_completeness auto
termination
  by (relation "measure (\<lambda>(_, src). length src)") (auto dest: next_entry_for_node_consumes)

declare read_all.simps [simp del] read_all_for_node.simps [simp del]

definition read_recording :: "byte list \<Rightarrow> rec_error + (RecordingHeader \<times> RecordEntry list)" where
  "read_recording bs =
     bind_res (read_header bs) (\<lambda>(h, src). map_sum id (Pair h) (read_all src))"

fun write_entries :: "RecordEntry list \<Rightarrow> RecordingWriter \<Rightarrow> rec_error + RecordingWriter" where
  "write_entries [] w = Inr w"
| "write_entries (e # es) w = bind_res (write_entry e w) (write_entries es)"

definition write_recording ::
  "RecordingHeader \<Rightarrow> RecordEntry list \<Rightarrow> rec_error + (RecordingFooter \<times> byte list)" where
  "write_recording h es =
     bind_res (writer_new h) (\<lambda>w. bind_res (write_entries es w) (\<lambda>w. Inr (finish w)))"

section \<open>The body of a record\<close>

text \<open>What the Rust types of an entry guarantee, and what the writer accepts.\<close>

definition entry_typed :: "RecordEntry \<Rightarrow> bool" where
  "entry_typed e \<longleftrightarrow>
     utf8_valid (node_id e) \<and> utf8_valid (output_id e) \<and> timestamp_offset_nanos e < 2 ^ 64"

definition entry_fits :: "RecordEntry \<Rightarrow> bool" where
  "entry_fits e \<longleftrightarrow>
     encoded_len e \<le> MAX_RECORD_BYTES \<and> length (node_id e) < 2 ^ 16 \<and> length (output_id e) < 2 ^ 16"

lemma length_record_body [simp]: "length (record_body e) = encoded_len e"
  by (simp add: record_body_def encoded_len_def)

lemma read_array_ok_iff:
  "read_array n buf pos = Inr (b, p) \<longleftrightarrow>
     p = pos + n \<and> p \<le> length buf \<and> length b = n \<and> drop pos buf = b @ drop p buf"
proof (cases "pos + n \<le> length buf")
  case True
  have d: "drop pos buf = take n (drop pos buf) @ drop (pos + n) buf"
    by (metis append_take_drop_id drop_drop add.commute)
  have "read_array n buf pos = Inr (take n (drop pos buf), pos + n)"
    using True by (simp add: read_array_def slice_def)
  then show ?thesis
    using True d by (auto simp: append_eq_append_conv)
qed (auto simp: read_array_def)

lemma read_slice_ok_iff:
  assumes "length buf \<le> usize_max"
  shows "read_slice buf pos n = Inr (b, p) \<longleftrightarrow>
     p = pos + n \<and> p \<le> length buf \<and> length b = n \<and> drop pos buf = b @ drop p buf"
proof (cases "pos + n \<le> length buf")
  case True
  then have "read_slice buf pos n = read_array n buf pos"
    using assms by (auto simp: read_slice_def read_array_def Let_def)
  then show ?thesis by (simp add: read_array_ok_iff)
next
  case False
  then show ?thesis by (auto simp: read_slice_def Let_def split: if_splits)
qed

lemma bind_res_Inr_iff: "bind_res r f = Inr b \<longleftrightarrow> (\<exists>a. r = Inr a \<and> f a = Inr b)"
  by (auto simp: bind_res_def split: sum.splits)

lemma to_le_from_le_len: "length bs = k \<Longrightarrow> to_le k (from_le bs) = bs"
  using to_le_from_le [of bs] by simp

lemma from_le_bound_len: "length bs = k \<Longrightarrow> from_le bs < 256 ^ k"
  using from_le_bound [of bs] by simp

definition entry_encodable :: "RecordEntry \<Rightarrow> bool" where
  "entry_encodable e \<longleftrightarrow>
     entry_typed e \<and> length (node_id e) < 2 ^ 16 \<and> length (output_id e) < 2 ^ 16 \<and>
     length (event_bytes e) < 2 ^ 32"

lemma parse_record_sound:
  assumes "length buf \<le> usize_max" "parse_record buf = Inr e"
  shows "entry_encodable e \<and> (\<exists>rest. buf = record_body e @ rest)"
proof -
  note ok = read_array_ok_iff read_slice_ok_iff [OF assms(1)]
  from assms(2) obtain nl nid ol oid ts el ev rest where
    e: "e = \<lparr> node_id = nid, output_id = oid, timestamp_offset_nanos = from_le ts, event_bytes = ev \<rparr>"
    and l: "length nl = 2" "length nid = from_le nl" "length ol = 2" "length oid = from_le ol"
      "length ts = 8" "length el = 4" "length ev = from_le el"
    and u: "utf8_valid nid" "utf8_valid oid"
    and b: "buf = nl @ nid @ ol @ oid @ ts @ el @ ev @ rest"
    unfolding parse_record_def bind_res_Inr_iff
    by (simp only: split_paired_Ex prod.case bind_res_Inr_iff ok if_split_mem2 split: if_splits)
      auto
  have "buf = record_body e @ rest"
    using b l by (simp add: e record_body_def to_le_from_le_len)
  moreover have "entry_encodable e"
    using l u from_le_bound_len [OF l(1)] from_le_bound_len [OF l(3)] from_le_bound_len [OF l(5)]
      from_le_bound_len [OF l(6)]
    by (simp add: e entry_encodable_def entry_typed_def)
  ultimately show ?thesis by blast
qed

lemma parse_record_complete:
  assumes "length (record_body e @ rest) \<le> usize_max" "entry_encodable e"
  shows "parse_record (record_body e @ rest) = Inr e"
proof -
  let ?b = "record_body e @ rest"
  let ?n = "length (node_id e)" and ?o = "length (output_id e)" and ?v = "length (event_bytes e)"
  note A = read_array_ok_iff [THEN iffD2] and S = read_slice_ok_iff [OF assms(1), THEN iffD2]
  have u: "utf8_valid (node_id e)" "utf8_valid (output_id e)"
    and b: "?n < 256 ^ 2" "?o < 256 ^ 2" "timestamp_offset_nanos e < 256 ^ 8" "?v < 256 ^ 4"
    using assms(2) by (simp_all add: entry_encodable_def entry_typed_def)
  have 1: "read_array 2 ?b 0 = Inr (to_le 2 ?n, 2)"
    by (rule A) (simp add: record_body_def)
  have 2: "read_slice ?b 2 ?n = Inr (node_id e, 2 + ?n)"
    by (rule S) (simp add: record_body_def)
  have 3: "read_array 2 ?b (2 + ?n) = Inr (to_le 2 ?o, 4 + ?n)"
    by (rule A) (simp add: record_body_def)
  have 4: "read_slice ?b (4 + ?n) ?o = Inr (output_id e, 4 + ?n + ?o)"
    by (rule S) (simp add: record_body_def)
  have 5: "read_array 8 ?b (4 + ?n + ?o) = Inr (to_le 8 (timestamp_offset_nanos e), 12 + ?n + ?o)"
    by (rule A) (simp add: record_body_def)
  have 6: "read_array 4 ?b (12 + ?n + ?o) = Inr (to_le 4 ?v, 16 + ?n + ?o)"
    by (rule A) (simp add: record_body_def)
  have 7: "read_slice ?b (16 + ?n + ?o) ?v = Inr (event_bytes e, 16 + ?n + ?o + ?v)"
    by (rule S) (simp add: record_body_def)
  show ?thesis
    unfolding parse_record_def
    by (simp only: 1 bind_res_def sum.case prod.case from_le_to_le [OF b(1)] 2 u not_True_eq_False
        if_False 3 from_le_to_le [OF b(2)] 4 5 6 from_le_to_le [OF b(3)] from_le_to_le [OF b(4)] 7)
      simp
qed

section \<open>The stream of records\<close>

definition record_bytes :: "RecordEntry \<Rightarrow> byte list" where
  "record_bytes e = to_le 4 (encoded_len e) @ record_body e"

definition footer_bytes :: "nat \<Rightarrow> nat \<Rightarrow> byte list" where
  "footer_bytes m b = FOOTER_MAGIC @ to_le 8 m @ to_le 8 b"

lemma entry_fits_encodable: "entry_typed e \<Longrightarrow> entry_fits e \<Longrightarrow> entry_encodable e"
  by (auto simp: entry_fits_def entry_encodable_def encoded_len_def MAX_RECORD_BYTES_def)

lemma footer_prefix: "take 4 FOOTER_MAGIC = bytes_of ''DORA''"
  by (simp add: FOOTER_MAGIC_def bytes_of_def)

lemma footer_prefix_value: "from_le (bytes_of ''DORA'') = 0x41524F44"
  by (simp add: bytes_of_def code_of_def)

lemma length_prefix:
  assumes "entry_fits e"
  shows "from_le (to_le 4 (encoded_len e)) = encoded_len e"
    and "to_le 4 (encoded_len e) \<noteq> take 4 FOOTER_MAGIC"
proof -
  show *: "from_le (to_le 4 (encoded_len e)) = encoded_len e"
    using assms by (intro from_le_to_le) (simp add: entry_fits_def MAX_RECORD_BYTES_def)
  show "to_le 4 (encoded_len e) \<noteq> take 4 FOOTER_MAGIC"
    using * assms footer_prefix_value
    by (auto simp: footer_prefix entry_fits_def MAX_RECORD_BYTES_def)
qed

lemma next_entry_record:
  assumes "entry_typed e" "entry_fits e"
  shows "next_entry (record_bytes e @ rest) = Inr (Some e, rest)"
proof -
  have "read_next_record (record_bytes e @ rest) = Inr (Some (record_body e), rest)"
    using length_prefix [OF assms(2)] assms(2)
    by (simp add: read_next_record_def read_exact_def record_bytes_def entry_fits_def)
  moreover have "parse_record (record_body e) = Inr e"
    using parse_record_complete [of e "[]"] entry_fits_encodable [OF assms] assms(2)
    by (simp add: entry_fits_def MAX_RECORD_BYTES_def usize_max_def u64_max_def)
  ultimately show ?thesis
    by (simp add: next_entry_def bind_res_def)
qed

lemma next_entry_torn:
  assumes "entry_fits e" "n < length (record_bytes e)"
  shows "next_entry (take n (record_bytes e)) = Inr (None, [])"
proof (cases "n < 4")
  case True
  then show ?thesis
    by (simp add: next_entry_def read_next_record_def read_exact_def bind_res_def)
next
  case False
  then have "take n (record_bytes e) = to_le 4 (encoded_len e) @ take (n - 4) (record_body e)"
    by (simp add: record_bytes_def)
  moreover have "\<not> encoded_len e \<le> n - 4"
    using False assms(2) by (simp add: record_bytes_def)
  ultimately show ?thesis
    using False assms length_prefix [OF assms(1)]
    by (simp add: next_entry_def read_next_record_def read_exact_def bind_res_def entry_fits_def
        record_bytes_def)
qed

lemma next_entry_footer: "\<exists>r. next_entry (take n (footer_bytes m b)) = Inr (None, r)"
proof (cases "n < 4")
  case True
  then show ?thesis
    by (simp add: next_entry_def read_next_record_def read_exact_def bind_res_def)
next
  case False
  then have "take 4 (take n (footer_bytes m b)) = take 4 FOOTER_MAGIC"
    by (simp add: footer_bytes_def FOOTER_MAGIC_def bytes_of_def min_def)
  moreover have "4 \<le> length (footer_bytes m b)"
    by (simp add: footer_bytes_def)
  ultimately show ?thesis
    using False by (simp add: next_entry_def read_next_record_def read_exact_def bind_res_def)
qed

text \<open>The entries whose records lie completely within the first \<open>n\<close> bytes.\<close>

fun complete_entries :: "nat \<Rightarrow> RecordEntry list \<Rightarrow> RecordEntry list" where
  "complete_entries n [] = []"
| "complete_entries n (e # es) =
     (if encoded_len e + 4 \<le> n then e # complete_entries (n - (encoded_len e + 4)) es else [])"

lemma length_record_bytes [simp]: "length (record_bytes e) = encoded_len e + 4"
  by (simp add: record_bytes_def)

lemma read_all_truncated:
  assumes "\<forall>e\<in>set es. entry_typed e \<and> entry_fits e"
  shows "read_all (take n (concat (map record_bytes es) @ footer_bytes m b)) =
    Inr (complete_entries n es)"
  using assms
proof (induction es arbitrary: n)
  case Nil
  obtain r where "next_entry (take n (footer_bytes m b)) = Inr (None, r)"
    using next_entry_footer by blast
  then show ?case by (subst read_all.simps) simp
next
  case (Cons e es)
  let ?rest = "concat (map record_bytes es) @ footer_bytes m b"
  have e: "entry_typed e" "entry_fits e" using Cons.prems by auto
  show ?case
  proof (cases "encoded_len e + 4 \<le> n")
    case True
    then have "take n (record_bytes e @ ?rest) = record_bytes e @ take (n - (encoded_len e + 4)) ?rest"
      by simp
    then have "next_entry (take n (record_bytes e @ ?rest)) =
        Inr (Some e, take (n - (encoded_len e + 4)) ?rest)"
      using next_entry_record [OF e] by simp
    moreover have "read_all (take (n - (encoded_len e + 4)) ?rest) =
        Inr (complete_entries (n - (encoded_len e + 4)) es)"
      using Cons.prems by (intro Cons.IH) simp
    ultimately show ?thesis
      using True by (subst read_all.simps) (simp del: take_append)
  next
    case False
    then have "next_entry (take n (record_bytes e @ ?rest)) = Inr (None, [])"
      using next_entry_torn [OF e(2), of n] by simp
    then show ?thesis
      using False by (subst read_all.simps) simp
  qed
qed

lemma complete_entries_all:
  "length (concat (map record_bytes es)) \<le> n \<Longrightarrow> complete_entries n es = es"
  by (induction es arbitrary: n) auto

lemma complete_entries_prefix:
  "prefix (complete_entries n es) es"
  "length (concat (map record_bytes (complete_entries n es))) \<le> n"
  "prefix es' es \<Longrightarrow> length (concat (map record_bytes es')) \<le> n \<Longrightarrow> prefix es' (complete_entries n es)"
proof -
  show "prefix (complete_entries n es) es"
    by (induction n es rule: complete_entries.induct) auto
  show "length (concat (map record_bytes (complete_entries n es))) \<le> n"
    by (induction n es rule: complete_entries.induct) auto
  show "prefix es' es \<Longrightarrow> length (concat (map record_bytes es')) \<le> n \<Longrightarrow>
      prefix es' (complete_entries n es)"
  proof (induction n es arbitrary: es' rule: complete_entries.induct)
    case (2 n e es)
    then show ?case by (cases es') auto
  qed simp
qed

section \<open>The writer\<close>

lemma write_entry_ok_iff:
  "write_entry e w = Inr w' \<longleftrightarrow>
     entry_fits e \<and>
     w' = w\<lparr> out := out w @ record_bytes e, w_messages := w_messages w + 1,
             w_bytes := w_bytes w + length (record_bytes e) \<rparr>"
  by (auto simp: write_entry_def entry_fits_def record_bytes_def MAX_RECORD_BYTES_def)

lemma write_entries_ok_iff:
  "write_entries es w = Inr w' \<longleftrightarrow>
     (\<forall>e\<in>set es. entry_fits e) \<and>
     w' = w\<lparr> out := out w @ concat (map record_bytes es), w_messages := w_messages w + length es,
             w_bytes := w_bytes w + length (concat (map record_bytes es)) \<rparr>"
proof (induction es arbitrary: w)
  case (Cons e es)
  show ?case
    by (auto simp: bind_res_Inr_iff write_entry_ok_iff Cons.IH)
qed auto

definition header_ok :: "RecordingHeader \<Rightarrow> bool" where
  "header_ok h \<longleftrightarrow>
     version h = FORMAT_VERSION \<and> start_nanos h < 2 ^ 64 \<and> length (dataflow_id h) = 16 \<and>
     length (descriptor_yaml h) \<le> MAX_RECORD_BYTES"

definition header_bytes :: "RecordingHeader \<Rightarrow> byte list" where
  "header_bytes h =
     MAGIC @ to_le 2 (version h) @ to_le 8 (start_nanos h) @ dataflow_id h @
     to_le 4 (length (descriptor_yaml h)) @ descriptor_yaml h"

lemma length_MAGIC [simp]: "length MAGIC = 8"
  by (simp add: MAGIC_def bytes_of_def)

lemma read_header_ok:
  assumes "header_ok h"
  shows "read_header (header_bytes h @ rest) = Inr (h, rest)"
proof -
  have b: "from_le (to_le 2 (version h)) = version h"
    "from_le (to_le 8 (start_nanos h)) = start_nanos h"
    "from_le (to_le 4 (length (descriptor_yaml h))) = length (descriptor_yaml h)"
    using assms
    by (auto intro!: from_le_to_le simp: header_ok_def FORMAT_VERSION_def MAX_RECORD_BYTES_def)
  show ?thesis
    using assms from_le_to_le [of 2 2]
    by (simp add: header_bytes_def read_header_def read_exact_append b header_ok_def
        FORMAT_VERSION_def MIN_SUPPORTED_FORMAT_VERSION_def)
qed

lemma write_recording_ok_iff:
  "write_recording h es = Inr (f, bs) \<longleftrightarrow>
     length (descriptor_yaml h) \<le> MAX_RECORD_BYTES \<and> (\<forall>e\<in>set es. entry_fits e) \<and>
     f = \<lparr> total_messages = length es, total_bytes = length (concat (map record_bytes es)) \<rparr> \<and>
     bs = header_bytes h @ concat (map record_bytes es) @
          footer_bytes (length es) (length (concat (map record_bytes es)))"
  by (auto simp: write_recording_def writer_new_def write_header_def bind_res_Inr_iff
      write_entries_ok_iff finish_def header_bytes_def footer_bytes_def)

lemma read_recording_truncated:
  assumes "header_ok h" "\<forall>e\<in>set es. entry_typed e" "write_recording h es = Inr (f, bs)"
  shows "read_recording (take (length (header_bytes h) + n) bs) = Inr (h, complete_entries n es)"
proof -
  have "take (length (header_bytes h) + n) bs =
      header_bytes h @ take n (concat (map record_bytes es) @
        footer_bytes (length es) (length (concat (map record_bytes es))))"
    using assms(3) by (simp add: write_recording_ok_iff)
  moreover have "\<forall>e\<in>set es. entry_typed e \<and> entry_fits e"
    using assms(2,3) by (auto simp: write_recording_ok_iff)
  ultimately show ?thesis
    by (simp add: read_recording_def read_header_ok [OF assms(1)] bind_res_def read_all_truncated
        del: take_append)
qed

section \<open>Reading only one node's entries\<close>

lemma next_entry_for_node_step:
  "next_entry_for_node n src =
     (case next_entry src of
        Inl e \<Rightarrow> Inl e
      | Inr (None, src') \<Rightarrow> Inr (None, src')
      | Inr (Some e, src') \<Rightarrow> if node_id e \<noteq> n then next_entry_for_node n src' else Inr (Some e, src'))"
  by (subst next_entry_for_node.simps)
    (simp add: next_entry_def bind_res_def split: sum.split option.split prod.split)

lemma read_all_for_node_step:
  "read_all_for_node n src =
     (case next_entry src of
        Inl e \<Rightarrow> Inl e
      | Inr (None, src') \<Rightarrow> Inr []
      | Inr (Some e, src') \<Rightarrow>
          if node_id e \<noteq> n then read_all_for_node n src'
          else map_sum id (Cons e) (read_all_for_node n src'))"
proof (cases "next_entry src")
  case (Inr r)
  obtain oe src' where r: "r = (oe, src')" by fastforce
  show ?thesis
  proof (cases oe)
    case (Some e)
    show ?thesis
    proof (cases "node_id e = n")
      case True
      then show ?thesis
        using Inr r Some by (subst read_all_for_node.simps) (simp add: next_entry_for_node_step)
    next
      case False
      then have "next_entry_for_node n src = next_entry_for_node n src'"
        using Inr r Some by (subst next_entry_for_node_step) simp
      then have "read_all_for_node n src = read_all_for_node n src'"
        by (subst (1 2) read_all_for_node.simps) simp
      with False Inr r Some show ?thesis by simp
    qed
  qed (use Inr r in \<open>subst read_all_for_node.simps, subst next_entry_for_node_step, simp\<close>)
qed (subst read_all_for_node.simps, subst next_entry_for_node_step, simp)

lemma read_all_for_node_filter:
  "read_all_for_node n src = map_sum id (filter (\<lambda>e. node_id e = n)) (read_all src)"
proof (induction src rule: read_all.induct)
  case (1 src)
  show ?case
  proof (cases "next_entry src")
    case (Inr r)
    obtain oe src' where r: "r = (oe, src')" by fastforce
    show ?thesis
    proof (cases oe)
      case (Some e)
      have "read_all_for_node n src' = map_sum id (filter (\<lambda>e. node_id e = n)) (read_all src')"
        using 1 Inr r Some by blast
      with Inr r Some show ?thesis
        by (subst read_all_for_node_step, subst read_all.simps) (cases "read_all src'"; simp)
    qed (use Inr r in \<open>subst read_all_for_node_step, subst read_all.simps, simp\<close>)
  qed (subst read_all_for_node_step, subst read_all.simps, simp)
qed

section \<open>Properties\<close>

text \<open>Values used to instantiate the properties.\<close>

definition sample_header :: RecordingHeader where
  "sample_header =
     \<lparr> version = FORMAT_VERSION, start_nanos = 0, dataflow_id = replicate 16 0,
       descriptor_yaml = bytes_of ''nodes: []'' \<rparr>"

definition sample_entry :: RecordEntry where
  "sample_entry =
     \<lparr> node_id = bytes_of ''camera'', output_id = bytes_of ''image'', timestamp_offset_nanos = 7,
       event_bytes = [1, 2, 3] \<rparr>"

lemma sample_ok:
  "header_ok sample_header" "entry_typed sample_entry" "entry_fits sample_entry"
  "encoded_len sample_entry = 30" "entry_encodable sample_entry"
  by (simp_all add: sample_header_def sample_entry_def header_ok_def FORMAT_VERSION_def
      MAX_RECORD_BYTES_def bytes_of_def code_of_def entry_typed_def entry_fits_def encoded_len_def
      entry_encodable_def)

text \<open>C1: a recording cut off at any byte after its header, as by a crash, still opens and yields, with
  no error, exactly the entries whose records were completely written: a prefix of the entries
  written that fits in the bytes kept, and the longest such prefix. Uncut, it yields them all.\<close>

theorem recording_survives_truncation:
  "header_ok h \<Longrightarrow> (\<forall>e\<in>set es. entry_typed e) \<Longrightarrow> write_recording h es = Inr (f, bs) \<Longrightarrow>
   \<exists>es'. read_recording (take (length (header_bytes h) + n) bs) = Inr (h, es') \<and>
     prefix es' es \<and> length (concat (map record_bytes es')) \<le> n \<and>
     (\<forall>es''. prefix es'' es \<and> length (concat (map record_bytes es'')) \<le> n \<longrightarrow> prefix es'' es') \<and>
     (length bs \<le> length (header_bytes h) + n \<longrightarrow> es' = es)"
proof (intro exI conjI allI impI)
  assume a: "header_ok h" "\<forall>e\<in>set es. entry_typed e" "write_recording h es = Inr (f, bs)"
  show "read_recording (take (length (header_bytes h) + n) bs) = Inr (h, complete_entries n es)"
    by (rule read_recording_truncated [OF a])
  show "length bs \<le> length (header_bytes h) + n \<Longrightarrow> complete_entries n es = es"
    using a(3) by (intro complete_entries_all) (simp add: write_recording_ok_iff)
qed (use complete_entries_prefix in blast)+

theorem recording_survives_truncation_witness:
  "\<exists>f bs es'. write_recording sample_header [sample_entry, sample_entry] = Inr (f, bs) \<and>
     read_recording (take (length (header_bytes sample_header) + 40) bs) = Inr (sample_header, es') \<and>
     es' = [sample_entry]"
proof -
  obtain f bs where w: "write_recording sample_header [sample_entry, sample_entry] = Inr (f, bs)"
    using sample_ok(1,3) by (simp add: write_recording_ok_iff header_ok_def)
  from recording_survives_truncation [OF sample_ok(1) _ w, of 40] sample_ok(2)
  obtain es' where es': "read_recording (take (length (header_bytes sample_header) + 40) bs) =
      Inr (sample_header, es')" "prefix es' [sample_entry, sample_entry]"
    "length (concat (map record_bytes es')) \<le> 40"
    "\<forall>es''. prefix es'' [sample_entry, sample_entry] \<and>
       length (concat (map record_bytes es'')) \<le> 40 \<longrightarrow> prefix es'' es'"
    by auto
  have "prefix [sample_entry] es'"
    using es'(4) by (simp add: sample_ok)
  with es'(2,3) have "es' = [sample_entry]"
    by (cases es'; cases "tl es'"; cases "tl (tl es')") (auto simp: sample_ok prefix_Cons)
  with w es'(1) show ?thesis by blast
qed

text \<open>the parser of a record body accepts exactly the encodings of entries, possibly followed by
  further bytes, and returns the entry encoded.\<close>

theorem parse_record_exact:
  "length buf \<le> usize_max \<Longrightarrow>
   parse_record buf = Inr e \<longleftrightarrow> entry_encodable e \<and> prefix (record_body e) buf"
  using parse_record_sound [of buf e] parse_record_complete [of e]
  by (auto simp: prefix_def)

text \<open>the record parser never slices out of bounds, whatever bytes it is given.\<close>

theorem parse_record_no_panic:
  "parse_record buf \<noteq> Inl SlicePanic"
proof -
  have "read_array n buf pos \<noteq> Inl SlicePanic" for n pos
    by (simp add: read_array_def slice_def)
  moreover have "read_slice buf pos n \<noteq> Inl SlicePanic" for n pos
    by (simp add: read_slice_def slice_def Let_def)
  ultimately show ?thesis
    by (auto simp: parse_record_def bind_res_def split: sum.splits)
qed

text \<open>reading only one node's entries gives what reading everything and keeping that node's entries
  gives, errors included.\<close>

theorem reading_for_node_filters:
  "read_all_for_node n src = map_sum id (filter (\<lambda>e. node_id e = n)) (read_all src)"
  by (rule read_all_for_node_filter)

text \<open>an entry is refused, and nothing written, exactly when its record is longer than the maximum or
  an identifier longer than its length field; otherwise the totals grow by one message and by
  the bytes written. Skipping oversized entries refuses only over-long identifiers.\<close>

theorem write_entry_outcomes:
  "(write_entry e w = Inr w' \<longleftrightarrow>
      entry_fits e \<and> out w' = out w @ record_bytes e \<and> w_messages w' = w_messages w + 1 \<and>
      w_bytes w' = w_bytes w + length (record_bytes e)) \<and>
   (write_entry_skip_oversized e w = Inr (Some n, w') \<longleftrightarrow>
      n = encoded_len e \<and> MAX_RECORD_BYTES < n \<and> w' = w) \<and>
   (write_entry_skip_oversized e w = Inr (None, w') \<longleftrightarrow> write_entry e w = Inr w')"
proof (intro conjI)
  show "write_entry e w = Inr w' \<longleftrightarrow>
      entry_fits e \<and> out w' = out w @ record_bytes e \<and> w_messages w' = w_messages w + 1 \<and>
      w_bytes w' = w_bytes w + length (record_bytes e)"
    by (cases w; cases w') (auto simp: write_entry_ok_iff)
  show "write_entry_skip_oversized e w = Inr (Some n, w') \<longleftrightarrow>
      n = encoded_len e \<and> MAX_RECORD_BYTES < n \<and> w' = w"
    by (auto simp: write_entry_skip_oversized_def split: sum.splits)
  show "write_entry_skip_oversized e w = Inr (None, w') \<longleftrightarrow> write_entry e w = Inr w'"
    by (auto simp: write_entry_skip_oversized_def write_entry_def split: sum.splits)
qed

end
