(* ===== verification/Fault_Tolerance.thy ===== *)
theory Fault_Tolerance
  imports Message_Common F64
begin

text \<open>
  Fault tolerance bookkeeping and watchdog decisions of the daemon:
  \<open>binaries/daemon/src/fault_tolerance.rs\<close> (counters, causes of cascading errors),
  \<open>node_exit.rs\<close> (exit classification, kill predicates, the finish grace) and \<open>shutdown.rs\<close>
  (waiting for the children of a daemon that is being destroyed). The operating system's
  answers (process table, process groups, the outcome of a kill) and the clock are parameters.
\<close>

section \<open>Counters\<close>

record FaultToleranceStats =
  restarts :: nat
  health_check_kills :: nat
  startup_timeout_kills :: nat
  input_timeouts :: nat
  circuit_breaker_recoveries :: nat
  dropped_messages :: nat
  lost_backpressure_messages :: nat

definition stats_record_drop :: "nat \<Rightarrow> bool \<Rightarrow> FaultToleranceStats \<Rightarrow> FaultToleranceStats" where
  "stats_record_drop n requires_backpressure s =
     (let s = s\<lparr>dropped_messages := dropped_messages s + n\<rparr> in
      if requires_backpressure
      then s\<lparr>lost_backpressure_messages := lost_backpressure_messages s + n\<rparr> else s)"

definition any_nonzero :: "FaultToleranceStats \<Rightarrow> bool" where
  "any_nonzero s \<longleftrightarrow>
     0 < restarts s \<or> 0 < health_check_kills s \<or> 0 < startup_timeout_kills s \<or>
     0 < input_timeouts s \<or> 0 < circuit_breaker_recoveries s \<or> 0 < dropped_messages s"

section \<open>Causes of cascading errors\<close>

type_synonym CascadingErrorCauses = "(NodeId \<times> NodeId) list"

definition error_caused_by :: "CascadingErrorCauses \<Rightarrow> NodeId \<Rightarrow> NodeId option" where
  "error_caused_by c n = map_of c n"

definition report_cascading_error ::
  "NodeId \<Rightarrow> NodeId \<Rightarrow> CascadingErrorCauses \<Rightarrow> CascadingErrorCauses" where
  "report_cascading_error causing affected c =
     (if map_of c affected = None then bm_insert affected causing c else c)"

definition forget_cause :: "NodeId \<Rightarrow> CascadingErrorCauses \<Rightarrow> CascadingErrorCauses" where
  "forget_cause n c = AList.delete n c"

lemma report_cascading_error_lookup:
  "error_caused_by (report_cascading_error causing affected c) n =
     (case error_caused_by c n of
        Some x \<Rightarrow> Some x
      | None \<Rightarrow> if n = affected then Some causing else None)"
  by (auto simp: error_caused_by_def report_cascading_error_def map_of_bm_insert split: option.splits)

section \<open>Exit classification and watchdog predicates\<close>

definition DEFAULT_FINISH_DRAIN_GRACE :: Duration where
  "DEFAULT_FINISH_DRAIN_GRACE = 120 * 10 ^ 9"

definition STATUS_CONTROL_C_EXIT :: int where
  "STATUS_CONTROL_C_EXIT = -1073741510"

definition is_sigterm_like_exit :: "NodeExitStatus \<Rightarrow> bool" where
  "is_sigterm_like_exit s =
     (case s of
        Signal n \<Rightarrow> n = 15 \<or> n = 2
      | ExitCode c \<Rightarrow> c = 143 \<or> c = 130 \<or> c = STATUS_CONTROL_C_EXIT
      | _ \<Rightarrow> False)"

definition is_sigkill_like_exit :: "NodeExitStatus \<Rightarrow> bool" where
  "is_sigkill_like_exit s =
     (case s of Signal n \<Rightarrow> n = 9 | ExitCode c \<Rightarrow> c = 137 | _ \<Rightarrow> False)"

definition as_millis :: "Duration \<Rightarrow> nat" where
  "as_millis d = d div 10 ^ 6"

definition startup_timeout_should_kill :: "bool \<Rightarrow> nat \<Rightarrow> nat \<Rightarrow> Duration \<Rightarrow> bool" where
  "startup_timeout_should_kill connected spawned_at_millis now_millis tmo =
     (if connected \<or> spawned_at_millis = 0 then False
      else as_millis tmo < now_millis - spawned_at_millis)"

definition health_check_should_kill :: "bool \<Rightarrow> nat \<Rightarrow> nat \<Rightarrow> Duration \<Rightarrow> bool" where
  "health_check_should_kill connected last_activity_millis now_millis tmo =
     (if \<not> connected then False
      else as_millis tmo < now_millis - last_activity_millis)"

definition parse_finish_drain_grace :: "string option \<Rightarrow> Duration option" where
  "parse_finish_drain_grace v =
     (case v of
        None \<Rightarrow> Some DEFAULT_FINISH_DRAIN_GRACE
      | Some v \<Rightarrow>
          if map to_lower v = ''off'' \<or> map to_lower v = ''disabled'' then None
          else (case parse_uint u64_max v of
                  Some secs \<Rightarrow> Some (secs * 10 ^ 9)
                | None \<Rightarrow> Some DEFAULT_FINISH_DRAIN_GRACE))"

section \<open>Waiting for the children of a destroyed daemon\<close>

text \<open>Times are milliseconds; a \<open>proc\<close> is an entry of the process table.\<close>

definition DESTROY_WAIT :: nat where "DESTROY_WAIT = 16000"
definition KILL_SETTLE :: nat where "KILL_SETTLE = 2000"

record proc =
  p_zombie :: bool
  p_parent :: "nat option"

record os_view =
  processes :: "nat \<Rightarrow> proc option"
  group_has_members :: "nat \<Rightarrow> bool"
  leads_own_group :: "nat \<Rightarrow> bool"
  kill_succeeds :: "nat \<Rightarrow> bool"

record DestroyWait =
  deadline :: nat
  killed :: bool
  killed_pids :: "nat list"
  confirmed :: "nat set"
  own_pid :: nat

datatype DestroyProgress = Waiting | Done | Abandoned "nat list"

definition destroy_wait_new :: "nat \<Rightarrow> nat \<Rightarrow> DestroyWait" where
  "destroy_wait_new now own =
     \<lparr> deadline = now + DESTROY_WAIT, killed = False, killed_pids = [], confirmed = {},
       own_pid = own \<rparr>"

definition is_live_child :: "proc \<Rightarrow> nat \<Rightarrow> bool" where
  "is_live_child p own = (if p_zombie p then False else p_parent p = Some own)"

definition pid_recycled_into_stranger :: "os_view \<Rightarrow> nat \<Rightarrow> nat \<Rightarrow> bool" where
  "pid_recycled_into_stranger os pid own =
     (case processes os pid of
        None \<Rightarrow> False
      | Some p \<Rightarrow> if p_parent p = Some own then False else leads_own_group os pid)"

definition leader_alive :: "os_view \<Rightarrow> nat \<Rightarrow> nat \<Rightarrow> bool" where
  "leader_alive os pid own =
     (case processes os pid of None \<Rightarrow> False | Some p \<Rightarrow> is_live_child p own)"

fun live_children :: "os_view \<Rightarrow> nat list \<Rightarrow> DestroyWait \<Rightarrow> nat list \<times> DestroyWait" where
  "live_children os [] w = ([], w)"
| "live_children os (pid # pids) w =
     (if leader_alive os pid (own_pid w) then
        (case live_children os pids (w\<lparr>confirmed := insert pid (confirmed w)\<rparr>) of
           (alive, w') \<Rightarrow> (pid # alive, w'))
      else if pid \<in> confirmed w \<and> \<not> pid_recycled_into_stranger os pid (own_pid w) \<and>
              group_has_members os pid then
        (case live_children os pids w of (alive, w') \<Rightarrow> (pid # alive, w'))
      else live_children os pids w)"

definition destroy_poll ::
  "os_view \<Rightarrow> nat \<Rightarrow> nat list \<Rightarrow> DestroyWait \<Rightarrow> DestroyProgress \<times> DestroyWait" where
  "destroy_poll os now pids w =
     (case live_children os pids w of (alive, w) \<Rightarrow>
        if alive = [] then (Done, w)
        else if now < deadline w then (Waiting, w)
        else if killed w then (Abandoned alive, w)
        else (Waiting,
              w\<lparr>killed_pids := killed_pids w @ filter (kill_succeeds os) alive,
                killed := True, deadline := now + KILL_SETTLE\<rparr>))"

text \<open>The daemon polls on every tick, with the process identifiers and the system as they are then.\<close>

fun destroy_run ::
  "(os_view \<times> nat \<times> nat list) list \<Rightarrow> DestroyWait \<Rightarrow> DestroyProgress \<times> DestroyWait" where
  "destroy_run [] w = (Waiting, w)"
| "destroy_run ((os, now, pids) # ticks) w =
     (case destroy_poll os now pids w of
        (Waiting, w') \<Rightarrow> destroy_run ticks w'
      | r \<Rightarrow> r)"

subsection \<open>What is killed, and when waiting ends\<close>

definition still_ours :: "os_view \<Rightarrow> DestroyWait \<Rightarrow> nat \<Rightarrow> bool" where
  "still_ours os w p \<longleftrightarrow>
     leader_alive os p (own_pid w) \<or>
     (p \<in> confirmed w \<and> \<not> pid_recycled_into_stranger os p (own_pid w) \<and> group_has_members os p)"

lemma live_children_filter:
  "live_children os pids w =
     (filter (still_ours os w) pids,
      w\<lparr>confirmed := confirmed w \<union> {p \<in> set pids. leader_alive os p (own_pid w)}\<rparr>)"
proof (induction os pids w rule: live_children.induct)
  case (2 os pid pids w)
  have same: "leader_alive os pid (own_pid w) \<Longrightarrow>
      still_ours os (w\<lparr>confirmed := insert pid (confirmed w)\<rparr>) p = still_ours os w p" for p
    by (auto simp: still_ours_def)
  have ins: "insert pid (confirmed w) \<union> {p \<in> set pids. leader_alive os p (own_pid w)} =
      confirmed w \<union> {p \<in> set (pid # pids). leader_alive os p (own_pid w)}"
    if "leader_alive os pid (own_pid w)"
    using that by auto
  have keep: "{p \<in> set (pid # pids). leader_alive os p (own_pid w)} =
      {p \<in> set pids. leader_alive os p (own_pid w)}" if "\<not> leader_alive os pid (own_pid w)"
    using that by auto
  show ?case
  proof (cases "leader_alive os pid (own_pid w)")
    case True
    then show ?thesis
      using 2(1) same ins by (simp add: still_ours_def [of os w pid] cong: filter_cong)
  next
    case False
    then show ?thesis
      using 2(2,3) keep by (auto simp: still_ours_def [of os w pid])
  qed
qed simp

lemma destroy_poll_cases:
  "destroy_poll os now pids w =
     (let alive = filter (still_ours os w) pids;
          w' = w\<lparr>confirmed := confirmed w \<union> {p \<in> set pids. leader_alive os p (own_pid w)}\<rparr>
      in if alive = [] then (Done, w')
         else if now < deadline w then (Waiting, w')
         else if killed w then (Abandoned alive, w')
         else (Waiting, w'\<lparr>killed_pids := killed_pids w @ filter (kill_succeeds os) alive,
                           killed := True, deadline := now + KILL_SETTLE\<rparr>))"
  by (simp add: destroy_poll_def live_children_filter Let_def)

lemma destroy_run_append:
  "destroy_run (xs @ ys) w =
     (case destroy_run xs w of (Waiting, w') \<Rightarrow> destroy_run ys w' | r \<Rightarrow> r)"
  by (induction xs w rule: destroy_run.induct) (auto split: prod.splits DestroyProgress.splits)

lemma destroy_run_split:
  assumes "fst (destroy_run (xs @ ys) w) = Waiting"
  obtains w1 where "destroy_run xs w = (Waiting, w1)" "fst (destroy_run ys w1) = Waiting"
  using assms by (auto simp: destroy_run_append split: prod.splits DestroyProgress.splits)

lemma destroy_run_Cons_Waiting:
  "destroy_run ((os, now, pids) # ticks) w = (Waiting, w') \<Longrightarrow>
   \<exists>w1. destroy_poll os now pids w = (Waiting, w1) \<and> destroy_run ticks w1 = (Waiting, w')"
  by (auto split: prod.splits DestroyProgress.splits)

lemma destroy_poll_Waiting:
  assumes "destroy_poll os now pids w = (Waiting, w')"
  shows "own_pid w' = own_pid w"
    and "now < deadline w \<and> deadline w' = deadline w \<and> killed w' = killed w \<or>
         deadline w \<le> now \<and> \<not> killed w \<and> killed w' \<and> deadline w' = now + KILL_SETTLE"
  using assms by (auto simp: destroy_poll_cases Let_def split: if_splits)

lemma destroy_run_phase:
  assumes "destroy_run ticks w = (Waiting, w')" "\<forall>(os, now, pids)\<in>set ticks. now \<le> t"
  shows "(killed w \<longrightarrow> killed w' \<and> deadline w' = deadline w) \<and>
    (\<not> killed w \<longrightarrow> (\<not> killed w' \<and> deadline w' = deadline w \<and>
        (\<forall>(os, now, pids)\<in>set ticks. now < deadline w)) \<or>
      (killed w' \<and> deadline w' \<le> t + KILL_SETTLE))"
  using assms
proof (induction ticks w rule: destroy_run.induct)
  case (2 os now pids ticks w)
  from destroy_run_Cons_Waiting [OF "2.prems"(1)] obtain w1
    where w1: "destroy_poll os now pids w = (Waiting, w1)" "destroy_run ticks w1 = (Waiting, w')"
    by blast
  have le: "now \<le> t" using "2.prems"(2) by auto
  have IH: "(killed w1 \<longrightarrow> killed w' \<and> deadline w' = deadline w1) \<and>
    (\<not> killed w1 \<longrightarrow> (\<not> killed w' \<and> deadline w' = deadline w1 \<and>
        (\<forall>(os, now, pids)\<in>set ticks. now < deadline w1)) \<or>
      (killed w' \<and> deadline w' \<le> t + KILL_SETTLE))"
    using 2 w1 by auto
  from destroy_poll_Waiting(2) [OF w1(1)] IH le show ?case by auto
qed simp

definition known_child :: "(os_view \<times> nat \<times> nat list) list \<Rightarrow> nat \<Rightarrow> nat \<Rightarrow> bool" where
  "known_child ticks own p \<longleftrightarrow> (\<exists>(os, now, pids)\<in>set ticks. p \<in> set pids \<and> leader_alive os p own)"

lemma known_child_Cons:
  "known_child ((os, now, pids) # ticks) own p \<longleftrightarrow>
     (p \<in> set pids \<and> leader_alive os p own) \<or> known_child ticks own p"
  by (auto simp: known_child_def)

lemma destroy_run_kills:
  "destroy_run ticks w = (r, w') \<Longrightarrow>
   p \<in> set (killed_pids w') \<Longrightarrow>
   p \<in> set (killed_pids w) \<or> p \<in> confirmed w \<or> known_child ticks (own_pid w) p"
proof (induction ticks w arbitrary: r w' rule: destroy_run.induct)
  case (2 os now pids ticks w)
  obtain r1 w1 where poll: "destroy_poll os now pids w = (r1, w1)" by fastforce
  have own: "own_pid w1 = own_pid w"
    using poll by (auto simp: destroy_poll_cases Let_def split: if_splits)
  have kill: "q \<in> set (killed_pids w1) \<Longrightarrow>
      q \<in> set (killed_pids w) \<or> q \<in> confirmed w \<or> (q \<in> set pids \<and> leader_alive os q (own_pid w))" for q
    using poll by (auto simp: destroy_poll_cases Let_def still_ours_def split: if_splits)
  have conf: "q \<in> confirmed w1 \<Longrightarrow>
      q \<in> confirmed w \<or> (q \<in> set pids \<and> leader_alive os q (own_pid w))" for q
    using poll by (auto simp: destroy_poll_cases Let_def split: if_splits)
  show ?case
  proof (cases "r1 = Waiting")
    case True
    then have "destroy_run ticks w1 = (r, w')" using 2 poll by simp
    then have "p \<in> set (killed_pids w1) \<or> p \<in> confirmed w1 \<or> known_child ticks (own_pid w1) p"
      using "2.IH" [OF poll [symmetric] True] "2.prems"(2) by blast
    then show ?thesis
      using own kill [of p] conf [of p] by (auto simp: known_child_Cons)
  next
    case False
    then have "w' = w1" using "2.prems"(1) poll by (auto split: DestroyProgress.splits)
    then show ?thesis
      using kill [of p] "2.prems"(2) by (auto simp: known_child_Cons)
  qed
qed simp

section \<open>Properties\<close>

definition one_live_child :: os_view where
  "one_live_child =
     \<lparr> processes = (\<lambda>p. if p = 7 then Some \<lparr> p_zombie = False, p_parent = Some 1 \<rparr> else None),
       group_has_members = (\<lambda>p. p = 7), leads_own_group = (\<lambda>p. p = 7), kill_succeeds = (\<lambda>p. True) \<rparr>"

text \<open>C12: destroying a daemon ends: once a poll has happened at or after the deadline and another one
  the settle time later, the wait has concluded, with every node gone or the remaining ones given up.\<close>

theorem destroy_wait_concludes:
  "\<not> killed w \<Longrightarrow> (\<forall>(os, now, pids)\<in>set before. now \<le> t1) \<Longrightarrow> deadline w \<le> t1 \<Longrightarrow>
   t1 + KILL_SETTLE \<le> t2 \<Longrightarrow> (\<forall>(os, now, pids)\<in>set between. now \<le> t2) \<Longrightarrow>
   fst (destroy_run (before @ (os1, t1, pids1) # between @ [(os2, t2, pids2)]) w) \<noteq> Waiting"
proof
  let ?a = "before @ [(os1, t1, pids1)]"
  assume h: "\<not> killed w" "\<forall>(os, now, pids)\<in>set before. now \<le> t1" "deadline w \<le> t1"
    "t1 + KILL_SETTLE \<le> t2" "\<forall>(os, now, pids)\<in>set between. now \<le> t2"
  assume "fst (destroy_run (before @ (os1, t1, pids1) # between @ [(os2, t2, pids2)]) w) = Waiting"
  then have w: "fst (destroy_run ((?a @ between) @ [(os2, t2, pids2)]) w) = Waiting" by simp
  from destroy_run_split [OF w] obtain w2
    where 2: "destroy_run (?a @ between) w = (Waiting, w2)"
      and poll: "fst (destroy_run [(os2, t2, pids2)] w2) = Waiting" .
  from 2 have "fst (destroy_run (?a @ between) w) = Waiting" by simp
  from destroy_run_split [OF this] obtain w1
    where 1: "destroy_run ?a w = (Waiting, w1)" and "fst (destroy_run between w1) = Waiting" .
  with 2 have b: "destroy_run between w1 = (Waiting, w2)"
    using destroy_run_append [of ?a between w] by simp
  have "killed w1 \<and> deadline w1 \<le> t1 + KILL_SETTLE"
    using destroy_run_phase [OF 1, of t1] h by auto
  then have "killed w2 \<and> deadline w2 \<le> t2"
    using destroy_run_phase [OF b, of t2] h by auto
  with poll show False
    by (auto simp: destroy_poll_cases Let_def split: if_splits)
qed

theorem destroy_wait_concludes_witness:
  "fst (destroy_run ([(one_live_child, 100, [7])] @ (one_live_child, 16000, [7]) #
      [(one_live_child, 17000, [7])] @ [(one_live_child, 18000, [7])]) (destroy_wait_new 0 1)) \<noteq> Waiting"
  by (rule destroy_wait_concludes) (simp_all add: destroy_wait_new_def DESTROY_WAIT_def KILL_SETTLE_def)

text \<open>destroying a daemon kills only process groups of its own nodes: every process it signals was
  seen, at that or an earlier poll, as a live child of the daemon.\<close>

theorem destroy_kills_only_children:
  "destroy_run ticks (destroy_wait_new now own) = (r, w) \<Longrightarrow> p \<in> set (killed_pids w) \<Longrightarrow>
   known_child ticks own p"
  using destroy_run_kills [of ticks "destroy_wait_new now own" r w p]
  by (simp add: destroy_wait_new_def)

end
