(* ===== verification/Pending_Barrier.thy ===== *)
theory Pending_Barrier
  imports Fault_Tolerance
begin

text \<open>
  The startup barrier of a dataflow on one daemon, \<open>binaries/daemon/src/pending.rs\<close>. The state
  is the struct \<open>PendingNodes\<close> without its two constant identifiers; the record is extended by
  what its operations write to: the replies sent to subscribers, the readiness reports sent to
  the coordinator, and the causes of cascading errors. A reply channel is a number; an error
  reply is the node it blames. Whether the coordinator can be reached is an argument.
\<close>

record PendingNodes =
  local_nodes :: "NodeId set"
  external_nodes :: bool
  waiting_subscribers :: "(NodeId \<times> nat) list"
  cohort :: "NodeId set"
  exited_before_subscribe :: "NodeId list"
  reported_init_to_coordinator :: bool
  external_ready :: "NodeId list option"

type_synonym reply = "nat \<times> NodeId \<times> (NodeId + unit)"

record barrier = PendingNodes +
  sent_replies :: "reply list"
  reports :: "NodeId list list"
  causes :: CascadingErrorCauses

datatype coord_link = NoSender | SendFails | SendOk

datatype report_error = NoCoordinatorSender | SendFailed

datatype DataflowStatus = AllNodesReady | PendingStatus

section \<open>Operations\<close>

definition pending_new :: barrier where
  "pending_new =
     \<lparr> local_nodes = {}, external_nodes = False, waiting_subscribers = [], cohort = {},
       exited_before_subscribe = [], reported_init_to_coordinator = False, external_ready = None,
       sent_replies = [], reports = [], causes = [] \<rparr>"

definition pending_insert :: "NodeId \<Rightarrow> barrier \<Rightarrow> barrier" where
  "pending_insert n s =
     s\<lparr>local_nodes := insert n (local_nodes s), cohort := insert n (cohort s)\<rparr>"

definition set_external_nodes :: "bool \<Rightarrow> barrier \<Rightarrow> barrier" where
  "set_external_nodes v s = s\<lparr>external_nodes := v\<rparr>"

definition local_nodes_pending :: "barrier \<Rightarrow> bool" where
  "local_nodes_pending s \<longleftrightarrow> local_nodes s \<noteq> {}"

definition is_pending :: "NodeId \<Rightarrow> barrier \<Rightarrow> bool" where
  "is_pending n s \<longleftrightarrow> n \<in> local_nodes s"

text \<open>The node blamed for a failed startup: the first local one, else the first external one.\<close>

definition causing_node :: "NodeId list \<Rightarrow> barrier \<Rightarrow> NodeId option" where
  "causing_node external s =
     (case exited_before_subscribe s of
        n # _ \<Rightarrow> Some n
      | [] \<Rightarrow> (case external of n # _ \<Rightarrow> Some n | [] \<Rightarrow> None))"

definition scoped_result :: "NodeId option \<Rightarrow> barrier \<Rightarrow> NodeId \<Rightarrow> NodeId + unit" where
  "scoped_result cz s n =
     (if n \<in> cohort s then (case cz of Some c \<Rightarrow> Inl c | None \<Rightarrow> Inr ()) else Inr ())"

fun answer_each :: "NodeId option \<Rightarrow> (NodeId \<times> nat) list \<Rightarrow> barrier \<Rightarrow> barrier" where
  "answer_each cz [] s = s"
| "answer_each cz ((n, ch) # ws) s =
     (let res = scoped_result cz s n;
          s = (case (res, cz) of
                 (Inl _, Some c) \<Rightarrow> s\<lparr>causes := report_cascading_error c n (causes s)\<rparr>
               | _ \<Rightarrow> s)
      in answer_each cz ws (s\<lparr>sent_replies := sent_replies s @ [(ch, n, res)]\<rparr>))"

definition answer_subscribe_requests :: "NodeId list \<Rightarrow> barrier \<Rightarrow> barrier" where
  "answer_subscribe_requests external s =
     answer_each (causing_node external s) (waiting_subscribers s) (s\<lparr>waiting_subscribers := []\<rparr>)"

definition report_nodes_ready :: "coord_link \<Rightarrow> barrier \<Rightarrow> (report_error + unit) \<times> barrier" where
  "report_nodes_ready link s =
     (case link of
        NoSender \<Rightarrow> (Inl NoCoordinatorSender, s)
      | SendFails \<Rightarrow> (Inl SendFailed, s)
      | SendOk \<Rightarrow> (Inr (), s\<lparr>reports := reports s @ [exited_before_subscribe s]\<rparr>))"

text \<open>The part of \<open>update_dataflow_status\<close> after the report: answer from the latched release.\<close>

definition answer_latched :: "barrier \<Rightarrow> DataflowStatus \<times> barrier" where
  "answer_latched s =
     (case external_ready s of
        None \<Rightarrow> (PendingStatus, s)
      | Some external \<Rightarrow>
          (if external = [] \<and> exited_before_subscribe s = [] then AllNodesReady else PendingStatus,
           answer_subscribe_requests external s))"

definition update_dataflow_status ::
  "coord_link \<Rightarrow> barrier \<Rightarrow> (report_error + DataflowStatus) \<times> barrier" where
  "update_dataflow_status link s =
     (if local_nodes s = {} then
        if external_nodes s then
          if \<not> reported_init_to_coordinator s then
            (case report_nodes_ready link s of
               (Inl e, s) \<Rightarrow> (Inl e, s)
             | (Inr _, s) \<Rightarrow>
                 apfst Inr (answer_latched (s\<lparr>reported_init_to_coordinator := True\<rparr>)))
          else apfst Inr (answer_latched s)
        else (Inr AllNodesReady, answer_subscribe_requests [] s)
      else (Inr PendingStatus, s))"

definition handle_node_removal ::
  "NodeId \<Rightarrow> coord_link \<Rightarrow> barrier \<Rightarrow> (report_error + DataflowStatus) \<times> barrier" where
  "handle_node_removal n link s =
     update_dataflow_status link
       (s\<lparr>local_nodes := local_nodes s - {n}, cohort := cohort s - {n},
          waiting_subscribers := AList.delete n (waiting_subscribers s),
          exited_before_subscribe := filter (\<lambda>i. i \<noteq> n) (exited_before_subscribe s)\<rparr>)"

definition handle_node_subscription ::
  "NodeId \<Rightarrow> nat \<Rightarrow> coord_link \<Rightarrow> barrier \<Rightarrow> (report_error + DataflowStatus) \<times> barrier" where
  "handle_node_subscription n reply_sender link s =
     update_dataflow_status link
       (s\<lparr>waiting_subscribers := AList.update n reply_sender (waiting_subscribers s),
          local_nodes := local_nodes s - {n}\<rparr>)"

definition handle_node_stop ::
  "NodeId \<Rightarrow> coord_link \<Rightarrow> barrier \<Rightarrow> (report_error + DataflowStatus) \<times> barrier" where
  "handle_node_stop n link s =
     (if n \<in> local_nodes s then
        update_dataflow_status link
          (s\<lparr>local_nodes := local_nodes s - {n},
             exited_before_subscribe := exited_before_subscribe s @ [n]\<rparr>)
      else (Inr PendingStatus, s))"

fun handle_dataflow_stop ::
  "NodeId list \<Rightarrow> coord_link \<Rightarrow> barrier \<Rightarrow> (report_error + unit) \<times> barrier" where
  "handle_dataflow_stop [] link s = (Inr (), s)"
| "handle_dataflow_stop (n # ns) link s =
     (if n \<in> local_nodes s then
        (case update_dataflow_status link (s\<lparr>local_nodes := local_nodes s - {n}\<rparr>) of
           (Inl e, s) \<Rightarrow> (Inl e, s)
         | (Inr _, s) \<Rightarrow> handle_dataflow_stop ns link s)
      else handle_dataflow_stop ns link s)"

definition handle_external_all_nodes_ready ::
  "NodeId list \<Rightarrow> barrier \<Rightarrow> DataflowStatus \<times> barrier" where
  "handle_external_all_nodes_ready external s =
     (if external = [] \<and> exited_before_subscribe s = [] then AllNodesReady else PendingStatus,
      answer_subscribe_requests external (s\<lparr>external_ready := Some external\<rparr>))"

section \<open>Reachable states\<close>

text \<open>The cohort is enrolled first; then the daemon's events arrive in any order.\<close>

inductive barrier_step :: "barrier \<Rightarrow> barrier \<Rightarrow> bool" where
  subscribe: "handle_node_subscription n ch link s = (r, t) \<Longrightarrow> barrier_step s t"
| stop: "handle_node_stop n link s = (r, t) \<Longrightarrow> barrier_step s t"
| removal: "handle_node_removal n link s = (r, t) \<Longrightarrow> barrier_step s t"
| dataflow_stop: "handle_dataflow_stop ns link s = (u, t) \<Longrightarrow> barrier_step s t"
| released: "handle_external_all_nodes_ready external s = (st, t) \<Longrightarrow> barrier_step s t"

inductive_cases barrier_stepE: "barrier_step s t"

inductive barrier_reach :: "barrier \<Rightarrow> bool" where
  enrolled: "barrier_reach (set_external_nodes v (fold pending_insert ns pending_new))"
| step: "barrier_reach s \<Longrightarrow> barrier_step s t \<Longrightarrow> barrier_reach t"

section \<open>Effects of answering\<close>

lemma answer_each_views:
  "sent_replies (answer_each cz ws s) =
     sent_replies s @ map (\<lambda>(n, ch). (ch, n, scoped_result cz s n)) ws"
  "local_nodes (answer_each cz ws s) = local_nodes s"
  "external_nodes (answer_each cz ws s) = external_nodes s"
  "waiting_subscribers (answer_each cz ws s) = waiting_subscribers s"
  "cohort (answer_each cz ws s) = cohort s"
  "exited_before_subscribe (answer_each cz ws s) = exited_before_subscribe s"
  "reported_init_to_coordinator (answer_each cz ws s) = reported_init_to_coordinator s"
  "external_ready (answer_each cz ws s) = external_ready s"
  "reports (answer_each cz ws s) = reports s"
  by (induction cz ws s rule: answer_each.induct)
    (auto simp: scoped_result_def Let_def split: sum.splits option.splits)

lemma answer_views [simp]:
  "sent_replies (answer_subscribe_requests ext s) =
     sent_replies s @
       map (\<lambda>(n, ch). (ch, n, scoped_result (causing_node ext s) s n)) (waiting_subscribers s)"
  "local_nodes (answer_subscribe_requests ext s) = local_nodes s"
  "external_nodes (answer_subscribe_requests ext s) = external_nodes s"
  "waiting_subscribers (answer_subscribe_requests ext s) = []"
  "cohort (answer_subscribe_requests ext s) = cohort s"
  "exited_before_subscribe (answer_subscribe_requests ext s) = exited_before_subscribe s"
  "reported_init_to_coordinator (answer_subscribe_requests ext s) = reported_init_to_coordinator s"
  "external_ready (answer_subscribe_requests ext s) = external_ready s"
  "reports (answer_subscribe_requests ext s) = reports s"
  by (simp_all add: answer_subscribe_requests_def answer_each_views scoped_result_def)

section \<open>Invariant\<close>

definition barrier_core :: "barrier \<Rightarrow> bool" where
  "barrier_core s \<longleftrightarrow>
     local_nodes s \<subseteq> cohort s \<and> set (exited_before_subscribe s) \<subseteq> cohort s \<and>
     set (exited_before_subscribe s) \<inter> local_nodes s = {} \<and> distinct (exited_before_subscribe s) \<and>
     distinct (map fst (waiting_subscribers s)) \<and>
     fst ` set (waiting_subscribers s) \<inter> local_nodes s = {} \<and>
     length (reports s) = (if reported_init_to_coordinator s then 1 else 0)"

text \<open>A waiting subscriber is waiting for something that can still happen.\<close>

definition not_stranded :: "barrier \<Rightarrow> bool" where
  "not_stranded s \<longleftrightarrow>
     waiting_subscribers s \<noteq> [] \<longrightarrow>
     local_nodes s \<noteq> {} \<or>
     (external_nodes s \<and> (external_ready s = None \<or> \<not> reported_init_to_coordinator s))"

definition barrier_inv :: "barrier \<Rightarrow> bool" where
  "barrier_inv s \<longleftrightarrow> barrier_core s \<and> not_stranded s"

text \<open>The state after a successful report.\<close>

definition reported :: "barrier \<Rightarrow> barrier" where
  "reported s =
     (if reported_init_to_coordinator s then s
      else s\<lparr>reports := reports s @ [exited_before_subscribe s], reported_init_to_coordinator := True\<rparr>)"

lemma reported_views [simp]:
  "local_nodes (reported s) = local_nodes s" "external_nodes (reported s) = external_nodes s"
  "waiting_subscribers (reported s) = waiting_subscribers s" "cohort (reported s) = cohort s"
  "exited_before_subscribe (reported s) = exited_before_subscribe s"
  "reported_init_to_coordinator (reported s)" "external_ready (reported s) = external_ready s"
  "sent_replies (reported s) = sent_replies s"
  by (simp_all add: reported_def)

lemma reported_core: "barrier_core s \<Longrightarrow> barrier_core (reported s)"
  by (simp add: barrier_core_def reported_def)

lemma answer_core: "barrier_core s \<Longrightarrow> barrier_core (answer_subscribe_requests ext s)"
  by (simp add: barrier_core_def)

lemma update_eq:
  "update_dataflow_status link s =
     (if local_nodes s \<noteq> {} then (Inr PendingStatus, s)
      else if \<not> external_nodes s then (Inr AllNodesReady, answer_subscribe_requests [] s)
      else if \<not> reported_init_to_coordinator s \<and> link \<noteq> SendOk
        then (Inl (if link = NoSender then NoCoordinatorSender else SendFailed), s)
      else (case external_ready s of
              None \<Rightarrow> (Inr PendingStatus, reported s)
            | Some ext \<Rightarrow>
                (Inr (if ext = [] \<and> exited_before_subscribe s = [] then AllNodesReady
                      else PendingStatus),
                 answer_subscribe_requests ext (reported s))))"
  by (cases link; cases "external_ready s")
    (simp_all add: update_dataflow_status_def report_nodes_ready_def answer_latched_def reported_def)

lemma update_frame:
  "local_nodes (snd (update_dataflow_status link s)) = local_nodes s"
  "cohort (snd (update_dataflow_status link s)) = cohort s"
  "exited_before_subscribe (snd (update_dataflow_status link s)) = exited_before_subscribe s"
  "set (waiting_subscribers (snd (update_dataflow_status link s))) \<subseteq> set (waiting_subscribers s)"
  by (simp_all add: update_eq split: option.split)

lemma update_core: "barrier_core s \<Longrightarrow> barrier_core (snd (update_dataflow_status link s))"
  by (simp add: update_eq answer_core reported_core split: option.split)

lemma update_not_stranded: "not_stranded (snd (update_dataflow_status link s))"
  by (simp add: update_eq not_stranded_def split: option.split)

lemma update_inv: "update_dataflow_status link s = (r, t) \<Longrightarrow> barrier_core s \<Longrightarrow> barrier_inv t"
  using update_core [of s link] update_not_stranded [of link s] by (simp add: barrier_inv_def)

lemma handle_dataflow_stop_inv:
  "handle_dataflow_stop ns link s = (u, t) \<Longrightarrow> barrier_inv s \<Longrightarrow> barrier_inv t"
proof (induction ns link s arbitrary: u rule: handle_dataflow_stop.induct)
  case (2 n ns link s)
  show ?case
  proof (cases "n \<in> local_nodes s")
    case True
    let ?s = "s\<lparr>local_nodes := local_nodes s - {n}\<rparr>"
    obtain r s1 where up: "update_dataflow_status link ?s = (r, s1)" by fastforce
    have "barrier_core ?s"
      using 2(4) by (auto simp: barrier_inv_def barrier_core_def)
    with up have inv: "barrier_inv s1" by (rule update_inv)
    show ?thesis
    proof (cases r)
      case (Inl e)
      with 2(3) True up inv show ?thesis by simp
    next
      case (Inr st)
      with 2(3) True up have "handle_dataflow_stop ns link s1 = (u, t)" by simp
      with 2(1) True up Inr inv show ?thesis by metis
    qed
  qed (use 2 in simp)
qed simp

lemma barrier_step_inv: "barrier_step s t \<Longrightarrow> barrier_inv s \<Longrightarrow> barrier_inv t"
proof (induction rule: barrier_step.induct)
  case (subscribe n ch link s r t)
  then have "barrier_core (s\<lparr>waiting_subscribers := AList.update n ch (waiting_subscribers s),
      local_nodes := local_nodes s - {n}\<rparr>)"
    by (auto simp: barrier_inv_def barrier_core_def hm.dom_ins distinct_update)
  with subscribe show ?case by (simp add: handle_node_subscription_def update_inv)
next
  case (stop n link s r t)
  show ?case
  proof (cases "n \<in> local_nodes s")
    case True
    then have "barrier_core (s\<lparr>local_nodes := local_nodes s - {n},
        exited_before_subscribe := exited_before_subscribe s @ [n]\<rparr>)"
      using stop by (auto simp: barrier_inv_def barrier_core_def)
    with True stop show ?thesis by (simp add: handle_node_stop_def update_inv)
  qed (use stop in \<open>simp add: handle_node_stop_def\<close>)
next
  case (removal n link s r t)
  then have "barrier_core (s\<lparr>local_nodes := local_nodes s - {n}, cohort := cohort s - {n},
      waiting_subscribers := AList.delete n (waiting_subscribers s),
      exited_before_subscribe := filter (\<lambda>i. i \<noteq> n) (exited_before_subscribe s)\<rparr>)"
    by (auto simp: barrier_inv_def barrier_core_def hm.dom_rem distinct_delete)
  with removal show ?case by (simp add: handle_node_removal_def update_inv)
next
  case (dataflow_stop ns link s u t)
  then show ?case by (blast intro: handle_dataflow_stop_inv)
next
  case (released external s st t)
  then show ?case
    by (auto simp: handle_external_all_nodes_ready_def barrier_inv_def barrier_core_def
        not_stranded_def)
qed

lemma enrolled_inv: "barrier_inv (set_external_nodes v (fold pending_insert ns pending_new))"
proof -
  have "(\<lambda>s. barrier_core s \<and> waiting_subscribers s = [] \<and> exited_before_subscribe s = [])
      (fold pending_insert ns pending_new)"
    by (rule fold_invariant [where Q = "\<lambda>_. True"])
      (auto simp: pending_insert_def barrier_core_def pending_new_def)
  then show ?thesis
    by (simp add: set_external_nodes_def barrier_inv_def not_stranded_def barrier_core_def)
qed

lemma barrier_reach_inv: "barrier_reach s \<Longrightarrow> barrier_inv s"
  by (induction rule: barrier_reach.induct) (auto simp: enrolled_inv intro: barrier_step_inv)

section \<open>Replies\<close>

definition new_replies :: "barrier \<Rightarrow> barrier \<Rightarrow> reply list" where
  "new_replies s t = drop (length (sent_replies s)) (sent_replies t)"

definition replies_for :: "NodeId list \<Rightarrow> barrier \<Rightarrow> reply list" where
  "replies_for ext s =
     map (\<lambda>(n, ch). (ch, n, scoped_result (causing_node ext s) s n)) (waiting_subscribers s)"

lemma new_replies_answer [simp]:
  "new_replies s s = []" "new_replies s (reported s) = []"
  "new_replies s (answer_subscribe_requests ext s) = replies_for ext s"
  "new_replies s (answer_subscribe_requests ext (reported s)) = replies_for ext s"
  by (simp_all add: new_replies_def replies_for_def causing_node_def scoped_result_def)

lemma new_replies_update:
  assumes "update_dataflow_status link s = (r, t)"
  shows "new_replies s t = [] \<or>
    local_nodes s = {} \<and> \<not> external_nodes s \<and> r = Inr AllNodesReady \<and> new_replies s t = replies_for [] s \<or>
    (\<exists>ext. local_nodes s = {} \<and> external_nodes s \<and> external_ready s = Some ext \<and>
       r = Inr (if ext = [] \<and> exited_before_subscribe s = [] then AllNodesReady else PendingStatus) \<and>
       new_replies s t = replies_for ext s)"
proof -
  have r: "r = fst (update_dataflow_status link s)" and t: "t = snd (update_dataflow_status link s)"
    using assms by simp_all
  show ?thesis
    by (cases "local_nodes s = {}"; cases "external_nodes s"; cases "external_ready s";
        cases "\<not> reported_init_to_coordinator s \<and> link \<noteq> SendOk")
      (simp_all add: r t update_eq)
qed

lemma new_replies_release:
  "handle_external_all_nodes_ready ext s = (st, t) \<Longrightarrow> new_replies s t = replies_for ext s"
  by (auto simp: handle_external_all_nodes_ready_def new_replies_def replies_for_def
      causing_node_def scoped_result_def)

lemma replies_for_ok:
  "exited_before_subscribe s = [] \<Longrightarrow> (ch, n, res) \<in> set (replies_for [] s) \<Longrightarrow> res = Inr ()"
  by (auto simp: replies_for_def causing_node_def scoped_result_def)

lemma replies_for_blame:
  "(ch, n, Inl c) \<in> set (replies_for ext s) \<Longrightarrow>
   n \<in> cohort s \<and> (n, ch) \<in> set (waiting_subscribers s) \<and>
   (c \<in> set (exited_before_subscribe s) \<or> c \<in> set ext)"
  by (auto simp: replies_for_def causing_node_def scoped_result_def
      split: if_splits option.splits list.splits)

lemma new_replies_source:
  assumes "update_dataflow_status link s = (r, t) \<or> handle_external_all_nodes_ready ext s = (st, t)"
    and "x \<in> set (new_replies s t)"
  obtains e where "x \<in> set (replies_for e s)" "e = [] \<or> e = ext \<or> external_ready s = Some e"
  using assms(1)
proof
  assume "update_dataflow_status link s = (r, t)"
  from new_replies_update [OF this] assms(2) that show thesis by auto
next
  assume "handle_external_all_nodes_ready ext s = (st, t)"
  from new_replies_release [OF this] assms(2) that show thesis by auto
qed

section \<open>Properties\<close>


definition waiting_for_b :: barrier where
  "waiting_for_b =
     snd (handle_node_subscription (NodeId ''a'') 5 NoSender
       (set_external_nodes False (fold pending_insert [NodeId ''a'', NodeId ''b''] pending_new)))"

lemma waiting_for_b_reach: "barrier_reach waiting_for_b"
proof (rule barrier_reach.step)
  show "barrier_reach (set_external_nodes False (fold pending_insert [NodeId ''a'', NodeId ''b''] pending_new))"
    by (rule barrier_reach.enrolled)
  show "barrier_step (set_external_nodes False (fold pending_insert [NodeId ''a'', NodeId ''b''] pending_new))
      waiting_for_b"
    by (rule barrier_step.subscribe [where n = "NodeId ''a''" and ch = 5 and link = NoSender])
      (simp add: waiting_for_b_def prod_eq_iff)
qed

lemma waiting_for_b_views:
  "waiting_subscribers waiting_for_b = [(NodeId ''a'', 5)]"
  "local_nodes waiting_for_b = {NodeId ''b''}" "\<not> external_nodes waiting_for_b"
  "cohort waiting_for_b = {NodeId ''a'', NodeId ''b''}" "exited_before_subscribe waiting_for_b = []"
  by (auto simp: waiting_for_b_def handle_node_subscription_def update_eq set_external_nodes_def
      pending_insert_def pending_new_def)


text \<open>C10: on a dataflow that spans daemons the start verdict agrees with the replies: when an event or the
  coordinator's release makes the barrier report that all nodes are ready, every reply sent on
  that occasion is a success.\<close>

theorem barrier_verdict_agrees_with_replies:
  "external_nodes s \<and> update_dataflow_status link s = (Inr AllNodesReady, t) \<or>
   handle_external_all_nodes_ready ext s = (AllNodesReady, t) \<Longrightarrow>
   (ch, n, res) \<in> set (new_replies s t) \<Longrightarrow> res = Inr ()"
proof (erule disjE)
  assume r: "(ch, n, res) \<in> set (new_replies s t)"
  {
    assume "external_nodes s \<and> update_dataflow_status link s = (Inr AllNodesReady, t)"
    with new_replies_update [of link s "Inr AllNodesReady" t] r show "res = Inr ()"
      by (auto dest: replies_for_ok split: if_splits)
  next
    assume h: "handle_external_all_nodes_ready ext s = (AllNodesReady, t)"
    then have "ext = [] \<and> exited_before_subscribe s = []"
      by (auto simp: handle_external_all_nodes_ready_def split: if_splits)
    with new_replies_release [OF h] r show "res = Inr ()"
      by (auto dest: replies_for_ok)
  }
qed

theorem barrier_verdict_agrees_with_replies_witness:
  "\<exists>t. handle_external_all_nodes_ready [] waiting_for_b = (AllNodesReady, t) \<and>
     (5, NodeId ''a'', Inr ()) \<in> set (new_replies waiting_for_b t)"
proof -
  obtain t where t: "handle_external_all_nodes_ready [] waiting_for_b = (AllNodesReady, t)"
    by (simp add: handle_external_all_nodes_ready_def waiting_for_b_views)
  have "\<exists>res. (5, NodeId ''a'', res) \<in> set (new_replies waiting_for_b t)"
    by (simp add: new_replies_release [OF t] replies_for_def waiting_for_b_views)
  with barrier_verdict_agrees_with_replies [of waiting_for_b SendOk t "[]" 5 "NodeId ''a''"] t
  show ?thesis by auto
qed

text \<open>a failed startup is reported only to nodes of the startup cohort that were waiting, and blames a
  node that really exited before subscribing, here or on another daemon.\<close>

theorem barrier_blame_is_scoped:
  "update_dataflow_status link s = (r, t) \<or> handle_external_all_nodes_ready ext s = (st, t) \<Longrightarrow>
   (ch, n, Inl c) \<in> set (new_replies s t) \<Longrightarrow>
   n \<in> cohort s \<and> (n, ch) \<in> set (waiting_subscribers s) \<and>
   (c \<in> set (exited_before_subscribe s) \<or> c \<in> set ext \<or> (\<exists>l. external_ready s = Some l \<and> c \<in> set l))"
  by (erule (1) new_replies_source) (auto dest: replies_for_blame)

text \<open>removing a node erases it from the barrier, and removing the last pending one of a dataflow on
  one daemon releases it: everyone else who waited is answered.\<close>

theorem removal_releases_barrier:
  "handle_node_removal n link s = (Inr st, t) \<Longrightarrow>
   n \<notin> local_nodes t \<and> n \<notin> cohort t \<and> n \<notin> fst ` set (waiting_subscribers t) \<and>
   n \<notin> set (exited_before_subscribe t) \<and>
   (local_nodes s \<subseteq> {n} \<and> \<not> external_nodes s \<longrightarrow>
      st = AllNodesReady \<and> waiting_subscribers t = [] \<and>
      (\<forall>m ch. map_of (waiting_subscribers s) m = Some ch \<and> m \<noteq> n \<longrightarrow>
         (\<exists>res. (ch, m, res) \<in> set (new_replies s t))))"
proof -
  let ?s = "s\<lparr>local_nodes := local_nodes s - {n}, cohort := cohort s - {n},
      waiting_subscribers := AList.delete n (waiting_subscribers s),
      exited_before_subscribe := filter (\<lambda>i. i \<noteq> n) (exited_before_subscribe s)\<rparr>"
  assume "handle_node_removal n link s = (Inr st, t)"
  then have up: "update_dataflow_status link ?s = (Inr st, t)"
    by (simp add: handle_node_removal_def)
  have erased: "n \<notin> local_nodes t \<and> n \<notin> cohort t \<and> n \<notin> fst ` set (waiting_subscribers t) \<and>
      n \<notin> set (exited_before_subscribe t)"
  proof -
    have "n \<notin> fst ` set (AList.delete n (waiting_subscribers s))"
      by (simp add: hm.dom_rem)
    moreover have "t = snd (update_dataflow_status link ?s)"
      using up by simp
    ultimately show ?thesis
      using update_frame [of link ?s] by auto
  qed
  have "st = AllNodesReady \<and> waiting_subscribers t = [] \<and>
      (\<forall>m ch. map_of (waiting_subscribers s) m = Some ch \<and> m \<noteq> n \<longrightarrow>
         (\<exists>res. (ch, m, res) \<in> set (new_replies s t)))"
    if "local_nodes s \<subseteq> {n}" "\<not> external_nodes s"
  proof -
    have "local_nodes s - {n} = {}" using that by auto
    then have "local_nodes ?s = {}" "\<not> external_nodes ?s" using that by simp_all
    with up have t: "st = AllNodesReady" "t = answer_subscribe_requests [] ?s"
      unfolding update_eq by auto
    have "(m, ch) \<in> set (AList.delete n (waiting_subscribers s))"
      if "map_of (waiting_subscribers s) m = Some ch" "m \<noteq> n" for m ch
      using that map_of_SomeD [of "AList.delete n (waiting_subscribers s)" m ch]
      by (simp add: delete_conv')
    then show ?thesis
      by (force simp: t new_replies_def)
  qed
  with erased show ?thesis by blast
qed

text \<open>C11: on a dataflow with only local nodes the barrier reports that all nodes are ready as soon as no
  node is pending, also when a node exited before subscribing: the last cohort node then gets
  an error reply naming it, and the dataflow is started nevertheless.\<close>

theorem single_daemon_ready_despite_loss:
  "\<not> external_nodes s \<Longrightarrow> local_nodes s \<subseteq> {n} \<Longrightarrow> n \<in> cohort s \<Longrightarrow>
   exited_before_subscribe s = c # cs \<Longrightarrow>
   \<exists>t. handle_node_subscription n ch link s = (Inr AllNodesReady, t) \<and>
     (ch, n, Inl c) \<in> set (sent_replies t)"
proof -
  assume h: "\<not> external_nodes s" "local_nodes s \<subseteq> {n}" "n \<in> cohort s"
    "exited_before_subscribe s = c # cs"
  then have "local_nodes s - {n} = {}" by auto
  moreover have "(n, ch) \<in> set (AList.update n ch (waiting_subscribers s))"
    by (rule map_of_SomeD) (simp add: update_conv')
  ultimately show ?thesis
    using h by (force simp: handle_node_subscription_def update_eq causing_node_def scoped_result_def)
qed

theorem single_daemon_ready_despite_loss_witness:
  "\<exists>t. handle_node_subscription (NodeId ''b'') 9 NoSender
       (snd (handle_node_stop (NodeId ''a'') NoSender
          (fold pending_insert [NodeId ''a'', NodeId ''b''] pending_new))) =
     (Inr AllNodesReady, t) \<and> (9, NodeId ''b'', Inl (NodeId ''a'')) \<in> set (sent_replies t)"
  by (rule single_daemon_ready_despite_loss)
    (auto simp: handle_node_stop_def update_eq pending_insert_def pending_new_def)

end
