(* ===== verification/Resolved_Nodes.thy ===== *)
theory Resolved_Nodes
  imports Input_Config
begin

text \<open>
  The nodes of a resolved dataflow descriptor, as far as the daemon reads them: \<open>ResolvedNode\<close>,
  \<open>CoreNodeKind\<close>, \<open>CustomNode\<close>, \<open>RuntimeNode\<close> (\<open>libraries/message/src/descriptor.rs\<close>), and the
  daemon's view of their inputs and outputs (\<open>CoreNodeKindExt\<close>, \<open>runtime_node_inputs\<close> and
  \<open>runtime_node_outputs\<close> in \<open>binaries/daemon/src/lib.rs\<close>, \<open>node_inputs\<close> in
  \<open>local_delivery.rs\<close>). The identifiers of an operator's inputs and outputs are prefixed with the
  operator's name by the panicking conversion \<open>DataId::from\<close>; a panic is \<open>None\<close>. The fields that
  only the spawner reads are left out.
\<close>

type_synonym input_map = "(DataId \<times> Input) list"

record OperatorDefinition =
  operator_id :: OperatorId
  operator_inputs :: input_map
  operator_outputs :: "DataId list"

datatype GitRepoRev = Branch string | Tag string | Rev string

datatype NodeSource = LocalSource | GitBranch string "GitRepoRev option"

record CustomNode =
  path :: string
  source :: NodeSource
  custom_inputs :: input_map
  custom_outputs :: "DataId list"

datatype CoreNodeKind = Runtime "OperatorDefinition list" | Custom CustomNode

record ResolvedNode =
  resolved_id :: NodeId
  kind :: CoreNodeKind

definition DYNAMIC_SOURCE :: string where
  "DYNAMIC_SOURCE = ''dynamic''"

section \<open>Inputs and outputs\<close>

text \<open>\<open>DataId::from(format!("{}/{id}", operator.id))\<close>.\<close>

definition operator_data_id :: "OperatorDefinition \<Rightarrow> DataId \<Rightarrow> DataId option" where
  "operator_data_id operator i =
     data_id_from_string (operator_str (operator_id operator) @ ''/'' @ data_str i)"

definition runtime_node_inputs :: "OperatorDefinition list \<Rightarrow> input_map option" where
  "runtime_node_inputs operators =
     map_option bm_from
       (those (concat
          (map (\<lambda>operator. map (\<lambda>(i, input). map_option (\<lambda>d. (d, input)) (operator_data_id operator i))
                 (operator_inputs operator)) operators)))"

definition runtime_node_outputs :: "OperatorDefinition list \<Rightarrow> DataId list option" where
  "runtime_node_outputs operators =
     map_option bs_of_list
       (those (concat
          (map (\<lambda>operator. map (operator_data_id operator) (operator_outputs operator)) operators)))"

definition node_inputs :: "ResolvedNode \<Rightarrow> input_map option" where
  "node_inputs node =
     (case kind node of
        Custom n \<Rightarrow> Some (custom_inputs n)
      | Runtime operators \<Rightarrow> runtime_node_inputs operators)"

text \<open>\<open>run_config().outputs\<close>; for a runtime node the inputs are computed as well.\<close>

definition run_config :: "CoreNodeKind \<Rightarrow> (input_map \<times> DataId list) option" where
  "run_config k =
     (case k of
        Runtime operators \<Rightarrow>
          (case runtime_node_inputs operators of
             None \<Rightarrow> None
           | Some inputs \<Rightarrow> map_option (Pair inputs) (runtime_node_outputs operators))
      | Custom n \<Rightarrow> Some (custom_inputs n, custom_outputs n))"

definition dynamic :: "CoreNodeKind \<Rightarrow> bool" where
  "dynamic k =
     (case k of
        Runtime _ \<Rightarrow> False
      | Custom n \<Rightarrow> source n = LocalSource \<and> path n = DYNAMIC_SOURCE)"

text \<open>\<open>input_is_backpressure\<close> of \<open>output_routing.rs\<close>.\<close>

definition input_is_backpressure :: "Input \<Rightarrow> bool" where
  "input_is_backpressure input \<longleftrightarrow> queue_policy input = Some Backpressure"

section \<open>Lemmas\<close>

text \<open>Joining two identifiers with a slash gives a valid identifier exactly when both are valid.\<close>

lemma str_split_join: "str_split c (a @ c # b) = str_split c a @ str_split c b"
  by (induction a) (auto split: list.splits)

lemma valid_data_id_join:
  "valid_data_id (a @ CHR ''/'' # b) \<longleftrightarrow> valid_data_id a \<and> valid_data_id b"
  by (auto simp: valid_data_id_def str_split_join data_char_ok_def)

lemma operator_data_id_None_iff:
  "valid_data_id (data_str i) \<Longrightarrow>
   operator_data_id operator i = None \<longleftrightarrow> \<not> valid_data_id (operator_str (operator_id operator))"
  using validate_data_id_ok_iff [of "operator_str (operator_id operator) @ CHR ''/'' # data_str i"]
  by (auto simp: operator_data_id_def data_id_from_string_def valid_data_id_join split: sum.splits)

lemma runtime_inputs_panic_iff:
  assumes "\<forall>operator\<in>set operators. \<forall>(i, input)\<in>set (operator_inputs operator). valid_data_id (data_str i)"
  shows "runtime_node_inputs operators = None \<longleftrightarrow>
     (\<exists>operator\<in>set operators. operator_inputs operator \<noteq> [] \<and>
        \<not> valid_data_id (operator_str (operator_id operator)))"
proof -
  have "None \<in> set (map (\<lambda>(i, input). map_option (\<lambda>d. (d, input)) (operator_data_id operator i))
        (operator_inputs operator)) \<longleftrightarrow>
      operator_inputs operator \<noteq> [] \<and> \<not> valid_data_id (operator_str (operator_id operator))"
    if "operator \<in> set operators" for operator
  proof -
    have "operator_data_id operator i = None \<longleftrightarrow> \<not> valid_data_id (operator_str (operator_id operator))"
      if "(i, input) \<in> set (operator_inputs operator)" for i input
      using assms \<open>operator \<in> set operators\<close> that by (intro operator_data_id_None_iff) auto
    then show ?thesis
      by (cases "operator_inputs operator") force+
  qed
  then show ?thesis
    by (auto simp: runtime_node_inputs_def those_None_iff)
qed

section \<open>Properties\<close>

text \<open>C25: the daemon panics while it collects the inputs of a runtime node exactly when an operator
  that has inputs carries a name that is not itself a valid data identifier: operator names are
  not validated, and the prefixed identifiers go through the panicking conversion.\<close>

theorem runtime_node_inputs_panic_iff:
  assumes "\<forall>operator\<in>set operators. \<forall>(i, input)\<in>set (operator_inputs operator). valid_data_id (data_str i)"
  shows "node_inputs \<lparr>resolved_id = n, kind = Runtime operators\<rparr> = None \<longleftrightarrow>
     (\<exists>operator\<in>set operators. operator_inputs operator \<noteq> [] \<and>
        \<not> valid_data_id (operator_str (operator_id operator)))"
  using runtime_inputs_panic_iff [OF assms] by (simp add: node_inputs_def)

definition spaced_operator :: OperatorDefinition where
  "spaced_operator =
     \<lparr> operator_id = OperatorId ''my op'',
       operator_inputs = [(DataId ''image'',
         \<lparr> mapping = User \<lparr> um_source = NodeId ''cam'', um_output = DataId ''image'' \<rparr>,
           queue_size = None, input_timeout = None, queue_policy = None \<rparr>)],
       operator_outputs = [] \<rparr>"

theorem runtime_node_inputs_panic_iff_witness:
  "node_inputs \<lparr>resolved_id = NodeId ''rt'', kind = Runtime [spaced_operator]\<rparr> = None"
proof -
  have "valid_data_id ''image''" "\<not> valid_data_id ''my op''"
    by (simp_all add: valid_data_id_def data_char_ok_def node_char_ok_def ascii_defs)
  then show ?thesis
    using runtime_node_inputs_panic_iff [of "[spaced_operator]" "NodeId ''rt''"]
    by (simp add: spaced_operator_def)
qed

end
