(* ===== verification/Output_Routing.thy ===== *)
theory Output_Routing
  imports Resolved_Nodes "HOL-Library.Product_Lexorder"
begin

text \<open>
  Which outputs of a node must stay on the daemon path and which consumers have to acknowledge
  before an output may be published directly: \<open>binaries/daemon/src/output_routing.rs\<close>, with the
  types \<open>OutputRouting\<close> and \<open>RequiredAcker\<close> of \<open>libraries/message/src/daemon_to_node.rs\<close>. The
  functions walk over the edges of a dataflow; the lemmas give the outcome per output in terms of
  the set of edges that leave it.
\<close>

type_synonym OutputId = "NodeId \<times> DataId"

datatype RequiredAcker = RequiredAcker NodeId DataId

record OutputRouting =
  daemon_only :: bool
  required_ackers :: "RequiredAcker set"

definition default_routing :: OutputRouting where
  "default_routing = \<lparr> daemon_only = False, required_ackers = {} \<rparr>"

definition pin :: "OutputRouting \<Rightarrow> OutputRouting" where
  "pin entry = entry\<lparr>daemon_only := True\<rparr>"

definition add_acker :: "NodeId \<Rightarrow> DataId \<Rightarrow> OutputRouting \<Rightarrow> OutputRouting" where
  "add_acker n i entry = entry\<lparr>required_ackers := insert (RequiredAcker n i) (required_ackers entry)\<rparr>"

section \<open>Routing at spawn time\<close>

type_synonym node_map = "(NodeId \<times> ResolvedNode) list"
type_synonym routing_map = "(NodeId \<times> (DataId \<times> OutputRouting) list) list"

text \<open>The inputs of every node, in the order of the map.\<close>

definition all_inputs :: "node_map \<Rightarrow> (ResolvedNode \<times> input_map) list option" where
  "all_inputs nodes = those (map (\<lambda>(_, c). map_option (Pair c) (node_inputs c)) nodes)"

text \<open>What one consumer input does to the entry of the output it reads.\<close>

definition route_entry ::
  "bool \<Rightarrow> bool \<Rightarrow> ResolvedNode \<Rightarrow> DataId \<Rightarrow> Input \<Rightarrow> OutputRouting \<Rightarrow> OutputRouting" where
  "route_entry consumer_local producer_routable consumer input_id input entry =
     (if input_is_backpressure input then pin entry
      else if dynamic (kind consumer) then (if \<not> consumer_local then pin entry else entry)
      else if consumer_local \<or> (producer_routable \<and> input_timeout input = None)
        then add_acker (resolved_id consumer) input_id entry
      else pin entry)"

definition route_input ::
  "NodeId set \<Rightarrow> NodeId set \<Rightarrow> ResolvedNode \<Rightarrow> DataId \<times> Input \<Rightarrow> routing_map \<Rightarrow> routing_map" where
  "route_input local_nodes routable consumer = (\<lambda>(input_id, input) routing.
     (case mapping input of
        User m \<Rightarrow>
          (case map_of routing (um_source m) of
             None \<Rightarrow> routing
           | Some outputs \<Rightarrow>
               AList.update (um_source m)
                 (AList.map_entry (um_output m)
                    (route_entry (resolved_id consumer \<in> local_nodes) (um_source m \<in> routable)
                       consumer input_id input) outputs) routing)
      | _ \<Rightarrow> routing))"

definition compute_output_routing ::
  "node_map \<Rightarrow> NodeId list \<Rightarrow> NodeId set \<Rightarrow> routing_map option" where
  "compute_output_routing nodes local_nodes routable =
     (case those (map (\<lambda>p. map_option (\<lambda>(_, outputs).
               (resolved_id p, map (\<lambda>out. (out, default_routing)) outputs)) (run_config (kind p)))
             (List.map_filter (map_of nodes) local_nodes)) of
        None \<Rightarrow> None
      | Some routing \<Rightarrow>
          (case all_inputs nodes of
             None \<Rightarrow> None
           | Some consumers \<Rightarrow>
               Some (fold (\<lambda>(c, inputs). fold (route_input (set local_nodes) routable c) inputs)
                       consumers (bm_from routing))))"

definition backpressured_outputs ::
  "node_map \<Rightarrow> (NodeId \<Rightarrow> bool) \<Rightarrow> (NodeId \<times> DataId list) list option" where
  "backpressured_outputs nodes consumers =
     (case all_inputs (filter (\<lambda>(_, c). consumers (resolved_id c)) nodes) of
        None \<Rightarrow> None
      | Some cs \<Rightarrow>
          Some (fold (\<lambda>(c, inputs). fold (\<lambda>(_, input) outputs.
                  if \<not> input_is_backpressure input then outputs
                  else (case mapping input of
                          User m \<Rightarrow> bm_entry (um_source m) [] (bs_insert (um_output m)) outputs
                        | _ \<Rightarrow> outputs)) inputs) cs []))"

section \<open>Routing of a node that enters a running dataflow\<close>

type_synonym mappings = "(OutputId \<times> (NodeId \<times> DataId) list) list"

definition added_node_backpressured_outputs ::
  "NodeId \<Rightarrow> DataId list \<Rightarrow> mappings \<Rightarrow> (NodeId \<Rightarrow> DataId \<Rightarrow> bool) \<Rightarrow> DataId list" where
  "added_node_backpressured_outputs n outputs mp requires_backpressure =
     filter (\<lambda>out. case map_of mp (n, out) of
                   None \<Rightarrow> False
                 | Some receivers \<Rightarrow> \<exists>(r, i)\<in>set receivers. requires_backpressure r i) outputs"

definition added_output_routing ::
  "OutputId \<Rightarrow> mappings \<Rightarrow> OutputId set \<Rightarrow> NodeId set \<Rightarrow> (NodeId \<Rightarrow> DataId \<Rightarrow> bool) \<Rightarrow> OutputRouting" where
  "added_output_routing output mp open_external dynamic_nodes requires_backpressure =
     (let routing = default_routing\<lparr>daemon_only := output \<in> open_external\<rparr>
      in case map_of mp output of
           Some (r # rs) \<Rightarrow>
             fold (\<lambda>(receiver, i) routing.
                if requires_backpressure receiver i then pin routing
                else if receiver \<notin> dynamic_nodes then add_acker receiver i routing
                else routing) (r # rs) routing
         | _ \<Rightarrow> pin routing)"

definition added_node_output_routing ::
  "NodeId \<Rightarrow> DataId list \<Rightarrow> mappings \<Rightarrow> OutputId set \<Rightarrow> NodeId set \<Rightarrow>
   (NodeId \<Rightarrow> DataId \<Rightarrow> bool) \<Rightarrow> (DataId \<times> OutputRouting) list" where
  "added_node_output_routing n outputs mp open_external dynamic_nodes requires_backpressure =
     map (\<lambda>out. (out, added_output_routing (n, out) mp open_external dynamic_nodes requires_backpressure)) outputs"

definition pin_backpressure_self_loops ::
  "NodeId \<Rightarrow> input_map \<Rightarrow> (DataId \<times> OutputRouting) list \<Rightarrow> (DataId \<times> OutputRouting) list" where
  "pin_backpressure_self_loops n inputs routing =
     fold (\<lambda>(_, input) routing.
        if input_is_backpressure input then
          (case mapping input of
             User m \<Rightarrow> if um_source m \<noteq> n then routing else AList.map_entry (um_output m) pin routing
           | _ \<Rightarrow> routing)
        else routing) inputs routing"

section \<open>The outcome per output\<close>

definition entry_of :: "routing_map \<Rightarrow> OutputId \<Rightarrow> OutputRouting option" where
  "entry_of routing = (\<lambda>(p, out). case map_of routing p of None \<Rightarrow> None | Some outs \<Rightarrow> map_of outs out)"

type_synonym edge = "ResolvedNode \<times> DataId \<times> Input"

definition reads :: "OutputId \<Rightarrow> edge \<Rightarrow> bool" where
  "reads oid = (\<lambda>(c, i, input). mapping input = User \<lparr>um_source = fst oid, um_output = snd oid\<rparr>)"

text \<open>The edges that keep an output on the daemon path, and those whose consumer must acknowledge.\<close>

definition provable :: "NodeId set \<Rightarrow> NodeId set \<Rightarrow> OutputId \<Rightarrow> edge \<Rightarrow> bool" where
  "provable local_nodes routable oid = (\<lambda>(c, i, input).
     resolved_id c \<in> local_nodes \<or> fst oid \<in> routable \<and> input_timeout input = None)"

definition pinning :: "NodeId set \<Rightarrow> NodeId set \<Rightarrow> OutputId \<Rightarrow> edge \<Rightarrow> bool" where
  "pinning local_nodes routable oid = (\<lambda>(c, i, input). reads oid (c, i, input) \<and>
     (input_is_backpressure input \<or>
      (if dynamic (kind c) then resolved_id c \<notin> local_nodes
       else \<not> provable local_nodes routable oid (c, i, input))))"

definition acking :: "NodeId set \<Rightarrow> NodeId set \<Rightarrow> OutputId \<Rightarrow> edge \<Rightarrow> bool" where
  "acking local_nodes routable oid = (\<lambda>(c, i, input). reads oid (c, i, input) \<and>
     \<not> input_is_backpressure input \<and> \<not> dynamic (kind c) \<and>
     provable local_nodes routable oid (c, i, input))"

definition edges_of :: "(ResolvedNode \<times> input_map) list \<Rightarrow> edge list" where
  "edges_of cs = concat (map (\<lambda>(c, inputs). map (Pair c) inputs) cs)"

definition routed :: "NodeId set \<Rightarrow> NodeId set \<Rightarrow> edge list \<Rightarrow> OutputId \<Rightarrow> OutputRouting \<Rightarrow> OutputRouting" where
  "routed local_nodes routable es oid entry =
     \<lparr> daemon_only = (daemon_only entry \<or> (\<exists>e\<in>set es. pinning local_nodes routable oid e)),
       required_ackers = required_ackers entry \<union>
         {RequiredAcker (resolved_id c) i |c i input.
            (c, i, input) \<in> set es \<and> acking local_nodes routable oid (c, i, input)} \<rparr>"

lemma routed_unread: "\<not> reads oid e \<Longrightarrow> routed local_nodes routable [e] oid = id"
  by (cases e) (auto simp: routed_def pinning_def acking_def fun_eq_iff)

lemma routed_read:
  "reads (p, out) (c, i, input) \<Longrightarrow>
   routed local_nodes routable [(c, i, input)] (p, out) =
     route_entry (resolved_id c \<in> local_nodes) (p \<in> routable) c i input"
  by (rule ext)
    (auto simp: routed_def route_entry_def pin_def add_acker_def pinning_def acking_def provable_def)

lemma entry_route_input:
  "entry_of (route_input local_nodes routable c (i, input) routing) oid =
     map_option (routed local_nodes routable [(c, i, input)] oid) (entry_of routing oid)"
proof (cases "reads oid (c, i, input)")
  case False
  then show ?thesis
    by (cases oid)
      (auto simp: routed_unread option.map_id0 route_input_def entry_of_def reads_def update_conv'
        map_of_map_entry split: InputMapping.splits option.splits)
next
  case True
  then show ?thesis
    by (cases oid)
      (auto simp: routed_read route_input_def entry_of_def update_conv' map_of_map_entry
        reads_def split: option.splits)
qed

lemma routed_append:
  "routed local_nodes routable (es @ es') oid entry =
     routed local_nodes routable es' oid (routed local_nodes routable es oid entry)"
  by (auto simp: routed_def)

lemma routed_Nil [simp]: "routed local_nodes routable [] oid = id"
  by (auto simp: routed_def)

lemma entry_fold_inputs:
  "entry_of (fold (route_input local_nodes routable c) inputs routing) oid =
     map_option (routed local_nodes routable (map (Pair c) inputs) oid) (entry_of routing oid)"
proof (induction inputs arbitrary: routing)
  case (Cons x inputs)
  obtain i input where "x = (i, input)" by (cases x)
  with Cons show ?case
    using routed_append [of local_nodes routable "[(c, i, input)]" "map (Pair c) inputs"]
    by (simp add: entry_route_input option.map_comp comp_def)
qed (simp add: option.map_id0)

lemma entry_fold_consumers:
  "entry_of (fold (\<lambda>(c, inputs). fold (route_input local_nodes routable c) inputs) cs routing) oid =
     map_option (routed local_nodes routable (edges_of cs) oid) (entry_of routing oid)"
proof (induction cs arbitrary: routing)
  case (Cons x cs)
  obtain c inputs where "x = (c, inputs)" by (cases x)
  with Cons show ?case
    by (simp add: edges_of_def entry_fold_inputs routed_append option.map_comp comp_def)
qed (simp add: edges_of_def option.map_id0)

section \<open>Properties\<close>

text \<open>Every key of the node map is the identifier of its node.\<close>

definition well_keyed :: "node_map \<Rightarrow> bool" where
  "well_keyed nodes \<longleftrightarrow> (\<forall>(k, n)\<in>set nodes. resolved_id n = k) \<and> distinct (map fst nodes)"

definition declares :: "node_map \<Rightarrow> OutputId \<Rightarrow> bool" where
  "declares nodes = (\<lambda>(p, out). \<exists>n inputs outputs. map_of nodes p = Some n \<and>
     run_config (kind n) = Some (inputs, outputs) \<and> out \<in> set outputs)"

definition dataflow_edge :: "node_map \<Rightarrow> edge \<Rightarrow> bool" where
  "dataflow_edge nodes = (\<lambda>(c, i, input). \<exists>k inputs. (k, c) \<in> set nodes \<and>
     node_inputs c = Some inputs \<and> (i, input) \<in> set inputs)"

lemma map_of_consistent:
  "\<forall>k v v'. (k, v) \<in> set kvs \<and> (k, v') \<in> set kvs \<longrightarrow> v = v' \<Longrightarrow>
   map_of kvs k = Some v \<longleftrightarrow> (k, v) \<in> set kvs"
  by (metis map_of_SomeD map_of_eq_None_iff option.exhaust option.inject fst_conv image_eqI)

lemma set_edges_of:
  assumes "all_inputs nodes = Some cs"
  shows "e \<in> set (edges_of cs) \<longleftrightarrow> dataflow_edge nodes e"
proof -
  have cs: "map (\<lambda>(_, c). map_option (Pair c) (node_inputs c)) nodes = map Some cs"
    using assms by (simp add: all_inputs_def those_Some_iff)
  have "(c, inputs) \<in> set cs \<longleftrightarrow> (\<exists>k. (k, c) \<in> set nodes \<and> node_inputs c = Some inputs)" for c inputs
  proof -
    have "(c, inputs) \<in> set cs \<longleftrightarrow> Some (c, inputs) \<in> set (map Some cs)" by auto
    also have "\<dots> \<longleftrightarrow> (\<exists>k. (k, c) \<in> set nodes \<and> node_inputs c = Some inputs)"
      unfolding cs [symmetric] set_map image_iff split_beta eq_commute [of "Some (c, inputs)"]
      by (force simp: map_option_eq_Some)
    finally show ?thesis .
  qed
  then show ?thesis
    by (cases e) (force simp: edges_of_def dataflow_edge_def)
qed

lemma initial_entry:
  assumes keyed: "well_keyed nodes"
    and init: "those (map (\<lambda>p. map_option (\<lambda>(_, outputs).
               (resolved_id p, map (\<lambda>out. (out, default_routing)) outputs)) (run_config (kind p)))
             (List.map_filter (map_of nodes) local_nodes)) = Some kvs"
  shows "entry_of (bm_from kvs) (p, out) =
     (if p \<in> set local_nodes \<and> declares nodes (p, out) then Some default_routing else None)"
proof -
  have id: "resolved_id n = k" if "map_of nodes k = Some n" for k n
    using keyed map_of_SomeD [OF that] by (auto simp: well_keyed_def)
  have mem: "(k, v) \<in> set kvs \<longleftrightarrow> (\<exists>n inputs outputs. k \<in> set local_nodes \<and> map_of nodes k = Some n \<and>
      run_config (kind n) = Some (inputs, outputs) \<and> v = map (\<lambda>out. (out, default_routing)) outputs)"
    for k v
  proof -
    have "(k, v) \<in> set kvs \<longleftrightarrow> Some (k, v) \<in> set (map Some kvs)" by auto
    also have "\<dots> \<longleftrightarrow> (\<exists>k'\<in>set local_nodes. \<exists>n. map_of nodes k' = Some n \<and>
        map_option (\<lambda>(_, outputs). (resolved_id n, map (\<lambda>out. (out, default_routing)) outputs))
          (run_config (kind n)) = Some (k, v))"
      using init [unfolded those_Some_iff, symmetric]
      by (auto simp: List.map_filter_def image_iff eq_commute [of "Some (k, v)"]) blast
    finally show ?thesis
      using id by (auto simp: map_option_eq_Some) blast
  qed
  have "\<forall>k v v'. (k, v) \<in> set (rev kvs) \<and> (k, v') \<in> set (rev kvs) \<longrightarrow> v = v'"
    by (auto simp: mem)
  from map_of_consistent [OF this]
  have "map_of (rev kvs) k = Some v \<longleftrightarrow> (k, v) \<in> set kvs" for k v
    by auto
  then have lookup: "map_of (bm_from kvs) k = Some v \<longleftrightarrow> (k, v) \<in> set kvs" for k v
    by (simp add: map_of_bm_from)
  show ?thesis
  proof (cases "map_of (bm_from kvs) p")
    case None
    then have "\<forall>v. (p, v) \<notin> set kvs" using lookup by force
    then show ?thesis using None by (auto simp: entry_of_def declares_def mem)
  next
    case (Some v)
    then show ?thesis
      using lookup [of p v] by (auto simp: entry_of_def declares_def mem map_of_map_restrict map_of_eq_None_iff)
  qed
qed


definition camera :: ResolvedNode where
  "camera = \<lparr> resolved_id = NodeId ''cam'', kind = Custom
     \<lparr> path = ''cam'', source = LocalSource, custom_inputs = [], custom_outputs = [DataId ''image''] \<rparr> \<rparr>"

definition viewer :: "NodeId \<Rightarrow> QueuePolicy option \<Rightarrow> ResolvedNode" where
  "viewer n policy = \<lparr> resolved_id = n, kind = Custom
     \<lparr> path = ''view'', source = LocalSource,
       custom_inputs = [(DataId ''in'', \<lparr> mapping = User \<lparr> um_source = NodeId ''cam'', um_output = DataId ''image'' \<rparr>,
         queue_size = None, input_timeout = None, queue_policy = policy \<rparr>)],
       custom_outputs = [] \<rparr> \<rparr>"


section \<open>A node that enters a running dataflow\<close>

definition receivers_of :: "mappings \<Rightarrow> OutputId \<Rightarrow> (NodeId \<times> DataId) list" where
  "receivers_of mp oid = (case map_of mp oid of None \<Rightarrow> [] | Some rs \<Rightarrow> rs)"

definition self_loop :: "NodeId \<Rightarrow> DataId \<Rightarrow> input_map \<Rightarrow> bool" where
  "self_loop n out inputs \<longleftrightarrow> (\<exists>(i, input)\<in>set inputs. input_is_backpressure input \<and>
     mapping input = User \<lparr>um_source = n, um_output = out\<rparr>)"

lemma added_fold_views:
  "daemon_only (fold (\<lambda>(r, i) e. if bp r i then pin e else if r \<notin> dyn then add_acker r i e else e) rs e) =
     (daemon_only e \<or> (\<exists>(r, i)\<in>set rs. bp r i))"
  "required_ackers (fold (\<lambda>(r, i) e. if bp r i then pin e else if r \<notin> dyn then add_acker r i e else e) rs e) =
     required_ackers e \<union> {RequiredAcker r i |r i. (r, i) \<in> set rs \<and> \<not> bp r i \<and> r \<notin> dyn}"
  by (induction rs arbitrary: e) (auto simp: pin_def add_acker_def split: if_splits)

lemma added_output_eq:
  "added_output_routing oid mp ext dyn bp =
     (let routing = default_routing\<lparr>daemon_only := oid \<in> ext\<rparr>
      in if receivers_of mp oid = [] then pin routing
         else fold (\<lambda>(r, i) e. if bp r i then pin e else if r \<notin> dyn then add_acker r i e else e)
                (receivers_of mp oid) routing)"
  by (simp add: added_output_routing_def receivers_of_def Let_def split: option.split list.split)

lemma added_output_views:
  "daemon_only (added_output_routing oid mp ext dyn bp) =
     (oid \<in> ext \<or> receivers_of mp oid = [] \<or> (\<exists>(r, i)\<in>set (receivers_of mp oid). bp r i))"
  "required_ackers (added_output_routing oid mp ext dyn bp) =
     {RequiredAcker r i |r i. (r, i) \<in> set (receivers_of mp oid) \<and> \<not> bp r i \<and> r \<notin> dyn}"
  by (auto simp: added_output_eq added_fold_views default_routing_def pin_def Let_def)

lemma user_mapping_eq: "m = \<lparr>um_source = n, um_output = out\<rparr> \<longleftrightarrow> um_source m = n \<and> um_output m = out"
  by (cases m) auto

lemma pin_self_loops_lookup:
  "map_of (pin_backpressure_self_loops n inputs routing) out =
     map_option (\<lambda>e. if self_loop n out inputs then pin e else e) (map_of routing out)"
proof (induction inputs arbitrary: routing)
  case Nil
  then show ?case
    by (simp add: pin_backpressure_self_loops_def self_loop_def option.map_ident)
next
  case (Cons x inputs)
  obtain i input where x: "x = (i, input)" by (cases x)
  let ?hit = "input_is_backpressure input \<and> mapping input = User \<lparr>um_source = n, um_output = out\<rparr>"
  let ?r = "if input_is_backpressure input then
          (case mapping input of
             User m \<Rightarrow> if um_source m \<noteq> n then routing else AList.map_entry (um_output m) pin routing
           | _ \<Rightarrow> routing)
        else routing"
  have step: "pin_backpressure_self_loops n (x # inputs) routing = pin_backpressure_self_loops n inputs ?r"
    by (simp add: x pin_backpressure_self_loops_def)
  have r: "map_of ?r out = map_option (\<lambda>e. if ?hit then pin e else e) (map_of routing out)"
    by (cases "mapping input"; cases "map_of routing out")
      (auto simp: map_of_map_entry user_mapping_eq split: option.splits)
  have "self_loop n out (x # inputs) \<longleftrightarrow> ?hit \<or> self_loop n out inputs"
    by (simp add: x self_loop_def)
  then show ?case
    unfolding step Cons.IH r by (cases "map_of routing out") (auto simp: pin_def)
qed

text \<open>the routing of a node that is added to, or replaced in, a running dataflow. Each of its
  outputs stays on the daemon path iff it is forwarded to another daemon, has no receiver yet, or
  feeds an input with the backpressure policy, of another node or of the node itself; otherwise
  it waits for exactly its static receivers. In particular no output whose producer must be
  held back is published directly.\<close>

theorem added_node_routing_exact:
  assumes "out \<in> set outputs"
  shows "map_of (pin_backpressure_self_loops n inputs
       (added_node_output_routing n outputs mp ext dyn bp)) out =
     Some \<lparr> daemon_only = ((n, out) \<in> ext \<or> receivers_of mp (n, out) = [] \<or>
              (\<exists>(r, i)\<in>set (receivers_of mp (n, out)). bp r i) \<or> self_loop n out inputs),
            required_ackers = {RequiredAcker r i |r i.
              (r, i) \<in> set (receivers_of mp (n, out)) \<and> \<not> bp r i \<and> r \<notin> dyn} \<rparr>"
proof -
  have "map_of (added_node_output_routing n outputs mp ext dyn bp) out =
      Some (added_output_routing (n, out) mp ext dyn bp)"
    unfolding added_node_output_routing_def using assms by (induction outputs) auto
  then show ?thesis
    by (auto simp: pin_self_loops_lookup pin_def added_output_views intro!: OutputRouting.equality)
qed

text \<open>An output counted as backpressured when a node enters is on the daemon path.\<close>

lemma added_backpressured_pinned:
  "out \<in> set (added_node_backpressured_outputs n outputs mp bp) \<Longrightarrow>
   daemon_only (added_output_routing (n, out) mp ext dyn bp)"
  by (auto simp: added_node_backpressured_outputs_def added_output_views receivers_of_def
      split: option.splits)

end
