(* ===== verification/Dataflow_State.thy ===== *)
theory Dataflow_State
  imports Output_Routing Node_Events Pending_Barrier
begin

text \<open>
  The daemon's state of one running dataflow: \<open>RunningNode\<close> and \<open>RunningDataflow\<close> of
  \<open>binaries/daemon/src/running_dataflow.rs\<close>, the bounded event channels to the nodes with
  \<open>send_with_timestamp\<close> (\<open>event_types.rs\<close>), and the queries and small updates on that state.

  Objects that the source shares by reference (event channels, pending counters, drain signals,
  process handles) live in stores indexed by numbers; a map from node to sender is a map from
  node to number. Dropping the receiving end of a channel empties and closes it. Points in time
  and durations are natural numbers of nanoseconds (milliseconds where the source says so).
  Time stamps of events, tracing, the zenoh objects other than the set of declared publishers, and
  network counters are left out.
\<close>

section \<open>Event channels\<close>

definition NODE_EVENT_CHANNEL_CAPACITY :: nat where
  "NODE_EVENT_CHANNEL_CAPACITY = 1000"

definition CONTROL_EVENT_HEADROOM :: nat where
  "CONTROL_EVENT_HEADROOM = 50"

record 'x channel =
  ch_queue :: "'x NodeEvent list"
  ch_closed :: bool

definition ch_capacity :: "'x channel \<Rightarrow> nat" where
  "ch_capacity c = NODE_EVENT_CHANNEL_CAPACITY - length (ch_queue c)"

definition new_channel :: "'x channel" where
  "new_channel = \<lparr> ch_queue = [], ch_closed = False \<rparr>"

definition close_channel :: "'x channel \<Rightarrow> 'x channel" where
  "close_channel c = \<lparr> ch_queue = [], ch_closed = True \<rparr>"

datatype send_outcome = Sent | Full | Closed

text \<open>\<open>mpsc::Sender::try_send\<close>.\<close>

definition try_send :: "'x NodeEvent \<Rightarrow> 'x channel \<Rightarrow> send_outcome \<times> 'x channel" where
  "try_send e c =
     (if ch_closed c then (Closed, c)
      else if ch_capacity c = 0 then (Full, c)
      else (Sent, c\<lparr>ch_queue := ch_queue c @ [e]\<rparr>))"

definition is_data :: "'x NodeEvent \<Rightarrow> bool" where
  "is_data e \<longleftrightarrow> (case e of InputEvent _ _ _ \<Rightarrow> True | _ \<Rightarrow> False)"

text \<open>\<open>Ok(true)\<close> is \<open>Sent\<close>, \<open>Ok(false)\<close> is \<open>Full\<close>, an error is \<open>Closed\<close>.\<close>

definition send_with_timestamp :: "'x NodeEvent \<Rightarrow> 'x channel \<Rightarrow> send_outcome \<times> 'x channel" where
  "send_with_timestamp e c =
     (if is_data e \<and> ch_capacity c < CONTROL_EVENT_HEADROOM then (Full, c) else try_send e c)"

record DrainSignal =
  gave_up :: bool
  stream_dropped :: bool

section \<open>Nodes and dataflows\<close>

record InputDeadline =
  timeout :: Duration
  last_received :: "nat option"

definition is_timed_out :: "nat \<Rightarrow> InputDeadline \<Rightarrow> bool" where
  "is_timed_out now d =
     (case last_received d of None \<Rightarrow> False | Some t \<Rightarrow> timeout d < now - t)"

datatype RestartPolicy = Never | OnFailure | Always

record RunningNode =
  process :: "nat option"
  generation :: nat
  generation_counter :: nat
  node_dynamic :: bool
  config_inputs :: input_map
  output_routing :: "(DataId \<times> OutputRouting) list option"
  restart_policy :: RestartPolicy
  disable_restart :: bool
  force_restart_next :: bool
  last_activity :: nat
  spawned_at :: nat
  startup_kill_sent :: bool
  health_check_timeout :: "Duration option"
  startup_timeout :: "Duration option"
  finish_grace_secs :: "Duration option"

datatype ProcessOperation = SoftKill | Kill

datatype StopProcessPolicy = Force | Graceful Duration

record LogSubscriber =
  sub_node :: NodeId
  sub_input :: DataId
  sub_filter :: LogSubscriptionFilter

text \<open>A task that waits out the grace period and then stops a process in two steps.\<close>

record kill_task =
  task_node :: NodeId
  task_generation :: nat
  task_process :: nat
  task_grace :: Duration

record 'x shared =
  channels :: "nat \<Rightarrow> 'x channel"
  counters :: "nat \<Rightarrow> 64 word"
  signals :: "nat \<Rightarrow> DrainSignal"
  handle_open :: "nat \<Rightarrow> bool"
  submitted :: "(nat \<times> ProcessOperation) list"
  kill_tasks :: "kill_task list"

record 'x RunningDataflow = "'x shared" +
  pending_nodes :: barrier
  dataflow_started :: bool
  subscribe_channels :: "(NodeId \<times> nat) list"
  pending_messages :: "(NodeId \<times> nat) list"
  drain_signals :: "(NodeId \<times> nat) list"
  remote_backpressured_outputs :: "OutputId set"
  edge_mappings :: mappings
  missing_channel_warned :: "(NodeId \<times> DataId) set"
  dropped_event_streams :: "NodeId set"
  timers :: "(Duration \<times> (NodeId \<times> DataId) list) list"
  log_subscribers :: "LogSubscriber list"
  open_inputs_map :: "(NodeId \<times> DataId set) list"
  input_deadlines :: "((NodeId \<times> DataId) \<times> InputDeadline) list"
  broken_inputs :: "((NodeId \<times> DataId) \<times> Duration) list"
  running_nodes :: "(NodeId \<times> RunningNode) list"
  dynamic_nodes :: "NodeId set"
  open_external_mappings :: "OutputId list"
  timer_handles :: "Duration set"
  all_inputs_closed_at :: "(NodeId \<times> nat) list"
  connected_nodes :: "NodeId set"
  finish_escalated :: "NodeId set"
  data_inputs :: "(NodeId \<times> DataId set) list"
  timers_gate_drain :: bool
  stop_sent :: bool
  stop_process_policy :: "StopProcessPolicy option"
  grace_duration_kills :: "(NodeId \<times> nat) set"
  startup_timeout_marks :: "(NodeId \<times> nat) set"
  node_stderr_most_recent :: "(NodeId \<times> string list) list"
  publishers :: "OutputId set"
  ft_stats :: FaultToleranceStats

definition new_dataflow :: "'x RunningDataflow" where
  "new_dataflow =
     \<lparr> channels = (\<lambda>_. new_channel), counters = (\<lambda>_. 0),
       signals = (\<lambda>_. \<lparr> gave_up = False, stream_dropped = False \<rparr>), handle_open = (\<lambda>_. False),
       submitted = [], kill_tasks = [],
       pending_nodes = pending_new, dataflow_started = False, subscribe_channels = [],
       pending_messages = [], drain_signals = [], remote_backpressured_outputs = {},
       edge_mappings = [], missing_channel_warned = {}, dropped_event_streams = {}, timers = [],
       log_subscribers = [], open_inputs_map = [], input_deadlines = [], broken_inputs = [],
       running_nodes = [], dynamic_nodes = {}, open_external_mappings = [], timer_handles = {},
       all_inputs_closed_at = [], connected_nodes = {}, finish_escalated = {}, data_inputs = [],
       timers_gate_drain = True, stop_sent = False, stop_process_policy = None,
       grace_duration_kills = {}, startup_timeout_marks = {}, node_stderr_most_recent = [],
       publishers = {},
       ft_stats = \<lparr> restarts = 0, health_check_kills = 0, startup_timeout_kills = 0, input_timeouts = 0,
         circuit_breaker_recoveries = 0, dropped_messages = 0, lost_backpressure_messages = 0 \<rparr> \<rparr>"

section \<open>Queries\<close>

definition open_inputs :: "NodeId \<Rightarrow> 'x RunningDataflow \<Rightarrow> DataId set" where
  "open_inputs n df = (case map_of (open_inputs_map df) n of None \<Rightarrow> {} | Some is \<Rightarrow> is)"

definition is_drained :: "NodeId \<Rightarrow> 'x RunningDataflow \<Rightarrow> bool" where
  "is_drained n df =
     (let opn = open_inputs n df in
      if timers_gate_drain df then opn = {}
      else (case map_of (data_inputs df) n of
              None \<Rightarrow> False
            | Some inputs \<Rightarrow> inputs \<noteq> {} \<and> inputs \<inter> opn = {}))"

definition has_broken_input :: "NodeId \<Rightarrow> 'x RunningDataflow \<Rightarrow> bool" where
  "has_broken_input n df \<longleftrightarrow> (\<exists>((m, i), t)\<in>set (broken_inputs df). m = n)"

definition is_finished :: "NodeId \<Rightarrow> 'x RunningDataflow \<Rightarrow> bool" where
  "is_finished n df \<longleftrightarrow> is_drained n df \<and> \<not> has_broken_input n df"

definition has_data_input :: "NodeId \<Rightarrow> 'x RunningDataflow \<Rightarrow> bool" where
  "has_data_input n df \<longleftrightarrow> (case map_of (data_inputs df) n of None \<Rightarrow> False | Some inputs \<Rightarrow> inputs \<noteq> {})"

definition is_finished_non_source :: "NodeId \<Rightarrow> 'x RunningDataflow \<Rightarrow> bool" where
  "is_finished_non_source n df \<longleftrightarrow> is_finished n df \<and> has_data_input n df"

definition input_requires_backpressure :: "NodeId \<Rightarrow> DataId \<Rightarrow> 'x RunningDataflow \<Rightarrow> bool" where
  "input_requires_backpressure receiver i df =
     (case map_of (running_nodes df) receiver of
        None \<Rightarrow> False
      | Some node \<Rightarrow> (case map_of (config_inputs node) i of None \<Rightarrow> False | Some input \<Rightarrow> input_is_backpressure input))"

definition backpressured_outputs_of :: "NodeId \<Rightarrow> DataId list \<Rightarrow> 'x RunningDataflow \<Rightarrow> DataId list" where
  "backpressured_outputs_of n outputs df =
     added_node_backpressured_outputs n outputs (edge_mappings df)
       (\<lambda>r i. input_requires_backpressure r i df)"

text \<open>The first input of an entering node that asks for backpressure from a producer that already
  publishes directly.\<close>

definition unpinnable :: "NodeId \<Rightarrow> 'x RunningDataflow \<Rightarrow> Input \<Rightarrow> OutputId option" where
  "unpinnable n df input =
     (if \<not> input_is_backpressure input then None
      else (case mapping input of
              User m \<Rightarrow>
                (if um_source m = n then None
                 else (case map_of (running_nodes df) (um_source m) of
                         None \<Rightarrow> None
                       | Some producer \<Rightarrow>
                           (let pinned =
                              (case output_routing producer of
                                 None \<Rightarrow> True
                               | Some routing \<Rightarrow>
                                   (case map_of routing (um_output m) of
                                      None \<Rightarrow> False
                                    | Some r \<Rightarrow> daemon_only r))
                            in if pinned then None else Some (um_source m, um_output m))))
            | _ \<Rightarrow> None))"

fun unpinnable_backpressure_input ::
  "NodeId \<Rightarrow> input_map \<Rightarrow> 'x RunningDataflow \<Rightarrow> (DataId \<times> OutputId) option" where
  "unpinnable_backpressure_input n [] df = None"
| "unpinnable_backpressure_input n ((i, input) # inputs) df =
     (case unpinnable n df input of
        Some oid \<Rightarrow> Some (i, oid)
      | None \<Rightarrow> unpinnable_backpressure_input n inputs df)"

definition node_output_ids :: "NodeId \<Rightarrow> 'x RunningDataflow \<Rightarrow> DataId list" where
  "node_output_ids n df =
     bs_of_list (map snd (filter (\<lambda>oid. fst oid = n)
       (map fst (edge_mappings df) @ open_external_mappings df)))"

definition should_start_on_barrier_completion :: "DataflowStatus \<Rightarrow> 'x RunningDataflow \<Rightarrow> bool" where
  "should_start_on_barrier_completion status df \<longleftrightarrow>
     status = AllNodesReady \<and> \<not> dataflow_started df \<and> \<not> stop_sent df"

datatype FinishDataflowWhen = FinishNow | WaitForNodes

definition should_finish_immediately :: "'x RunningDataflow \<Rightarrow> FinishDataflowWhen" where
  "should_finish_immediately df =
     (if \<not> local_nodes_pending (pending_nodes df) \<and>
         (\<forall>(n, node)\<in>set (running_nodes df). node_dynamic node) \<and> stop_sent df
      then FinishNow else WaitForNodes)"

section \<open>Updates\<close>

definition update_node :: "NodeId \<Rightarrow> (RunningNode \<Rightarrow> RunningNode) \<Rightarrow> 'x RunningDataflow \<Rightarrow> 'x RunningDataflow" where
  "update_node n f df = df\<lparr>running_nodes := AList.map_entry n f (running_nodes df)\<rparr>"

definition node_disable_restart :: "RunningNode \<Rightarrow> RunningNode" where
  "node_disable_restart node = node\<lparr>disable_restart := True\<rparr>"

definition inc_pending :: "NodeId \<Rightarrow> 'x RunningDataflow \<Rightarrow> 'x RunningDataflow" where
  "inc_pending n df =
     (case map_of (pending_messages df) n of
        None \<Rightarrow> df
      | Some k \<Rightarrow> df\<lparr>counters := (counters df)(k := counters df k + 1)\<rparr>)"

definition send_to :: "nat \<Rightarrow> 'x NodeEvent \<Rightarrow> 'x RunningDataflow \<Rightarrow> send_outcome \<times> 'x RunningDataflow" where
  "send_to c e df =
     (case send_with_timestamp e (channels df c) of
        (r, ch) \<Rightarrow> (r, df\<lparr>channels := (channels df)(c := ch)\<rparr>))"

text \<open>The pattern of every delivery site: a successful send is counted.\<close>

definition deliver :: "NodeId \<Rightarrow> nat \<Rightarrow> 'x NodeEvent \<Rightarrow> 'x RunningDataflow \<Rightarrow> 'x RunningDataflow" where
  "deliver n c e df =
     (case send_to c e df of
        (Sent, df) \<Rightarrow> inc_pending n df
      | (_, df) \<Rightarrow> df)"

text \<open>\<open>open_inputs.entry(n).or_default().insert(i)\<close>.\<close>

definition add_input :: "NodeId \<Rightarrow> DataId \<Rightarrow> (NodeId \<times> DataId set) list \<Rightarrow> (NodeId \<times> DataId set) list" where
  "add_input n i m = bm_entry n {} (insert i) m"

definition add_mapping ::
  "NodeId \<Rightarrow> DataId \<Rightarrow> NodeId \<Rightarrow> DataId \<Rightarrow> 'x RunningDataflow \<Rightarrow> 'x RunningDataflow" where
  "add_mapping source_node source_output target_node target_input df =
     df\<lparr>edge_mappings := AList.update (source_node, source_output)
            (bs_insert (target_node, target_input)
               (receivers_of (edge_mappings df) (source_node, source_output))) (edge_mappings df),
        all_inputs_closed_at := AList.delete target_node (all_inputs_closed_at df),
        open_inputs_map := add_input target_node target_input (open_inputs_map df),
        data_inputs := add_input target_node target_input (data_inputs df)\<rparr>"

definition forget_node_bookkeeping :: "NodeId \<Rightarrow> 'x RunningDataflow \<Rightarrow> 'x RunningDataflow" where
  "forget_node_bookkeeping n df =
     df\<lparr>input_deadlines := filter (\<lambda>((m, i), d). m \<noteq> n) (input_deadlines df),
        broken_inputs := filter (\<lambda>((m, i), d). m \<noteq> n) (broken_inputs df),
        node_stderr_most_recent := AList.delete n (node_stderr_most_recent df),
        pending_nodes := (pending_nodes df)\<lparr>causes := forget_cause n (causes (pending_nodes df))\<rparr>,
        publishers := {oid \<in> publishers df. fst oid \<noteq> n},
        missing_channel_warned := {e \<in> missing_channel_warned df. fst e \<noteq> n},
        dropped_event_streams := dropped_event_streams df - {n}\<rparr>"

definition mark_event_stream_dropped :: "NodeId \<Rightarrow> 'x RunningDataflow \<Rightarrow> 'x RunningDataflow" where
  "mark_event_stream_dropped n df =
     (let df = df\<lparr>subscribe_channels := AList.delete n (subscribe_channels df),
                  dropped_event_streams := insert n (dropped_event_streams df)\<rparr>
      in case map_of (drain_signals df) n of
           None \<Rightarrow> df
         | Some d \<Rightarrow> df\<lparr>signals := (signals df)(d := (signals df d)\<lparr>stream_dropped := True\<rparr>)\<rparr>)"

definition reset_incarnation_state :: "NodeId \<Rightarrow> nat \<Rightarrow> 'x RunningDataflow \<Rightarrow> 'x RunningDataflow" where
  "reset_incarnation_state n g df =
     df\<lparr>grace_duration_kills := grace_duration_kills df - {(n, g)},
        startup_timeout_marks := startup_timeout_marks df - {(n, g)},
        all_inputs_closed_at := AList.delete n (all_inputs_closed_at df),
        connected_nodes := connected_nodes df - {n},
        dropped_event_streams := dropped_event_streams df - {n}\<rparr>"

definition start :: "'x RunningDataflow \<Rightarrow> 'x RunningDataflow" where
  "start df = df\<lparr>timer_handles := timer_handles df \<union> fst ` set (timers df), dataflow_started := True\<rparr>"

definition unsubscribe_node_from_timers :: "NodeId \<Rightarrow> 'x RunningDataflow \<Rightarrow> 'x RunningDataflow" where
  "unsubscribe_node_from_timers n df =
     (let ts = map (\<lambda>(interval, receivers). (interval, filter (\<lambda>(m, i). m \<noteq> n) receivers)) (timers df)
      in df\<lparr>timers := filter (\<lambda>(interval, receivers). receivers \<noteq> []) ts,
            timer_handles := timer_handles df - fst ` set (filter (\<lambda>(interval, receivers). receivers = []) ts)\<rparr>)"

section \<open>The contract of a sender\<close>

text \<open>
  What the delivery code relies on: an accepted event is appended, a refused one changes nothing,
  and a closed channel accepts nothing.
\<close>

locale event_sender =
  fixes send :: "'x NodeEvent \<Rightarrow> 'x channel \<Rightarrow> send_outcome \<times> 'x channel"
  assumes send_sent: "send e c = (Sent, c') \<Longrightarrow> c' = c\<lparr>ch_queue := ch_queue c @ [e]\<rparr>"
    and send_refused: "send e c = (r, c') \<Longrightarrow> r \<noteq> Sent \<Longrightarrow> c' = c"
    and send_bounded: "length (ch_queue c) \<le> NODE_EVENT_CHANNEL_CAPACITY \<Longrightarrow>
      length (ch_queue (snd (send e c))) \<le> NODE_EVENT_CHANNEL_CAPACITY"
    and send_closed: "fst (send e c) = Closed \<Longrightarrow> ch_closed c"
begin

lemma queue_after: "ch_queue (snd (send e c)) = ch_queue c @ (if fst (send e c) = Sent then [e] else [])"
  using send_sent [of e c] send_refused [of e c] by (cases "send e c") auto

lemma closed_after: "ch_closed (snd (send e c)) = ch_closed c"
  using send_sent [of e c] send_refused [of e c] by (cases "send e c") (cases "fst (send e c) = Sent", auto)

lemma length_after:
  "length (ch_queue (snd (send e c))) = length (ch_queue c) + (if fst (send e c) = Sent then 1 else 0)"
  by (simp add: queue_after)

end

lemma try_send_cases:
  "try_send e c =
     (if ch_closed c then (Closed, c)
      else if NODE_EVENT_CHANNEL_CAPACITY \<le> length (ch_queue c) then (Full, c)
      else (Sent, c\<lparr>ch_queue := ch_queue c @ [e]\<rparr>))"
  by (simp add: try_send_def ch_capacity_def)

interpretation raw: event_sender try_send
  by unfold_locales (auto simp: try_send_cases split: if_splits)

interpretation gated: event_sender send_with_timestamp
  by unfold_locales (auto simp: send_with_timestamp_def try_send_cases split: if_splits)

section \<open>Views of the updates\<close>

lemma inc_pending_eq:
  "inc_pending n df = df\<lparr>counters :=
     (case map_of (pending_messages df) n of
        None \<Rightarrow> counters df
      | Some k \<Rightarrow> (counters df)(k := counters df k + 1))\<rparr>"
  by (simp add: inc_pending_def split: option.split)

lemma send_to_eq:
  "send_to c e df = (fst (send_with_timestamp e (channels df c)),
     df\<lparr>channels := (channels df)(c := snd (send_with_timestamp e (channels df c)))\<rparr>)"
  by (simp add: send_to_def split: prod.split)

definition delivered :: "nat \<Rightarrow> 'x NodeEvent \<Rightarrow> 'x RunningDataflow \<Rightarrow> bool" where
  "delivered c e df \<longleftrightarrow> fst (send_with_timestamp e (channels df c)) = Sent"

lemma deliver_eq:
  "deliver n c e df =
     df\<lparr>channels := (channels df)(c := snd (send_with_timestamp e (channels df c))),
        counters := (case map_of (pending_messages df) n of
                       None \<Rightarrow> counters df
                     | Some k \<Rightarrow> if delivered c e df then (counters df)(k := counters df k + 1)
                                else counters df)\<rparr>"
  by (simp add: deliver_def send_to_eq inc_pending_eq delivered_def split: send_outcome.split option.split)

lemma open_inputs_simps [simp]:
  "open_inputs n (df\<lparr>channels := chs\<rparr>) = open_inputs n df"
  "open_inputs n (df\<lparr>counters := cts\<rparr>) = open_inputs n df"
  by (simp_all add: open_inputs_def)

lemma lookup_add_input:
  "map_of (add_input n i m) = (map_of m)(n \<mapsto> insert i (case map_of m n of None \<Rightarrow> {} | Some x \<Rightarrow> x))"
  by (simp add: add_input_def map_of_bm_entry)

end
