(* ===== verification/Local_Delivery.thy ===== *)
theory Local_Delivery
  imports Dataflow_State
begin

text \<open>
  Delivery of events to the nodes of one daemon: \<open>binaries/daemon/src/local_delivery.rs\<close>
  (routing of an output to its local receivers, closing, breaking and recovering inputs), and
  the operations of \<open>node_events.rs\<close> and \<open>dora_events.rs\<close> that are built on it (subscription, closed
  outputs, timers, logs, input timeouts, reload), with \<open>propagate_node_failed\<close> of
  \<open>running_dataflow.rs\<close>. Every function is the state change of the handler; log output is left
  out. The current time is an argument, one reading per operation. The statistics object is always
  present, as it is in the daemon.
\<close>

section \<open>Closing, breaking and recovering inputs\<close>

definition remove_input :: "NodeId \<Rightarrow> DataId \<Rightarrow> 'x RunningDataflow \<Rightarrow> 'x RunningDataflow" where
  "remove_input n i df = df\<lparr>open_inputs_map := AList.map_entry n (\<lambda>is. is - {i}) (open_inputs_map df)\<rparr>"

definition finish_restarts :: "NodeId \<Rightarrow> 'x RunningDataflow \<Rightarrow> 'x RunningDataflow" where
  "finish_restarts n df =
     (if (open_inputs n df = {} \<or> is_drained n df) \<and> \<not> has_broken_input n df
      then update_node n node_disable_restart df else df)"

text \<open>Sending \<open>AllInputsClosed\<close> starts the drain clock of the node.\<close>

definition send_all_inputs_closed :: "NodeId \<Rightarrow> nat \<Rightarrow> nat \<Rightarrow> 'x RunningDataflow \<Rightarrow> 'x RunningDataflow" where
  "send_all_inputs_closed n c now df =
     (case send_to c AllInputsClosed df of
        (Sent, df) \<Rightarrow>
          (inc_pending n df)\<lparr>all_inputs_closed_at := AList.update n now (all_inputs_closed_at df)\<rparr>
      | (_, df) \<Rightarrow> df)"

definition signal_all_inputs_closed_if_drained ::
  "NodeId \<Rightarrow> nat \<Rightarrow> 'x RunningDataflow \<Rightarrow> 'x RunningDataflow" where
  "signal_all_inputs_closed_if_drained n now df =
     (case map_of (subscribe_channels df) n of
        None \<Rightarrow> df
      | Some c \<Rightarrow>
          (let df = finish_restarts n df
           in if is_finished n df then send_all_inputs_closed n c now df else df))"

definition send_input_closed :: "NodeId \<Rightarrow> DataId \<Rightarrow> 'x RunningDataflow \<Rightarrow> 'x RunningDataflow" where
  "send_input_closed n i df =
     (case map_of (subscribe_channels df) n of
        None \<Rightarrow> df
      | Some c \<Rightarrow> deliver n c (InputClosed i) df)"

definition close_input :: "NodeId \<Rightarrow> DataId \<Rightarrow> nat \<Rightarrow> 'x RunningDataflow \<Rightarrow> 'x RunningDataflow" where
  "close_input n i now df =
     (let was_broken = map_of (broken_inputs df) (n, i) \<noteq> None;
          df = df\<lparr>broken_inputs := AList.delete (n, i) (broken_inputs df),
                  input_deadlines := AList.delete (n, i) (input_deadlines df)\<rparr>;
          was_open = i \<in> open_inputs n df;
          df = remove_input n i df
      in if \<not> was_open \<and> \<not> was_broken then df
         else signal_all_inputs_closed_if_drained n now
                (if was_open then send_input_closed n i df else df))"

definition break_input :: "NodeId \<Rightarrow> DataId \<Rightarrow> nat \<Rightarrow> 'x RunningDataflow \<Rightarrow> 'x RunningDataflow" where
  "break_input n i now df =
     (if map_of (open_inputs_map df) n \<noteq> None \<and> i \<notin> open_inputs n df
      then df\<lparr>broken_inputs := AList.delete (n, i) (broken_inputs df)\<rparr>
      else signal_all_inputs_closed_if_drained n now (send_input_closed n i (remove_input n i df)))"

definition refresh_deadline :: "NodeId \<times> DataId \<Rightarrow> nat \<Rightarrow> 'x RunningDataflow \<Rightarrow> 'x RunningDataflow" where
  "refresh_deadline k now df =
     df\<lparr>input_deadlines := AList.map_entry k (\<lambda>d. d\<lparr>last_received := Some now\<rparr>) (input_deadlines df)\<rparr>"

definition recover_input ::
  "NodeId \<Rightarrow> DataId \<Rightarrow> nat \<Rightarrow> nat \<Rightarrow> 'x RunningDataflow \<Rightarrow> 'x RunningDataflow" where
  "recover_input n i c now df =
     (case map_of (broken_inputs df) (n, i) of
        None \<Rightarrow> df
      | Some t \<Rightarrow>
          deliver n c (InputRecovered i)
            (df\<lparr>broken_inputs := AList.delete (n, i) (broken_inputs df),
                ft_stats := (ft_stats df)\<lparr>circuit_breaker_recoveries :=
                  circuit_breaker_recoveries (ft_stats df) + 1\<rparr>,
                open_inputs_map := add_input n i (open_inputs_map df),
                input_deadlines := AList.update (n, i) \<lparr> timeout = t, last_received = Some now \<rparr>
                  (input_deadlines df)\<rparr>))"

section \<open>Routing an output\<close>

definition note_receiver :: "nat \<Rightarrow> NodeId \<times> DataId \<Rightarrow> 'x RunningDataflow \<Rightarrow> 'x RunningDataflow" where
  "note_receiver now = (\<lambda>(n, i) df.
     (case map_of (subscribe_channels df) n of
        None \<Rightarrow> df
      | Some c \<Rightarrow>
          if CONTROL_EVENT_HEADROOM \<le> ch_capacity (channels df c)
          then recover_input n i c now (refresh_deadline (n, i) now df) else df))"

definition note_output_sent_to_local_receivers ::
  "NodeId \<Rightarrow> DataId \<Rightarrow> nat \<Rightarrow> 'x RunningDataflow \<Rightarrow> 'x RunningDataflow" where
  "note_output_sent_to_local_receivers n out now df =
     (if input_deadlines df = [] \<and> broken_inputs df = [] then df
      else fold (note_receiver now) (receivers_of (edge_mappings df) (n, out)) df)"

record 'x DeferredDelivery =
  dd_receiver :: NodeId
  dd_channel :: nat
  dd_pending :: "nat option"
  dd_drained :: nat
  dd_event :: "'x NodeEvent"

text \<open>What a delivery loop carries: the deferred deliveries (if someone can wait for them), the
  receivers found closed, and the dataflow.\<close>

type_synonym 'x loop_state = "'x DeferredDelivery list option \<times> NodeId list \<times> 'x RunningDataflow"

definition offer_overflow ::
  "NodeId \<Rightarrow> DataId \<Rightarrow> nat \<Rightarrow> 'x NodeEvent \<Rightarrow> 'x loop_state \<Rightarrow> bool \<times> 'x loop_state" where
  "offer_overflow n i c e = (\<lambda>(deferred, closed, df).
     (let bp = input_requires_backpressure n i df;
          drop = (False, deferred, closed, df\<lparr>ft_stats := stats_record_drop 1 bp (ft_stats df)\<rparr>)
      in case (deferred, map_of (drain_signals df) n) of
           (Some ds, Some d) \<Rightarrow>
             if bp \<and> \<not> gave_up (signals df d)
             then (True, Some (ds @ [\<lparr> dd_receiver = n, dd_channel = c,
                     dd_pending = map_of (pending_messages df) n, dd_drained = d, dd_event = e \<rparr>]), closed, df)
             else drop
         | _ \<Rightarrow> drop))"

definition offer_event ::
  "NodeId \<Rightarrow> DataId \<Rightarrow> nat \<Rightarrow> 'x NodeEvent \<Rightarrow> 'x loop_state \<Rightarrow> bool \<times> 'x loop_state" where
  "offer_event n i c e = (\<lambda>(deferred, closed, df).
     (if ch_capacity (channels df c) < CONTROL_EVENT_HEADROOM
      then offer_overflow n i c e (deferred, closed, df)
      else (case try_send e (channels df c) of
              (Sent, ch) \<Rightarrow> (True, deferred, closed, inc_pending n (df\<lparr>channels := (channels df)(c := ch)\<rparr>))
            | (Closed, _) \<Rightarrow> (False, deferred, closed @ [n], df)
            | (Full, _) \<Rightarrow> offer_overflow n i c e (deferred, closed, df))))"

definition send_to_receiver ::
  "(DataId \<Rightarrow> 'x NodeEvent) \<Rightarrow> nat \<Rightarrow> NodeId \<times> DataId \<Rightarrow> 'x loop_state \<Rightarrow> 'x loop_state" where
  "send_to_receiver mk_event now = (\<lambda>(n, i) (deferred, closed, df).
     (case map_of (subscribe_channels df) n of
        Some c \<Rightarrow>
          (case offer_event n i c (mk_event i) (deferred, closed, df) of
             (accepted, deferred, closed, df) \<Rightarrow>
               (deferred, closed,
                if accepted then recover_input n i c now (refresh_deadline (n, i) now df) else df))
      | None \<Rightarrow>
          (deferred, closed,
           if map_of (running_nodes df) n \<noteq> None \<and> n \<notin> dropped_event_streams df
           then df\<lparr>ft_stats := stats_record_drop 1 (input_requires_backpressure n i df) (ft_stats df),
                   missing_channel_warned := insert (n, i) (missing_channel_warned df)\<rparr>
           else df)))"

definition remove_channels :: "NodeId list \<Rightarrow> 'x RunningDataflow \<Rightarrow> 'x RunningDataflow" where
  "remove_channels ns df = df\<lparr>subscribe_channels := fold AList.delete ns (subscribe_channels df)\<rparr>"

definition send_output_to_local_receivers ::
  "OutputId \<Rightarrow> 'x Metadata \<Rightarrow> byte list option \<Rightarrow> bool \<Rightarrow> 'x DeferredDelivery list option \<Rightarrow> nat \<Rightarrow>
   'x RunningDataflow \<Rightarrow> byte list option \<times> 'x DeferredDelivery list option \<times> 'x RunningDataflow" where
  "send_output_to_local_receivers oid md data need_data_bytes deferred now df =
     (case fold (send_to_receiver (\<lambda>i. InputEvent i md data) now)
             (receivers_of (edge_mappings df) oid) (deferred, [], df) of
        (deferred, closed, df) \<Rightarrow>
          (if need_data_bytes then data else None, deferred, remove_channels closed df))"

section \<open>Subscription and closed outputs\<close>

definition closed_inputs_of :: "NodeId \<Rightarrow> 'x RunningDataflow \<Rightarrow> DataId list" where
  "closed_inputs_of n df =
     filter (\<lambda>i. i \<notin> open_inputs n df)
       (map snd (filter (\<lambda>r. fst r = n) (concat (map snd (edge_mappings df)))))"

text \<open>The stages of \<open>Daemon::subscribe\<close>: report what is closed already, the end of all inputs, a
  stop that was sent before, and install the channel.\<close>

definition announce_closed :: "NodeId \<Rightarrow> nat \<Rightarrow> 'x RunningDataflow \<Rightarrow> 'x RunningDataflow" where
  "announce_closed n c df = fold (\<lambda>i. deliver n c (InputClosed i)) (closed_inputs_of n df) df"

definition announce_finished :: "NodeId \<Rightarrow> nat \<Rightarrow> nat \<Rightarrow> 'x RunningDataflow \<Rightarrow> 'x RunningDataflow" where
  "announce_finished n c now df =
     (if is_finished_non_source n df then send_all_inputs_closed n c now df else df)"

definition announce_stop :: "NodeId \<Rightarrow> nat \<Rightarrow> 'x RunningDataflow \<Rightarrow> 'x RunningDataflow" where
  "announce_stop n c df =
     (if stop_sent df then deliver n c Stop (update_node n node_disable_restart df) else df)"

definition install_channel :: "NodeId \<Rightarrow> nat \<Rightarrow> 'x RunningDataflow \<Rightarrow> 'x RunningDataflow" where
  "install_channel n c df =
     df\<lparr>missing_channel_warned := {e \<in> missing_channel_warned df. fst e \<noteq> n},
        dropped_event_streams := dropped_event_streams df - {n},
        subscribe_channels := AList.update n c (subscribe_channels df)\<rparr>"

definition subscribe :: "NodeId \<Rightarrow> nat \<Rightarrow> nat \<Rightarrow> 'x RunningDataflow \<Rightarrow> 'x RunningDataflow" where
  "subscribe n c now df =
     install_channel n c (announce_stop n c (announce_finished n c now (finish_restarts n
       (announce_closed n c (df\<lparr>connected_nodes := insert n (connected_nodes df)\<rparr>)))))"

text \<open>The outputs whose closing is announced to other daemons are returned.\<close>

definition send_output_closed_events ::
  "NodeId \<Rightarrow> DataId list \<Rightarrow> nat \<Rightarrow> 'x RunningDataflow \<Rightarrow> OutputId list \<times> 'x RunningDataflow" where
  "send_output_closed_events n outputs now df =
     (let inputs = bs_of_list (concat (map (\<lambda>out. receivers_of (edge_mappings df) (n, out)) outputs));
          df = fold (\<lambda>(r, i). close_input r i now) inputs df
      in (filter (\<lambda>oid. fst oid = n \<and> snd oid \<in> set outputs) (open_external_mappings df), df))"

definition handle_outputs_done ::
  "NodeId \<Rightarrow> bool \<Rightarrow> nat \<Rightarrow> 'x RunningDataflow \<Rightarrow> OutputId list \<times> 'x RunningDataflow" where
  "handle_outputs_done n might_restart now df =
     (if might_restart then ([], df) else send_output_closed_events n (node_output_ids n df) now df)"

section \<open>Events for many receivers\<close>

definition broadcast_step ::
  "(DataId \<Rightarrow> 'x NodeEvent) \<Rightarrow> NodeId \<times> DataId \<Rightarrow> NodeId list \<times> 'x RunningDataflow \<Rightarrow>
   NodeId list \<times> 'x RunningDataflow" where
  "broadcast_step mk_event = (\<lambda>(n, i) (closed, df).
     (case map_of (subscribe_channels df) n of
        None \<Rightarrow> (closed, df)
      | Some c \<Rightarrow>
          (case send_to c (mk_event i) df of
             (Sent, df) \<Rightarrow> (closed, inc_pending n df)
           | (Full, df) \<Rightarrow> (closed, df)
           | (Closed, df) \<Rightarrow> (closed @ [n], df))))"

definition broadcast ::
  "(DataId \<Rightarrow> 'x NodeEvent) \<Rightarrow> (NodeId \<times> DataId) list \<Rightarrow> 'x RunningDataflow \<Rightarrow>
   NodeId list \<times> 'x RunningDataflow" where
  "broadcast mk_event receivers df =
     (case fold (broadcast_step mk_event) receivers ([], df) of
        (closed, df) \<Rightarrow> (closed, remove_channels closed df))"

definition handle_timer :: "Duration \<Rightarrow> 'x Metadata \<Rightarrow> 'x RunningDataflow \<Rightarrow> 'x RunningDataflow" where
  "handle_timer interval md df =
     (case map_of (timers df) interval of
        None \<Rightarrow> df
      | Some subscribers \<Rightarrow> snd (broadcast (\<lambda>i. InputEvent i md None) subscribers df))"

definition handle_logs :: "OutputId \<Rightarrow> 'x Metadata \<Rightarrow> byte list \<Rightarrow> 'x RunningDataflow \<Rightarrow> 'x RunningDataflow" where
  "handle_logs oid md message df =
     (case map_of (edge_mappings df) oid of
        None \<Rightarrow> df
      | Some subscribers \<Rightarrow> snd (broadcast (\<lambda>i. InputEvent i md (Some message)) subscribers df))"

text \<open>The level and the node of the log message decide who receives its encoded form.\<close>

definition handle_log_broadcast ::
  "LogLevelOrStdout \<Rightarrow> NodeId option \<Rightarrow> 'x Metadata \<Rightarrow> byte list \<Rightarrow> 'x RunningDataflow \<Rightarrow> 'x RunningDataflow" where
  "handle_log_broadcast level node md data df =
     (let receivers = map (\<lambda>s. (sub_node s, sub_input s))
            (filter (\<lambda>s. log_delivered (sub_filter s) (sub_node s) level node) (log_subscribers df))
      in case broadcast (\<lambda>i. InputEvent i md (Some data)) receivers df of
           (closed, df) \<Rightarrow>
             df\<lparr>log_subscribers := filter (\<lambda>s. sub_node s \<notin> set closed) (log_subscribers df)\<rparr>)"

definition send_reload :: "NodeId \<Rightarrow> OperatorId option \<Rightarrow> 'x RunningDataflow \<Rightarrow> 'x RunningDataflow" where
  "send_reload n operator df =
     (case map_of (subscribe_channels df) n of
        None \<Rightarrow> df
      | Some c \<Rightarrow>
          (case send_to c (Reload operator) df of
             (Sent, df) \<Rightarrow> inc_pending n df
           | (Full, df) \<Rightarrow> df
           | (Closed, df) \<Rightarrow> remove_channels [n] df))"

text \<open>Receivers of the failed node with their affected inputs, in the order of the receivers.\<close>

definition affected_by_receiver :: "NodeId \<Rightarrow> mappings \<Rightarrow> (NodeId \<times> DataId list) list" where
  "affected_by_receiver failed mp =
     fold (\<lambda>(r, i) m. bm_entry r [] (\<lambda>is. is @ [i]) m)
       (concat (map snd (filter (\<lambda>(oid, rs). fst oid = failed) mp))) []"

definition propagate_node_failed :: "NodeId \<Rightarrow> string \<Rightarrow> 'x RunningDataflow \<Rightarrow> 'x RunningDataflow" where
  "propagate_node_failed failed err df =
     fold (\<lambda>(r, is) df.
        (case map_of (subscribe_channels df) r of
           None \<Rightarrow> df
         | Some c \<Rightarrow> deliver r c (NodeFailed is err failed) df))
       (affected_by_receiver failed (edge_mappings df)) df"

section \<open>Input timeouts\<close>

definition timed_out_inputs :: "nat \<Rightarrow> 'x RunningDataflow \<Rightarrow> ((NodeId \<times> DataId) \<times> Duration) list" where
  "timed_out_inputs now df =
     map (\<lambda>(k, d). (k, timeout d))
       (filter (\<lambda>(k, d). map_of (broken_inputs df) k = None \<and> is_timed_out now d) (input_deadlines df))"

definition trip_breaker :: "nat \<Rightarrow> (NodeId \<times> DataId) \<times> Duration \<Rightarrow> 'x RunningDataflow \<Rightarrow> 'x RunningDataflow" where
  "trip_breaker now = (\<lambda>((n, i), t) df.
     break_input n i now
       (df\<lparr>ft_stats := (ft_stats df)\<lparr>input_timeouts := input_timeouts (ft_stats df) + 1\<rparr>,
           broken_inputs := AList.update (n, i) t (broken_inputs df)\<rparr>))"

definition check_input_timeouts :: "nat \<Rightarrow> 'x RunningDataflow \<Rightarrow> 'x RunningDataflow" where
  "check_input_timeouts now df =
     (let timed_out = timed_out_inputs now df;
          df = fold (trip_breaker now) timed_out df
      in df\<lparr>input_deadlines := fold AList.delete (map fst timed_out) (input_deadlines df)\<rparr>)"

section \<open>The receiving end\<close>

text \<open>The listener of a node takes an event from the channel and counts it off; when it ends the
  channel closes.\<close>

definition take_event :: "nat \<Rightarrow> 'x RunningDataflow \<Rightarrow> ('x NodeEvent \<times> 'x RunningDataflow) option" where
  "take_event c df =
     (case ch_queue (channels df c) of
        [] \<Rightarrow> None
      | e # es \<Rightarrow>
          Some (e, df\<lparr>channels := (channels df)(c := (channels df c)\<lparr>ch_queue := es\<rparr>),
                      counters := (counters df)(c := counters df c - 1)\<rparr>))"

definition end_listener :: "nat \<Rightarrow> 'x RunningDataflow \<Rightarrow> 'x RunningDataflow" where
  "end_listener c df = df\<lparr>channels := (channels df)(c := close_channel (channels df c))\<rparr>"

text \<open>A subscription request: the listener has created a channel and a counter for it (under one
  number), and hands them over with its drain signal.\<close>

definition handle_subscribe :: "NodeId \<Rightarrow> nat \<Rightarrow> nat \<Rightarrow> nat \<Rightarrow> 'x RunningDataflow \<Rightarrow> 'x RunningDataflow" where
  "handle_subscribe n c d now df =
     subscribe n c now
       (df\<lparr>channels := (channels df)(c := new_channel), counters := (counters df)(c := 0),
           pending_messages := AList.update n c (pending_messages df),
           drain_signals := AList.update n d (drain_signals df)\<rparr>)"

section \<open>Invariants of the event channels\<close>

text \<open>
  A property of the channels, counters and their wiring that single deliveries keep is kept by
  every operation above. The contract is stated once and proved for the operations inside the
  locale; the channel invariants below are instances of it.
\<close>

definition same_channels :: "'x RunningDataflow \<Rightarrow> 'x RunningDataflow \<Rightarrow> bool" where
  "same_channels df df' \<longleftrightarrow> channels df' = channels df \<and> counters df' = counters df \<and>
     map_of (subscribe_channels df') = map_of (subscribe_channels df) \<and>
     map_of (pending_messages df') = map_of (pending_messages df)"

lemma send_all_inputs_closed_same:
  "same_channels (deliver n c AllInputsClosed df) (send_all_inputs_closed n c now df)"
  by (simp add: same_channels_def send_all_inputs_closed_def deliver_def send_to_eq inc_pending_eq
      split: send_outcome.split)

lemma finish_restarts_same: "same_channels df (finish_restarts n df)"
  by (simp add: same_channels_def finish_restarts_def update_node_def)

lemma remove_channels_Nil [simp]: "remove_channels [] df = df"
  by (simp add: remove_channels_def)

lemma remove_channels_Cons [simp]:
  "remove_channels (n # ns) df =
     remove_channels ns (df\<lparr>subscribe_channels := AList.delete n (subscribe_channels df)\<rparr>)"
  by (simp add: remove_channels_def)

text \<open>Offering an event is an ordinary delivery when there is room, and touches no channel otherwise.\<close>

definition stats_only :: "'x RunningDataflow \<Rightarrow> 'x RunningDataflow \<Rightarrow> bool" where
  "stats_only df df' \<longleftrightarrow> (\<exists>s. df' = df\<lparr>ft_stats := s\<rparr>)"

lemma stats_only_refl [simp]: "stats_only df df"
  unfolding stats_only_def by (rule exI [of _ "ft_stats df"]) simp

lemma stats_only_upd [simp]: "stats_only df (df\<lparr>ft_stats := s\<rparr>)"
  unfolding stats_only_def by blast

lemma offer_overflow_cases:
  "offer_overflow n i c e (deferred, closed, df) = (acc, ds, cl, df') \<Longrightarrow> stats_only df df'"
  by (auto simp: offer_overflow_def Let_def split: option.splits if_splits)

lemma offer_event_cases:
  assumes "offer_event n i c e (deferred, closed, df) = (acc, ds, cl, df')"
  shows "acc \<and> df' = deliver n c e df \<or> stats_only df df'"
proof (cases "ch_capacity (channels df c) < CONTROL_EVENT_HEADROOM")
  case True
  with assms show ?thesis by (auto simp: offer_event_def dest: offer_overflow_cases)
next
  case False
  then have gate: "send_with_timestamp e (channels df c) = try_send e (channels df c)"
    by (simp add: send_with_timestamp_def)
  obtain r ch where s: "try_send e (channels df c) = (r, ch)" by (cases "try_send e (channels df c)")
  show ?thesis
  proof (cases r)
    case Sent
    with assms False gate s show ?thesis by (simp add: offer_event_def deliver_def send_to_eq)
  next
    case Full
    with assms False s show ?thesis by (auto simp: offer_event_def dest: offer_overflow_cases)
  next
    case Closed
    with assms False s show ?thesis by (simp add: offer_event_def)
  qed
qed

text \<open>A subscription does not read the table of channels, it only installs the new one.\<close>

lemma deliver_rewire:
  "deliver n c e (df\<lparr>subscribe_channels := x\<rparr>) = (deliver n c e df)\<lparr>subscribe_channels := x\<rparr>"
  by (simp add: deliver_eq delivered_def split: option.split)

lemma queries_rewire:
  "open_inputs n (df\<lparr>subscribe_channels := x\<rparr>) = open_inputs n df"
  "is_drained n (df\<lparr>subscribe_channels := x\<rparr>) = is_drained n df"
  "has_broken_input n (df\<lparr>subscribe_channels := x\<rparr>) = has_broken_input n df"
  "has_data_input n (df\<lparr>subscribe_channels := x\<rparr>) = has_data_input n df"
  "closed_inputs_of n (df\<lparr>subscribe_channels := x\<rparr>) = closed_inputs_of n df"
  by (simp_all add: open_inputs_def is_drained_def has_broken_input_def has_data_input_def closed_inputs_of_def)

lemma announce_closed_rewire:
  "announce_closed n c (df\<lparr>subscribe_channels := x\<rparr>) = (announce_closed n c df)\<lparr>subscribe_channels := x\<rparr>"
proof -
  have "fold (\<lambda>i. deliver n c (InputClosed i)) is (df\<lparr>subscribe_channels := x\<rparr>) =
     (fold (\<lambda>i. deliver n c (InputClosed i)) is df)\<lparr>subscribe_channels := x\<rparr>" for "is"
    by (induction "is" arbitrary: df) (simp_all add: deliver_rewire)
  then show ?thesis by (simp add: announce_closed_def queries_rewire)
qed

lemma finish_restarts_rewire:
  "finish_restarts n (df\<lparr>subscribe_channels := x\<rparr>) = (finish_restarts n df)\<lparr>subscribe_channels := x\<rparr>"
  by (simp add: finish_restarts_def update_node_def queries_rewire)

lemma announce_finished_rewire:
  "announce_finished n c now (df\<lparr>subscribe_channels := x\<rparr>) =
     (announce_finished n c now df)\<lparr>subscribe_channels := x\<rparr>"
  by (simp add: announce_finished_def is_finished_non_source_def is_finished_def queries_rewire
      send_all_inputs_closed_def send_to_eq inc_pending_eq split: send_outcome.split option.split)

lemma announce_stop_rewire:
  "announce_stop n c (df\<lparr>subscribe_channels := x\<rparr>) = (announce_stop n c df)\<lparr>subscribe_channels := x\<rparr>"
  by (simp add: announce_stop_def update_node_def deliver_eq delivered_def split: option.split)

lemma subscribe_rewire:
  "subscribe n c now (df\<lparr>subscribe_channels := x\<rparr>) =
     (subscribe n c now df)\<lparr>subscribe_channels := AList.update n c x\<rparr>"
proof -
  have comm: "(df\<lparr>subscribe_channels := x\<rparr>)\<lparr>connected_nodes := insert n (connected_nodes (df\<lparr>subscribe_channels := x\<rparr>))\<rparr> =
      (df\<lparr>connected_nodes := insert n (connected_nodes df)\<rparr>)\<lparr>subscribe_channels := x\<rparr>"
    by simp
  show ?thesis
    unfolding subscribe_def comm announce_closed_rewire finish_restarts_rewire announce_finished_rewire
      announce_stop_rewire
    by (simp add: install_channel_def)
qed

lemma subscribe_wires: "subscribe_channels (subscribe n c now df) = AList.update n c (subscribe_channels df)"
  using arg_cong [OF subscribe_rewire [where x = "subscribe_channels df" and df = df], of subscribe_channels]
  by simp

text \<open>A delivery to a channel together with its counter.\<close>

definition deliver_pair :: "nat \<Rightarrow> 'x NodeEvent \<Rightarrow> 'x RunningDataflow \<Rightarrow> 'x RunningDataflow" where
  "deliver_pair c e df =
     df\<lparr>channels := (channels df)(c := snd (send_with_timestamp e (channels df c))),
        counters := (if delivered c e df then (counters df)(c := counters df c + 1) else counters df)\<rparr>"

lemma deliver_paired: "map_of (pending_messages df) n = Some c \<Longrightarrow> deliver n c e df = deliver_pair c e df"
  by (simp add: deliver_eq deliver_pair_def)

locale channel_invariant =
  fixes I :: "'x RunningDataflow \<Rightarrow> bool"
  assumes I_same: "I df \<Longrightarrow> same_channels df df' \<Longrightarrow> I df'"
    and I_wired: "I df \<Longrightarrow> map_of (subscribe_channels df) n = Some c \<Longrightarrow>
      map_of (pending_messages df) n = Some c"
    and I_pair: "I df \<Longrightarrow> I (deliver_pair c e df)"
    and I_unwire: "I df \<Longrightarrow> I (df\<lparr>subscribe_channels := AList.delete n (subscribe_channels df)\<rparr>)"
    and I_wire: "I df \<Longrightarrow> map_of (pending_messages df) n = Some c \<Longrightarrow>
      I (df\<lparr>subscribe_channels := AList.update n c (subscribe_channels df)\<rparr>)"
    and I_new: "I df \<Longrightarrow> c \<notin> ran (map_of (subscribe_channels df)) \<Longrightarrow>
      I (df\<lparr>channels := (channels df)(c := new_channel), counters := (counters df)(c := 0),
            pending_messages := AList.update n c (pending_messages df),
            subscribe_channels := AList.delete n (subscribe_channels df)\<rparr>)"
    and I_take: "I df \<Longrightarrow> take_event c df = Some (e, df') \<Longrightarrow> I df'"
    and I_end: "I df \<Longrightarrow> I (end_listener c df)"
begin

lemma I_deliver: "I df \<Longrightarrow> map_of (pending_messages df) n = Some c \<Longrightarrow> I (deliver n c e df)"
  using I_pair by (simp add: deliver_paired)

lemma I_deliver_wired:
  "I df \<Longrightarrow> map_of (subscribe_channels df) n = Some c \<Longrightarrow> I (deliver n c e df)"
  by (rule I_deliver) (auto dest: I_wired)

lemma I_send_all: "I df \<Longrightarrow> map_of (pending_messages df) n = Some c \<Longrightarrow> I (send_all_inputs_closed n c now df)"
  using I_deliver send_all_inputs_closed_same by (blast intro: I_same)

lemma I_finish_restarts: "I df \<Longrightarrow> I (finish_restarts n df)"
  using finish_restarts_same by (blast intro: I_same)

lemma I_signal: "I df \<Longrightarrow> I (signal_all_inputs_closed_if_drained n now df)"
  using I_finish_restarts [of df n] I_send_all [of "finish_restarts n df" n] I_wired [of df n]
    finish_restarts_same [of df n]
  by (auto simp: signal_all_inputs_closed_if_drained_def same_channels_def Let_def split: option.split)

lemma I_send_input_closed: "I df \<Longrightarrow> I (send_input_closed n i df)"
  by (simp add: send_input_closed_def I_deliver_wired split: option.split)

lemma I_fields:
  assumes "I df"
  shows "I (df\<lparr>broken_inputs := b\<rparr>)" "I (df\<lparr>input_deadlines := d\<rparr>)" "I (df\<lparr>open_inputs_map := m\<rparr>)"
    "I (df\<lparr>ft_stats := s\<rparr>)" "I (df\<lparr>missing_channel_warned := w\<rparr>)" "I (df\<lparr>connected_nodes := cn\<rparr>)"
    "I (df\<lparr>dropped_event_streams := de\<rparr>)" "I (df\<lparr>log_subscribers := ls\<rparr>)" "I (df\<lparr>running_nodes := rn\<rparr>)"
    "I (df\<lparr>drain_signals := ds\<rparr>)"
  using assms by (auto elim: I_same simp: same_channels_def)

lemma I_close: "I df \<Longrightarrow> I (close_input n i now df)"
  by (simp add: close_input_def remove_input_def I_fields I_signal I_send_input_closed Let_def)

lemma I_break: "I df \<Longrightarrow> I (break_input n i now df)"
  by (simp add: break_input_def remove_input_def I_fields I_signal I_send_input_closed)

lemma I_recover:
  "I df \<Longrightarrow> map_of (subscribe_channels df) n = Some c \<Longrightarrow> I (recover_input n i c now df)"
  by (simp add: recover_input_def I_deliver_wired I_fields split: option.split)

lemma I_refresh: "I df \<Longrightarrow> I (refresh_deadline k now df)"
  by (simp add: refresh_deadline_def I_fields)

lemma I_note: "I df \<Longrightarrow> I (note_receiver now r df)"
  by (cases r) (simp add: note_receiver_def I_recover I_refresh refresh_deadline_def I_fields split: option.split)

lemma I_note_output: "I df \<Longrightarrow> I (note_output_sent_to_local_receivers n out now df)"
  by (simp add: note_output_sent_to_local_receivers_def)
    (metis I_note fold_invariant [where P = I and Q = "\<lambda>_. True"])

lemma I_remove: "I df \<Longrightarrow> I (remove_channels ns df)"
  by (induction ns arbitrary: df) (simp_all add: I_unwire)

lemma I_send_to_receiver:
  assumes "I df" and "send_to_receiver mk now r (deferred, closed, df) = (ds, cl, df')"
  shows "I df'"
proof -
  obtain n i where r: "r = (n, i)" by (cases r)
  show ?thesis
  proof (cases "map_of (subscribe_channels df) n")
    case None
    with assms show ?thesis
      by (auto simp: r send_to_receiver_def I_fields split: if_splits)
  next
    case (Some c)
    obtain acc ds' cl' df1 where o: "offer_event n i c (mk i) (deferred, closed, df) = (acc, ds', cl', df1)"
      by (metis prod_cases4)
    have "I df1 \<and> map_of (subscribe_channels df1) n = Some c"
    proof -
      have "I (deliver n c (mk i) df) \<and> map_of (subscribe_channels (deliver n c (mk i) df)) n = Some c"
        using assms(1) Some by (simp add: I_deliver_wired, simp add: deliver_eq)
      then show ?thesis
        using offer_event_cases [OF o] assms(1) Some by (auto simp: stats_only_def I_fields)
    qed
    with assms(2) Some o show ?thesis
      by (auto simp: r send_to_receiver_def I_recover I_refresh refresh_deadline_def I_fields split: if_splits)
  qed
qed

lemma I_send_receivers:
  "I df \<Longrightarrow> fold (send_to_receiver mk now) rs (deferred, closed, df) = (ds, cl, df') \<Longrightarrow> I df'"
proof (induction rs arbitrary: deferred closed df)
  case (Cons r rs)
  obtain ds1 cl1 df1 where "send_to_receiver mk now r (deferred, closed, df) = (ds1, cl1, df1)"
    by (metis prod_cases3)
  with Cons show ?case
    using I_send_to_receiver [of df mk now r deferred closed] by simp
qed simp

lemma I_send_output:
  "I df \<Longrightarrow> send_output_to_local_receivers oid md data need deferred now df = (bs, ds, df') \<Longrightarrow> I df'"
  using I_send_receivers [of df] I_remove
  by (auto simp: send_output_to_local_receivers_def split: prod.splits)

lemma I_broadcast_step:
  assumes "I df"
  shows "I (snd (broadcast_step mk r (closed, df)))"
proof (cases r)
  case (Pair n i)
  show ?thesis
  proof (cases "map_of (subscribe_channels df) n")
    case None
    with assms Pair show ?thesis by (simp add: broadcast_step_def)
  next
    case (Some c)
    have "snd (broadcast_step mk r (closed, df)) = deliver n c (mk i) df"
      using Some Pair by (simp add: broadcast_step_def deliver_def send_to_eq split: send_outcome.split)
    with I_deliver_wired [OF assms Some] show ?thesis by simp
  qed
qed

lemma I_broadcast_fold: "I (snd s) \<Longrightarrow> I (snd (fold (broadcast_step mk) rs s))"
proof (induction rs arbitrary: s)
  case (Cons r rs)
  then show ?case using I_broadcast_step [of "snd s" mk r "fst s"] by simp
qed simp

lemma I_broadcast: "I df \<Longrightarrow> I (snd (broadcast mk rs df))"
  using I_broadcast_fold [of "([], df)" mk rs] I_remove
  by (cases "fold (broadcast_step mk) rs ([], df)") (simp add: broadcast_def)

lemma I_timer: "I df \<Longrightarrow> I (handle_timer interval md df)"
  by (simp add: handle_timer_def I_broadcast split: option.split)

lemma I_logs: "I df \<Longrightarrow> I (handle_logs oid md msg df)"
  by (simp add: handle_logs_def I_broadcast split: option.split)

lemma I_log_broadcast: "I df \<Longrightarrow> I (handle_log_broadcast level node md data df)"
  by (simp add: handle_log_broadcast_def Let_def split_beta I_fields I_broadcast)

lemma I_reload: "I df \<Longrightarrow> I (send_reload n operator df)"
proof (cases "map_of (subscribe_channels df) n")
  case (Some c)
  assume I: "I df"
  have "send_reload n operator df =
      (if fst (send_with_timestamp (Reload operator) (channels df c)) = Closed
       then remove_channels [n] (deliver n c (Reload operator) df) else deliver n c (Reload operator) df)"
    using Some by (simp add: send_reload_def deliver_def send_to_eq split: send_outcome.split)
  with I_deliver_wired [OF I Some] I_remove show ?thesis by (simp del: remove_channels_Cons)
qed (simp add: send_reload_def)

lemma I_propagate: "I df \<Longrightarrow> I (propagate_node_failed failed err df)"
  unfolding propagate_node_failed_def
  by (rule fold_invariant [where Q = "\<lambda>_. True"]) (auto simp: I_deliver_wired split: option.split)

lemma I_trip: "I df \<Longrightarrow> I (trip_breaker now t df)"
  by (cases t; cases "fst t") (simp add: trip_breaker_def I_break I_fields)

lemma I_timeouts: "I df \<Longrightarrow> I (check_input_timeouts now df)"
  unfolding check_input_timeouts_def Let_def
  by (intro I_fields fold_invariant [where Q = "\<lambda>_. True" and P = I]) (auto simp: I_trip)

lemma I_closed_events: "I df \<Longrightarrow> I (snd (send_output_closed_events n outputs now df))"
  unfolding send_output_closed_events_def Let_def snd_conv
  by (rule fold_invariant [where Q = "\<lambda>_. True"]) (auto simp: I_close)

lemma I_outputs_done: "I df \<Longrightarrow> I (snd (handle_outputs_done n might_restart now df))"
  by (simp add: handle_outputs_done_def I_closed_events)

lemma I_announce_closed:
  assumes "I df" and "map_of (pending_messages df) n = Some c"
  shows "I (announce_closed n c df) \<and> map_of (pending_messages (announce_closed n c df)) n = Some c"
proof -
  have "I df \<Longrightarrow> map_of (pending_messages df) n = Some c \<Longrightarrow>
   I (fold (\<lambda>i. deliver n c (InputClosed i)) is df) \<and>
   map_of (pending_messages (fold (\<lambda>i. deliver n c (InputClosed i)) is df)) n = Some c" for "is"
  proof (induction "is" arbitrary: df)
    case (Cons i "is")
    have "map_of (pending_messages (deliver n c (InputClosed i) df)) n = Some c"
      using Cons.prems by (simp add: deliver_eq)
    with Cons show ?case by (simp add: I_deliver)
  qed simp
  with assms show ?thesis by (simp add: announce_closed_def)
qed

lemma I_announce_finished:
  "I df \<Longrightarrow> map_of (pending_messages df) n = Some c \<Longrightarrow>
   I (announce_finished n c now df) \<and> map_of (pending_messages (announce_finished n c now df)) n = Some c"
  using send_all_inputs_closed_same [of n c df now]
  by (simp add: announce_finished_def I_send_all same_channels_def deliver_eq)

lemma I_announce_stop:
  "I df \<Longrightarrow> map_of (pending_messages df) n = Some c \<Longrightarrow>
   I (announce_stop n c df) \<and> map_of (pending_messages (announce_stop n c df)) n = Some c"
  by (rule conjI, simp add: announce_stop_def update_node_def I_deliver I_fields,
      simp add: announce_stop_def update_node_def deliver_eq)

lemma I_install:
  "I df \<Longrightarrow> map_of (pending_messages df) n = Some c \<Longrightarrow> I (install_channel n c df)"
  using I_wire [of df n c] by (rule I_same) (simp_all add: install_channel_def same_channels_def)

lemma I_subscribe:
  assumes "I df" and "map_of (pending_messages df) n = Some c"
  shows "I (subscribe n c now df)"
proof -
  let ?df = "finish_restarts n (announce_closed n c (df\<lparr>connected_nodes := insert n (connected_nodes df)\<rparr>))"
  have "I ?df \<and> map_of (pending_messages ?df) n = Some c"
    using I_announce_closed [of "df\<lparr>connected_nodes := insert n (connected_nodes df)\<rparr>" n c] assms
      finish_restarts_same [of "announce_closed n c (df\<lparr>connected_nodes := insert n (connected_nodes df)\<rparr>)" n]
    by (simp add: I_fields I_finish_restarts same_channels_def)
  then show ?thesis
    by (simp add: subscribe_def I_install I_announce_stop I_announce_finished)
qed

lemma I_handle_subscribe:
  assumes "I df" and "c \<notin> ran (map_of (subscribe_channels df))"
  shows "I (handle_subscribe n c d now df)"
proof -
  let ?df0 = "df\<lparr>channels := (channels df)(c := new_channel), counters := (counters df)(c := 0),
           pending_messages := AList.update n c (pending_messages df),
           drain_signals := AList.update n d (drain_signals df)\<rparr>"
  let ?df1 = "?df0\<lparr>subscribe_channels := AList.delete n (subscribe_channels df)\<rparr>"
  have "I ?df1"
    by (rule I_same [OF I_new [OF assms, of n]]) (simp add: same_channels_def)
  then have "I (subscribe n c now ?df1)"
    by (rule I_subscribe) (simp add: update_conv')
  then show ?thesis
    by (rule I_same)
      (simp add: handle_subscribe_def same_channels_def subscribe_rewire subscribe_wires update_conv' delete_conv')
qed

end

section \<open>Counting and headroom\<close>

definition wired :: "'x RunningDataflow \<Rightarrow> bool" where
  "wired df \<longleftrightarrow> (\<forall>n c. map_of (subscribe_channels df) n = Some c \<longrightarrow> map_of (pending_messages df) n = Some c)"

text \<open>The pending counter of an open channel is the number of events in it.\<close>

definition counted :: "'x RunningDataflow \<Rightarrow> bool" where
  "counted df \<longleftrightarrow> wired df \<and>
     (\<forall>c. \<not> ch_closed (channels df c) \<longrightarrow> counters df c = of_nat (length (ch_queue (channels df c))))"

text \<open>Data is found only below the headroom, and a channel is never over its capacity.\<close>

definition data_below :: "'x channel \<Rightarrow> bool" where
  "data_below ch \<longleftrightarrow> length (ch_queue ch) \<le> NODE_EVENT_CHANNEL_CAPACITY \<and>
     (\<forall>p < length (ch_queue ch). is_data (ch_queue ch ! p) \<longrightarrow>
        p \<le> NODE_EVENT_CHANNEL_CAPACITY - CONTROL_EVENT_HEADROOM)"

definition headroom :: "'x RunningDataflow \<Rightarrow> bool" where
  "headroom df \<longleftrightarrow> wired df \<and> (\<forall>c. data_below (channels df c))"

lemma wired_simps:
  "wired df \<Longrightarrow> wired (df\<lparr>subscribe_channels := AList.delete n (subscribe_channels df)\<rparr>)"
  "wired df \<Longrightarrow> map_of (pending_messages df) n = Some c \<Longrightarrow>
     wired (df\<lparr>subscribe_channels := AList.update n c (subscribe_channels df)\<rparr>)"
  "wired df \<Longrightarrow> wired (df\<lparr>pending_messages := AList.update n c (pending_messages df),
     subscribe_channels := AList.delete n (subscribe_channels df)\<rparr>)"
  by (auto simp: wired_def delete_conv' update_conv')

lemma wired_same:
  "map_of (subscribe_channels df') = map_of (subscribe_channels df) \<Longrightarrow>
   map_of (pending_messages df') = map_of (pending_messages df) \<Longrightarrow> wired df' = wired df"
  by (simp add: wired_def)

lemma data_below_send: "data_below ch \<Longrightarrow> data_below (snd (send_with_timestamp e ch))"
proof -
  assume d: "data_below ch"
  have "length (ch_queue ch) \<le> NODE_EVENT_CHANNEL_CAPACITY - CONTROL_EVENT_HEADROOM"
    if "fst (send_with_timestamp e ch) = Sent" "is_data e"
    using that by (auto simp: send_with_timestamp_def ch_capacity_def NODE_EVENT_CHANNEL_CAPACITY_def
        CONTROL_EVENT_HEADROOM_def split: if_splits)
  with d show ?thesis
    using gated.send_bounded [of ch e]
    by (auto simp: data_below_def gated.queue_after nth_append less_Suc_eq)
qed

lemma data_below_tail: "data_below ch \<Longrightarrow> ch_queue ch = e # es \<Longrightarrow> data_below (ch\<lparr>ch_queue := es\<rparr>)"
  by (fastforce simp: data_below_def)

interpretation cnt: channel_invariant counted
proof
  show "counted df'" if "counted df" "same_channels df df'" for df df'
    using that by (auto simp: counted_def same_channels_def wired_same [of df' df])
  show "map_of (pending_messages df) n = Some c" if "counted df" "map_of (subscribe_channels df) n = Some c" for df n c
    using that by (simp add: counted_def wired_def)
  show "counted (deliver_pair c e df)" if "counted df" for c e df
    using that by (auto simp: counted_def wired_def deliver_pair_def delivered_def gated.queue_after gated.closed_after)
  show "counted (end_listener c df)" if "counted df" for c df
    using that by (auto simp: counted_def wired_def end_listener_def close_channel_def)
  show "counted df'" if "counted df" "take_event c df = Some (e, df')" for df c e df'
    using that by (auto simp: counted_def wired_def take_event_def split: list.splits)
qed (auto simp: counted_def wired_simps new_channel_def, auto simp: wired_def update_conv' delete_conv')

interpretation hrm: channel_invariant headroom
proof
  show "headroom df'" if "headroom df" "same_channels df df'" for df df'
    using that by (auto simp: headroom_def same_channels_def wired_same [of df' df])
  show "map_of (pending_messages df) n = Some c" if "headroom df" "map_of (subscribe_channels df) n = Some c" for df n c
    using that by (simp add: headroom_def wired_def)
  show "headroom (deliver_pair c e df)" if "headroom df" for c e df
    using that data_below_send [of "channels df c" e] by (auto simp: headroom_def wired_def deliver_pair_def)
  show "headroom (end_listener c df)" if "headroom df" for c df
    using that by (auto simp: headroom_def wired_def end_listener_def close_channel_def data_below_def)
  show "headroom df'" if "headroom df" "take_event c df = Some (e, df')" for df c e df'
    using that data_below_tail [of "channels df c" e]
    by (auto simp: headroom_def wired_def take_event_def split: list.splits)
qed (auto simp: headroom_def wired_simps new_channel_def data_below_def, auto simp: wired_def update_conv' delete_conv')

section \<open>Open, broken and watched inputs\<close>

text \<open>
  Outside the set \<open>K\<close>, only open inputs have a deadline; a broken input is not open. The second set
  is needed while a batch of timed-out inputs is being processed.
\<close>

definition breaker_upto :: "(NodeId \<times> DataId) set \<Rightarrow> 'x RunningDataflow \<Rightarrow> bool" where
  "breaker_upto K df \<longleftrightarrow>
     (\<forall>n i. (n, i) \<notin> K \<longrightarrow> map_of (input_deadlines df) (n, i) \<noteq> None \<longrightarrow> i \<in> open_inputs n df) \<and>
     (\<forall>n i. map_of (broken_inputs df) (n, i) \<noteq> None \<longrightarrow> i \<notin> open_inputs n df)"

abbreviation breaker_ok :: "'x RunningDataflow \<Rightarrow> bool" where
  "breaker_ok \<equiv> breaker_upto {}"

definition same_inputs :: "'x RunningDataflow \<Rightarrow> 'x RunningDataflow \<Rightarrow> bool" where
  "same_inputs df df' \<longleftrightarrow> open_inputs_map df' = open_inputs_map df \<and>
     input_deadlines df' = input_deadlines df \<and> broken_inputs df' = broken_inputs df \<and>
     edge_mappings df' = edge_mappings df"

lemma same_inputs_refl [simp]: "same_inputs df df"
  by (simp add: same_inputs_def)

lemma same_inputs_trans: "same_inputs df df' \<Longrightarrow> same_inputs df' df'' \<Longrightarrow> same_inputs df df''"
  by (simp add: same_inputs_def)

lemma stats_only_inputs: "stats_only df df' \<Longrightarrow> same_inputs df df'"
  by (auto simp: stats_only_def same_inputs_def)

lemma breaker_same: "same_inputs df df' \<Longrightarrow> breaker_upto K df' = breaker_upto K df"
  by (simp add: breaker_upto_def same_inputs_def open_inputs_def)

lemma same_inputs_deliver: "same_inputs df (deliver n c e df)"
  by (simp add: same_inputs_def deliver_eq)

lemma same_inputs_send_all: "same_inputs df (send_all_inputs_closed n c now df)"
  by (simp add: same_inputs_def send_all_inputs_closed_def send_to_eq inc_pending_eq split: send_outcome.split)

lemma same_inputs_finish: "same_inputs df (finish_restarts n df)"
  by (simp add: same_inputs_def finish_restarts_def update_node_def)

lemma same_inputs_signal: "same_inputs df (signal_all_inputs_closed_if_drained n now df)"
  using same_inputs_finish [of df n] same_inputs_send_all [of "finish_restarts n df" n]
  by (auto simp: signal_all_inputs_closed_if_drained_def Let_def split: option.split intro: same_inputs_trans)

lemma same_inputs_send_closed: "same_inputs df (send_input_closed n i df)"
  by (simp add: send_input_closed_def same_inputs_deliver split: option.split)

lemma open_inputs_frame [simp]:
  "open_inputs n (df\<lparr>broken_inputs := b\<rparr>) = open_inputs n df"
  "open_inputs n (df\<lparr>input_deadlines := d\<rparr>) = open_inputs n df"
  "open_inputs n (df\<lparr>ft_stats := s\<rparr>) = open_inputs n df"
  by (simp_all add: open_inputs_def)

lemma remove_input_frame [simp]:
  "broken_inputs (remove_input n i df) = broken_inputs df"
  "input_deadlines (remove_input n i df) = input_deadlines df"
  by (simp_all add: remove_input_def)

lemma open_after_remove: "open_inputs m (remove_input n i df) = open_inputs m df - (if m = n then {i} else {})"
  by (simp add: open_inputs_def remove_input_def map_of_map_entry split: option.split)

lemma open_after_add:
  "open_inputs m (df\<lparr>open_inputs_map := add_input n i (open_inputs_map df)\<rparr>) =
     open_inputs m df \<union> (if m = n then {i} else {})"
  by (simp add: open_inputs_def lookup_add_input split: option.split)

lemma lookup_fold_delete: "map_of (fold AList.delete ks m) k = (if k \<in> set ks then None else map_of m k)"
  by (induction ks arbitrary: m) (auto simp: delete_conv')

lemma breaker_close: "breaker_upto K df \<Longrightarrow> breaker_upto K (close_input n i now df)"
proof -
  assume b: "breaker_upto K df"
  let ?df = "remove_input n i (df\<lparr>broken_inputs := AList.delete (n, i) (broken_inputs df),
                  input_deadlines := AList.delete (n, i) (input_deadlines df)\<rparr>)"
  have "breaker_upto K ?df"
    using b by (auto simp: breaker_upto_def open_after_remove delete_conv')
  moreover have "same_inputs ?df (close_input n i now df)"
    using same_inputs_signal same_inputs_send_closed same_inputs_trans
    by (simp add: close_input_def Let_def) blast
  ultimately show ?thesis by (simp add: breaker_same)
qed

lemma breaker_trip:
  "breaker_upto K df \<Longrightarrow> (n, i) \<in> K \<Longrightarrow> breaker_upto K (trip_breaker now ((n, i), t) df)"
proof -
  assume b: "breaker_upto K df" and k: "(n, i) \<in> K"
  let ?df = "df\<lparr>ft_stats := (ft_stats df)\<lparr>input_timeouts := input_timeouts (ft_stats df) + 1\<rparr>,
           broken_inputs := AList.update (n, i) t (broken_inputs df)\<rparr>"
  let ?gone = "map_of (open_inputs_map df) n \<noteq> None \<and> i \<notin> open_inputs n df"
  have "breaker_upto K (?df\<lparr>broken_inputs := AList.delete (n, i) (broken_inputs ?df)\<rparr>)"
    using b by (auto simp: breaker_upto_def delete_conv' update_conv')
  moreover have "breaker_upto K (remove_input n i ?df)"
    using b k by (auto simp: breaker_upto_def open_after_remove update_conv')
  moreover have "same_inputs (remove_input n i ?df)
      (signal_all_inputs_closed_if_drained n now (send_input_closed n i (remove_input n i ?df)))"
    using same_inputs_signal same_inputs_send_closed same_inputs_trans by blast
  ultimately show ?thesis
    by (simp add: trip_breaker_def break_input_def breaker_same)
qed

lemma breaker_timeouts: "breaker_ok df \<Longrightarrow> breaker_ok (check_input_timeouts now df)"
proof -
  assume b: "breaker_ok df"
  let ?ts = "timed_out_inputs now df" and ?K = "fst ` set (timed_out_inputs now df)"
  have "breaker_upto ?K df"
    using b by (simp add: breaker_upto_def)
  then have "breaker_upto ?K (fold (trip_breaker now) ?ts df)"
    by (rule fold_invariant [where Q = "\<lambda>t. t \<in> set ?ts", rotated]) (auto intro!: breaker_trip image_eqI)
  then show ?thesis
    by (auto simp: check_input_timeouts_def Let_def breaker_upto_def lookup_fold_delete)
qed

lemma breaker_recover: "breaker_ok df \<Longrightarrow> breaker_ok (recover_input n i c now df)"
proof (cases "map_of (broken_inputs df) (n, i)")
  case (Some t)
  assume b: "breaker_ok df"
  let ?df = "df\<lparr>broken_inputs := AList.delete (n, i) (broken_inputs df),
                ft_stats := (ft_stats df)\<lparr>circuit_breaker_recoveries :=
                  circuit_breaker_recoveries (ft_stats df) + 1\<rparr>,
                open_inputs_map := add_input n i (open_inputs_map df),
                input_deadlines := AList.update (n, i) \<lparr> timeout = t, last_received = Some now \<rparr>
                  (input_deadlines df)\<rparr>"
  have "open_inputs m ?df = open_inputs m df \<union> (if m = n then {i} else {})" for m
    using open_after_add [where m = m and df = df and n = n and i = i] by (simp add: open_inputs_def)
  with b have "breaker_ok ?df"
    by (auto simp: breaker_upto_def delete_conv' update_conv')
  then show ?thesis
    using Some by (simp add: recover_input_def breaker_same [OF same_inputs_deliver])
qed (simp add: recover_input_def)

lemma breaker_refresh: "breaker_ok df \<Longrightarrow> breaker_ok (refresh_deadline k now df)"
  by (auto simp: breaker_upto_def refresh_deadline_def map_of_map_entry split: option.splits)

lemma breaker_note: "breaker_ok df \<Longrightarrow> breaker_ok (note_receiver now r df)"
  by (cases r) (simp add: note_receiver_def breaker_recover breaker_refresh split: option.split)

lemma breaker_note_output: "breaker_ok df \<Longrightarrow> breaker_ok (note_output_sent_to_local_receivers n out now df)"
  unfolding note_output_sent_to_local_receivers_def
  by (auto intro!: fold_invariant [where P = breaker_ok and Q = "\<lambda>_. True"] breaker_note)

lemma breaker_offer:
  "breaker_ok df \<Longrightarrow> offer_event n i c e (deferred, closed, df) = (acc, ds, cl, df') \<Longrightarrow> breaker_ok df'"
  using offer_event_cases [of n i c e deferred closed df acc ds cl df'] breaker_same [OF same_inputs_deliver]
    breaker_same [OF stats_only_inputs] by blast

lemma breaker_send_receivers:
  "breaker_ok df \<Longrightarrow> fold (send_to_receiver mk now) rs (deferred, closed, df) = (ds, cl, df') \<Longrightarrow> breaker_ok df'"
proof (induction rs arbitrary: deferred closed df)
  case (Cons r rs)
  obtain n i where r: "r = (n, i)" by (cases r)
  obtain ds1 cl1 df1 where s: "send_to_receiver mk now r (deferred, closed, df) = (ds1, cl1, df1)"
    by (metis prod_cases3)
  have "breaker_ok df1"
  proof (cases "map_of (subscribe_channels df) n")
    case None
    with s Cons.prems(1) show ?thesis
      by (auto simp: r send_to_receiver_def breaker_upto_def open_inputs_def split: if_splits)
  next
    case (Some c)
    obtain acc ds' cl' df' where off: "offer_event n i c (mk i) (deferred, closed, df) = (acc, ds', cl', df')"
      by (metis prod_cases4)
    with Cons.prems(1) have "breaker_ok df'" by (rule breaker_offer)
    with s Some off show ?thesis
      by (auto simp: r send_to_receiver_def breaker_recover breaker_refresh split: if_splits)
  qed
  with Cons s show ?case by simp
qed simp

lemma breaker_closed_events: "breaker_ok df \<Longrightarrow> breaker_ok (snd (send_output_closed_events n outputs now df))"
  unfolding send_output_closed_events_def Let_def snd_conv
  by (rule fold_invariant [where Q = "\<lambda>_. True"]) (auto simp: breaker_close)

end
