(* ===== verification/Framing.thy ===== *)
theory Framing
  imports Dora_Prelude
begin

text \<open>
  The length-prefixed frames on the TCP connection between a daemon and a node: the daemon side
  (\<open>binaries/daemon/src/socket_stream_utils.rs\<close>) and the node side
  (\<open>apis/rust/node/src/daemon_connection/tcp.rs\<close>). A sender's state is the list of buffers it has
  handed to \<open>write_all\<close>, a receiver reads from the bytes that have arrived; a source that ends
  early is \<open>UnexpectedEof\<close>. Read timeouts and other I/O errors are not modelled. Addresses have
  64 bits, so the conversion of the length to \<open>usize\<close> cannot fail.
\<close>

definition MAX_MESSAGE_BYTES :: nat where
  "MAX_MESSAGE_BYTES = 64 * 1024 * 1024"

definition COALESCE_THRESHOLD :: nat where
  "COALESCE_THRESHOLD = 16 * 1024"

datatype io_error = OutgoingTooLarge nat | IncomingTooLarge nat | FrameEof

section \<open>The daemon side\<close>

definition socket_stream_send :: "byte list \<Rightarrow> byte list list \<Rightarrow> io_error + byte list list" where
  "socket_stream_send message written =
     (if MAX_MESSAGE_BYTES < length message then Inl (OutgoingTooLarge (length message))
      else let len_raw = to_le 8 (length message) in
        if length message \<le> COALESCE_THRESHOLD then Inr (written @ [len_raw @ message])
        else Inr (written @ [len_raw, message]))"

definition socket_stream_receive :: "byte list \<Rightarrow> io_error + (byte list \<times> byte list)" where
  "socket_stream_receive source =
     (case read_exact 8 source of
        None \<Rightarrow> Inl FrameEof
      | Some (raw, source) \<Rightarrow>
          let reply_len = from_le raw in
          if MAX_MESSAGE_BYTES < reply_len then Inl (IncomingTooLarge reply_len)
          else (case read_exact reply_len source of
                  None \<Rightarrow> Inl FrameEof
                | Some reply \<Rightarrow> Inr reply))"

section \<open>The node side\<close>

definition tcp_send :: "byte list \<Rightarrow> byte list list \<Rightarrow> io_error + byte list list" where
  "tcp_send message written =
     (if MAX_MESSAGE_BYTES < length message then Inl (OutgoingTooLarge (length message))
      else let len_raw = to_le 8 (length message) in
        if length message \<le> COALESCE_THRESHOLD then Inr (written @ [len_raw @ message])
        else Inr (written @ [len_raw, message]))"

definition tcp_receive :: "byte list \<Rightarrow> io_error + (byte list \<times> byte list)" where
  "tcp_receive source =
     (case read_exact 8 source of
        None \<Rightarrow> Inl FrameEof
      | Some (raw, source) \<Rightarrow>
          let reply_len = from_le raw in
          if MAX_MESSAGE_BYTES < reply_len then Inl (IncomingTooLarge reply_len)
          else (case read_exact reply_len source of
                  None \<Rightarrow> Inl FrameEof
                | Some reply \<Rightarrow> Inr reply))"

section \<open>The contract of a frame transport\<close>

text \<open>
  The two directions of the connection rely on the same contract: what is written for a message is
  its length followed by its bytes, however it is split into buffers, and what is read from
  such bytes is the message and the untouched rest.
\<close>

definition frame :: "byte list \<Rightarrow> byte list" where
  "frame message = to_le 8 (length message) @ message"

text \<open>A connection over which several messages are sent before they are read.\<close>

primrec send_all ::
  "(byte list \<Rightarrow> byte list list \<Rightarrow> io_error + byte list list) \<Rightarrow> byte list list \<Rightarrow>
   byte list list \<Rightarrow> io_error + byte list list" where
  "send_all send [] written = Inr written"
| "send_all send (m # ms) written =
     (case send m written of Inl err \<Rightarrow> Inl err | Inr written \<Rightarrow> send_all send ms written)"

primrec receive_all ::
  "(byte list \<Rightarrow> io_error + (byte list \<times> byte list)) \<Rightarrow> nat \<Rightarrow> byte list \<Rightarrow>
   io_error + (byte list list \<times> byte list)" where
  "receive_all receive 0 source = Inr ([], source)"
| "receive_all receive (Suc k) source =
     (case receive source of
        Inl err \<Rightarrow> Inl err
      | Inr (m, source) \<Rightarrow>
          (case receive_all receive k source of
             Inl err \<Rightarrow> Inl err
           | Inr (ms, source) \<Rightarrow> Inr (m # ms, source)))"

locale frame_transport =
  fixes send :: "byte list \<Rightarrow> byte list list \<Rightarrow> io_error + byte list list"
    and receive :: "byte list \<Rightarrow> io_error + (byte list \<times> byte list)"
  assumes send_frame: "length m \<le> MAX_MESSAGE_BYTES \<Longrightarrow>
      \<exists>bufs. send m written = Inr (written @ bufs) \<and> concat bufs = frame m"
    and send_too_large: "MAX_MESSAGE_BYTES < length m \<Longrightarrow> send m written = Inl (OutgoingTooLarge (length m))"
    and receive_frame: "length m \<le> MAX_MESSAGE_BYTES \<Longrightarrow> receive (frame m @ rest) = Inr (m, rest)"
begin

lemma send_all_sent:
  "send_all send ms written = Inr written' \<Longrightarrow>
   (\<forall>m\<in>set ms. length m \<le> MAX_MESSAGE_BYTES) \<and>
   concat written' = concat written @ concat (map frame ms)"
proof (induction ms arbitrary: written)
  case (Cons m ms)
  have m: "length m \<le> MAX_MESSAGE_BYTES"
    using Cons.prems send_too_large [of m written] by (cases "length m \<le> MAX_MESSAGE_BYTES") auto
  then obtain bufs where "send m written = Inr (written @ bufs)" "concat bufs = frame m"
    using send_frame by blast
  with Cons m show ?case by auto
qed simp

lemma send_all_total:
  "(\<forall>m\<in>set ms. length m \<le> MAX_MESSAGE_BYTES) \<Longrightarrow> \<exists>written'. send_all send ms written = Inr written'"
proof (induction ms arbitrary: written)
  case (Cons m ms)
  then obtain bufs where "send m written = Inr (written @ bufs)"
    using send_frame [of m written] by auto
  with Cons show ?case by simp
qed simp

lemma receive_frames:
  "(\<forall>m\<in>set ms. length m \<le> MAX_MESSAGE_BYTES) \<Longrightarrow>
   receive_all receive (length ms) (concat (map frame ms) @ rest) = Inr (ms, rest)"
  by (induction ms) (simp_all add: receive_frame)

lemma transport_roundtrip:
  "(\<exists>written. send_all send ms [] = Inr written \<and>
      receive_all receive (length ms) (concat written @ rest) = Inr (ms, rest)) \<longleftrightarrow>
   (\<forall>m\<in>set ms. length m \<le> MAX_MESSAGE_BYTES)"
  using send_all_sent [of ms "[]"] send_all_total [of ms "[]"] receive_frames [of ms rest] by fastforce

end

lemma receive_frame_bytes:
  assumes "length m \<le> MAX_MESSAGE_BYTES"
  shows "from_le (to_le 8 (length m)) = length m"
  using assms by (intro from_le_to_le) (simp add: MAX_MESSAGE_BYTES_def)

interpretation down: frame_transport socket_stream_send tcp_receive
  by unfold_locales
    (auto simp: socket_stream_send_def tcp_receive_def frame_def Let_def read_exact_append receive_frame_bytes)

interpretation up: frame_transport tcp_send socket_stream_receive
  by unfold_locales
    (auto simp: tcp_send_def socket_stream_receive_def frame_def Let_def read_exact_append receive_frame_bytes)

text \<open>C23: Whatever sequence of messages one side of the connection writes, the other side
  reads back exactly these messages in order and leaves the following bytes untouched, whether or
  not the sender joined header and body in one buffer; this works precisely when every message
  keeps to the frame limit, in both directions.\<close>

theorem frames_roundtrip:
  "((\<exists>written. send_all socket_stream_send ms [] = Inr written \<and>
      receive_all tcp_receive (length ms) (concat written @ rest) = Inr (ms, rest)) \<longleftrightarrow>
     list_all (\<lambda>m. length m \<le> MAX_MESSAGE_BYTES) ms) \<and>
   ((\<exists>written. send_all tcp_send ms [] = Inr written \<and>
      receive_all socket_stream_receive (length ms) (concat written @ rest) = Inr (ms, rest)) \<longleftrightarrow>
     list_all (\<lambda>m. length m \<le> MAX_MESSAGE_BYTES) ms)"
  using down.transport_roundtrip [of ms rest] up.transport_roundtrip [of ms rest]
  by (simp_all add: list_all_iff)

end
