(* ===== verification/Node_Listener.thy ===== *)
theory Node_Listener
  imports Local_Delivery Framing
begin

text \<open>
  The daemon's listener of one node connection, \<open>binaries/daemon/src/node_communication/mod.rs\<close>:
  the bounded queue of events that were taken from the node's channel, the reply to
  \<open>NextEvent\<close>, and \<open>deliver_when_room\<close>, which holds a producer until its receiver has room.

  The exact wire length of an event (\<open>dora_message::serialized_size\<close>, of the postcard library)
  is a parameter of the model; \<open>None\<close> is its error. The channel and the counter of a
  subscription have one number, as in \<open>handle_subscribe\<close>.
\<close>

section \<open>The queue of a listener\<close>

definition NEXT_EVENTS_FRAME_OVERHEAD :: nat where
  "NEXT_EVENTS_FRAME_OVERHEAD = 32"

definition NEXT_EVENTS_REPLY_BUDGET :: nat where
  "NEXT_EVENTS_REPLY_BUDGET = MAX_MESSAGE_BYTES - NEXT_EVENTS_FRAME_OVERHEAD"

definition LISTENER_QUEUE_MAX_EVENTS :: nat where
  "LISTENER_QUEUE_MAX_EVENTS = NODE_EVENT_CHANNEL_CAPACITY"

definition LISTENER_QUEUE_MAX_BYTES :: nat where
  "LISTENER_QUEUE_MAX_BYTES = 4 * MAX_MESSAGE_BYTES"

definition queue_saturated :: "nat \<Rightarrow> nat \<Rightarrow> bool" where
  "queue_saturated events bytes \<longleftrightarrow>
     LISTENER_QUEUE_MAX_EVENTS \<le> events \<or> LISTENER_QUEUE_MAX_BYTES \<le> bytes"

record 'x SizedEvent =
  ev_size :: nat
  ev :: "'x NodeEvent"

definition sized_event :: "('x NodeEvent \<Rightarrow> nat option) \<Rightarrow> 'x NodeEvent \<Rightarrow> 'x SizedEvent" where
  "sized_event serialized_size e =
     \<lparr> ev_size = (case serialized_size e of Some s \<Rightarrow> s | None \<Rightarrow> encode_size_hint e), ev = e \<rparr>"

record 'x Listener =
  subscribed_events :: "nat option"
  lqueue :: "'x SizedEvent list"
  queued_bytes :: nat
  drained :: nat

definition usize_add :: "nat \<Rightarrow> nat \<Rightarrow> nat" where
  "usize_add a b = min (a + b) usize_max"

definition saturated :: "'x Listener \<Rightarrow> bool" where
  "saturated l = queue_saturated (length (lqueue l)) (queued_bytes l)"

definition enqueue :: "('x NodeEvent \<Rightarrow> nat option) \<Rightarrow> 'x NodeEvent \<Rightarrow> 'x Listener \<Rightarrow> 'x Listener" where
  "enqueue serialized_size e l =
     (let sized = sized_event serialized_size e
      in l\<lparr>queued_bytes := usize_add (queued_bytes l) (ev_size sized), lqueue := lqueue l @ [sized]\<rparr>)"

definition pop_front :: "'x Listener \<Rightarrow> ('x SizedEvent \<times> 'x Listener) option" where
  "pop_front l =
     (case lqueue l of
        [] \<Rightarrow> None
      | sized # q \<Rightarrow> Some (sized, l\<lparr>lqueue := q, queued_bytes := queued_bytes l - ev_size sized\<rparr>))"

text \<open>The loop of \<open>take_queued_events_within_budget\<close> with its batch and the bytes in it.\<close>

function take_within_budget ::
  "'x NodeEvent list \<Rightarrow> nat \<Rightarrow> 'x Listener \<Rightarrow> 'x NodeEvent list \<times> 'x Listener" where
  "take_within_budget batch batch_bytes l =
     (case pop_front l of
        None \<Rightarrow> (batch, l)
      | Some (front, l') \<Rightarrow>
          if NEXT_EVENTS_REPLY_BUDGET < ev_size front then take_within_budget batch batch_bytes l'
          else if batch \<noteq> [] \<and> NEXT_EVENTS_REPLY_BUDGET < usize_add batch_bytes (ev_size front) then (batch, l)
          else take_within_budget (batch @ [ev front]) (usize_add batch_bytes (ev_size front)) l')"
  by auto
termination
  by (relation "measure (\<lambda>(batch, bytes, l). length (lqueue l))")
    (auto simp: pop_front_def split: list.splits)

declare take_within_budget.simps [simp del]

definition take_queued_events_within_budget :: "'x Listener \<Rightarrow> 'x NodeEvent list \<times> 'x Listener" where
  "take_queued_events_within_budget l = take_within_budget [] 0 l"

section \<open>Taking events from the channel\<close>

definition note_drained :: "'x Listener \<Rightarrow> 'x RunningDataflow \<Rightarrow> 'x RunningDataflow" where
  "note_drained l df =
     (case subscribed_events l of
        None \<Rightarrow> df
      | Some c \<Rightarrow>
          if CONTROL_EVENT_HEADROOM \<le> ch_capacity (channels df c) \<and> gave_up (signals df (drained l))
          then df\<lparr>signals := (signals df)(drained l := (signals df (drained l))\<lparr>gave_up := False\<rparr>)\<rparr>
          else df)"

text \<open>\<open>next_event\<close> with the \<open>note_drained\<close> and \<open>enqueue\<close> that follow it in the select loop: one event
  moves from the channel to the queue; nothing happens while the queue is saturated or the
  channel is empty.\<close>

definition pull_event ::
  "('x NodeEvent \<Rightarrow> nat option) \<Rightarrow> 'x Listener \<times> 'x RunningDataflow \<Rightarrow>
   ('x Listener \<times> 'x RunningDataflow) option" where
  "pull_event serialized_size = (\<lambda>(l, df).
     if saturated l then None
     else (case subscribed_events l of
             None \<Rightarrow> None
           | Some c \<Rightarrow>
               (case take_event c df of
                  None \<Rightarrow> None
                | Some (e, df) \<Rightarrow> Some (enqueue serialized_size e l, note_drained l df))))"

definition backlog :: "'x Listener \<times> 'x RunningDataflow \<Rightarrow> 'x NodeEvent list" where
  "backlog = (\<lambda>(l, df). case subscribed_events l of None \<Rightarrow> [] | Some c \<Rightarrow> ch_queue (channels df c))"

lemma pull_event_backlog:
  "pull_event ss (l, df) = Some (l', df') \<Longrightarrow>
   \<exists>e. backlog (l, df) = e # backlog (l', df') \<and> lqueue l' = lqueue l @ [sized_event ss e] \<and>
     queued_bytes l' = usize_add (queued_bytes l) (ev_size (sized_event ss e)) \<and> \<not> saturated l"
  by (auto simp: pull_event_def backlog_def take_event_def enqueue_def note_drained_def Let_def
      split: option.splits list.splits if_splits)

function handle_events ::
  "('x NodeEvent \<Rightarrow> nat option) \<Rightarrow> 'x Listener \<times> 'x RunningDataflow \<Rightarrow> 'x Listener \<times> 'x RunningDataflow" where
  "handle_events serialized_size s =
     (case pull_event serialized_size s of
        None \<Rightarrow> s
      | Some s \<Rightarrow> handle_events serialized_size s)"
  by auto
termination
  by (relation "measure (\<lambda>(ss, s). length (backlog s))") (auto dest!: pull_event_backlog)

declare handle_events.simps [simp del]

text \<open>One round of the inner loop of \<open>run_inner\<close>.\<close>

definition receive_events ::
  "('x NodeEvent \<Rightarrow> nat option) \<Rightarrow> 'x Listener \<times> 'x RunningDataflow \<Rightarrow> 'x Listener \<times> 'x RunningDataflow" where
  "receive_events serialized_size s =
     (case pull_event serialized_size s of None \<Rightarrow> s | Some s \<Rightarrow> handle_events serialized_size s)"

section \<open>The reply to a request for events\<close>

datatype 'x DaemonReply = ResultErr string | NextEvents "'x NodeEvent list"

text \<open>\<open>NextEvent\<close>: \<open>None\<close> is a listener that keeps waiting for its channel. The argument \<open>senders_gone\<close>
  tells whether every sender of the channel has been dropped.\<close>

definition next_event_request ::
  "bool \<Rightarrow> 'x Listener \<times> 'x RunningDataflow \<Rightarrow> ('x DaemonReply \<times> 'x Listener \<times> 'x RunningDataflow) option" where
  "next_event_request senders_gone = (\<lambda>(l, df).
     (case take_queued_events_within_budget l of
        (batch, l) \<Rightarrow>
          if batch \<noteq> [] then Some (NextEvents batch, l, df)
          else (case subscribed_events l of
                  None \<Rightarrow> Some (ResultErr ''Ignoring event request because no subscribe message was sent yet'', l, df)
                | Some c \<Rightarrow>
                    (case take_event c df of
                       Some (e, df) \<Rightarrow> Some (NextEvents [e], l, note_drained l df)
                     | None \<Rightarrow> if senders_gone then Some (NextEvents [], l, df) else None))))"

section \<open>Holding a producer\<close>

definition BACKPRESSURE_STALL_LIMIT :: Duration where
  "BACKPRESSURE_STALL_LIMIT = 60000000000"

definition BACKPRESSURE_STALL_TICK :: Duration where
  "BACKPRESSURE_STALL_TICK = 1000000000"

datatype hold_result = Holding | Finished

definition record_lost :: "'x RunningDataflow \<Rightarrow> 'x RunningDataflow" where
  "record_lost df = df\<lparr>ft_stats := stats_record_drop 1 True (ft_stats df)\<rparr>"

text \<open>One look of \<open>deliver_when_room\<close> at the channel.\<close>

definition hold_closed :: "'x DeferredDelivery \<Rightarrow> 'x RunningDataflow \<Rightarrow> hold_result \<times> 'x RunningDataflow" where
  "hold_closed dd df =
     (Finished, if stream_dropped (signals df (dd_drained dd)) then df else record_lost df)"

definition hold_look :: "'x DeferredDelivery \<Rightarrow> 'x RunningDataflow \<Rightarrow> hold_result \<times> 'x RunningDataflow" where
  "hold_look dd df =
     (let c = dd_channel dd;
          wait = (if ch_closed (channels df c) then hold_closed dd df else (Holding, df))
      in if CONTROL_EVENT_HEADROOM \<le> ch_capacity (channels df c)
         then (case try_send (dd_event dd) (channels df c) of
                 (Sent, ch) \<Rightarrow>
                   (let df = df\<lparr>channels := (channels df)(c := ch)\<rparr>
                    in (Finished, case dd_pending dd of
                          None \<Rightarrow> df
                        | Some k \<Rightarrow> df\<lparr>counters := (counters df)(k := counters df k + 1)\<rparr>))
               | (Closed, _) \<Rightarrow> hold_closed dd df
               | (Full, _) \<Rightarrow> wait)
         else wait)"

text \<open>How a wait of one tick ends: with a wake-up from the receiver's listener, or without.\<close>

datatype wake = Notified | Elapsed

definition hold_wait ::
  "'x DeferredDelivery \<Rightarrow> wake \<Rightarrow> Duration \<Rightarrow> 'x RunningDataflow \<Rightarrow> hold_result \<times> Duration \<times> 'x RunningDataflow" where
  "hold_wait dd w stalled df =
     (case w of
        Notified \<Rightarrow> (Holding, 0, df)
      | Elapsed \<Rightarrow>
          (let stalled = stalled + BACKPRESSURE_STALL_TICK; d = dd_drained dd
           in if gave_up (signals df d) then (Finished, stalled, record_lost df)
              else if BACKPRESSURE_STALL_LIMIT \<le> stalled
                then (Finished, stalled,
                      (record_lost df)\<lparr>signals := (signals df)(d := (signals df d)\<lparr>gave_up := True\<rparr>)\<rparr>)
              else (Holding, stalled, df)))"

text \<open>\<open>deliver_when_room\<close> as far as the given waits go: what the rest of the daemon does to the dataflow
  during a wait is a function of it.\<close>

fun deliver_when_room ::
  "'x DeferredDelivery \<Rightarrow> Duration \<Rightarrow> (wake \<times> ('x RunningDataflow \<Rightarrow> 'x RunningDataflow)) list \<Rightarrow>
   'x RunningDataflow \<Rightarrow> hold_result \<times> 'x RunningDataflow" where
  "deliver_when_room dd stalled [] df = hold_look dd df"
| "deliver_when_room dd stalled ((w, env) # ws) df =
     (case hold_look dd df of
        (Finished, df) \<Rightarrow> (Finished, df)
      | (Holding, df) \<Rightarrow>
          (case hold_wait dd w stalled (env df) of
             (Finished, _, df) \<Rightarrow> (Finished, df)
           | (Holding, stalled, df) \<Rightarrow> deliver_when_room dd stalled ws df))"

section \<open>What a listener keeps\<close>

definition queue_bytes :: "'x SizedEvent list \<Rightarrow> nat" where
  "queue_bytes q = sum_list (map ev_size q)"

definition listener_ok :: "'x Listener \<Rightarrow> bool" where
  "listener_ok l \<longleftrightarrow> length (lqueue l) \<le> LISTENER_QUEUE_MAX_EVENTS \<and>
     queued_bytes l = queue_bytes (lqueue l) \<and>
     queue_bytes (butlast (lqueue l)) < LISTENER_QUEUE_MAX_BYTES"

definition fits :: "'x SizedEvent \<Rightarrow> bool" where
  "fits s \<longleftrightarrow> ev_size s \<le> NEXT_EVENTS_REPLY_BUDGET"

lemma queue_bytes_simps [simp]:
  "queue_bytes [] = 0" "queue_bytes (s # q) = ev_size s + queue_bytes q"
  "queue_bytes (p @ q) = queue_bytes p + queue_bytes q"
  by (simp_all add: queue_bytes_def)

lemma queue_bytes_butlast: "queue_bytes (butlast q) \<le> queue_bytes q"
  by (induction q) simp_all

text \<open>Taking from the queue splits it, apart from the events that fit no frame.\<close>

definition taken ::
  "'x NodeEvent list \<Rightarrow> 'x NodeEvent list \<Rightarrow> 'x Listener \<Rightarrow> 'x Listener \<Rightarrow> 'x SizedEvent list \<Rightarrow> bool" where
  "taken batch batch' l l' q \<longleftrightarrow> lqueue l = q @ lqueue l' \<and> batch' = batch @ map ev (filter fits q) \<and>
     subscribed_events l' = subscribed_events l \<and> drained l' = drained l \<and>
     (queued_bytes l = queue_bytes (lqueue l) \<longrightarrow> queued_bytes l' = queue_bytes (lqueue l')) \<and>
     (batch' = [] \<longrightarrow> lqueue l' = [])"

lemma take_within_split:
  "take_within_budget batch bytes l = (batch', l') \<Longrightarrow> \<exists>q. taken batch batch' l l' q"
proof (induction batch bytes l rule: take_within_budget.induct)
  case (1 batch bytes l)
  show ?case
  proof (cases "lqueue l")
    case Nil
    with "1.prems" show ?thesis by (simp add: take_within_budget.simps [of batch] pop_front_def taken_def)
  next
    case (Cons s q)
    let ?l = "l\<lparr>lqueue := q, queued_bytes := queued_bytes l - ev_size s\<rparr>"
    have p: "pop_front l = Some (s, ?l)" using Cons by (simp add: pop_front_def)
    have big: "NEXT_EVENTS_REPLY_BUDGET < ev_size s \<longleftrightarrow> \<not> fits s" by (auto simp: fits_def)
    let ?stop = "batch \<noteq> [] \<and> NEXT_EVENTS_REPLY_BUDGET < usize_add bytes (ev_size s)"
    consider "\<not> fits s" | "fits s" ?stop | "fits s" "\<not> ?stop" by blast
    then show ?thesis
    proof cases
      case 1
      with "1.prems" p have "take_within_budget batch bytes ?l = (batch', l')"
        by (simp add: take_within_budget.simps [of batch] big)
      then obtain r where "taken batch batch' ?l l' r"
        using "1.IH"(1) [OF p refl] big 1 by blast
      with 1 Cons show ?thesis by (intro exI [of _ "s # r"]) (simp add: taken_def)
    next
      case 2
      with "1.prems" p big Cons show ?thesis
        by (intro exI [of _ "[]"]) (simp add: take_within_budget.simps [of batch] taken_def)
    next
      case 3
      with "1.prems" p have "take_within_budget (batch @ [ev s]) (usize_add bytes (ev_size s)) ?l = (batch', l')"
        by (auto simp: take_within_budget.simps [of batch] big)
      then obtain r where "taken (batch @ [ev s]) batch' ?l l' r"
        using "1.IH"(2) [OF p refl] big 3 by blast
      with 3 Cons show ?thesis by (intro exI [of _ "s # r"]) (simp add: taken_def)
    qed
  qed
qed

text \<open>The bytes of a batch keep to the budget.\<close>

lemma take_within_bytes:
  assumes "take_within_budget batch bytes l = (batch', l')"
    and "\<And>s. s \<in> set (lqueue l) \<Longrightarrow> ev_size s = sz (ev s)"
    and "sum_list (map sz batch) = bytes" and "bytes \<le> NEXT_EVENTS_REPLY_BUDGET"
    and "batch = [] \<Longrightarrow> bytes = 0"
  shows "sum_list (map sz batch') \<le> NEXT_EVENTS_REPLY_BUDGET"
  using assms
proof (induction batch bytes l rule: take_within_budget.induct)
  case (1 batch bytes l)
  show ?case
  proof (cases "lqueue l")
    case Nil
    with "1.prems" show ?thesis by (simp add: take_within_budget.simps [of batch] pop_front_def)
  next
    case (Cons s q)
    let ?l = "l\<lparr>lqueue := q, queued_bytes := queued_bytes l - ev_size s\<rparr>"
    have p: "pop_front l = Some (s, ?l)" using Cons by (simp add: pop_front_def)
    have s: "ev_size s = sz (ev s)" using "1.prems"(2) Cons by simp
    have q: "\<And>s. s \<in> set (lqueue ?l) \<Longrightarrow> ev_size s = sz (ev s)" using "1.prems"(2) Cons by simp
    have max: "NEXT_EVENTS_REPLY_BUDGET < usize_max"
      by (simp add: NEXT_EVENTS_REPLY_BUDGET_def MAX_MESSAGE_BYTES_def NEXT_EVENTS_FRAME_OVERHEAD_def
          usize_max_def u64_max_def)
    have add: "usize_add bytes (ev_size s) \<le> NEXT_EVENTS_REPLY_BUDGET \<longleftrightarrow> bytes + sz (ev s) \<le> NEXT_EVENTS_REPLY_BUDGET"
      using max s by (simp add: usize_add_def min_le_iff_disj)
    consider (big) "\<not> fits s" | (stop) "fits s" "batch \<noteq> []" "\<not> bytes + sz (ev s) \<le> NEXT_EVENTS_REPLY_BUDGET"
      | (more) "fits s" "bytes + sz (ev s) \<le> NEXT_EVENTS_REPLY_BUDGET"
      using "1.prems"(5) s by (fastforce simp: fits_def)
    then show ?thesis
    proof cases
      case big
      with "1.prems"(1) p have "take_within_budget batch bytes ?l = (batch', l')"
        by (simp add: take_within_budget.simps [of batch] fits_def)
      from "1.IH"(1) [OF p refl _ this q] big "1.prems"(3-5) show ?thesis by (simp add: fits_def)
    next
      case stop
      with "1.prems" p add show ?thesis
        by (auto simp: take_within_budget.simps [of batch] fits_def not_le)
    next
      case more
      then have u: "usize_add bytes (ev_size s) = bytes + sz (ev s)"
        using max s by (simp add: usize_add_def)
      from more add "1.prems"(1) p
      have "take_within_budget (batch @ [ev s]) (usize_add bytes (ev_size s)) ?l = (batch', l')"
        by (auto simp: take_within_budget.simps [of batch] fits_def not_le)
      from "1.IH"(2) [OF p refl _ _ this q] more add u "1.prems"(3) show ?thesis
        by (simp add: fits_def not_less)
    qed
  qed
qed

lemma handle_events_invariant:
  "(\<And>s s'. P s \<Longrightarrow> pull_event ss s = Some s' \<Longrightarrow> P s') \<Longrightarrow> P s \<Longrightarrow> P (handle_events ss s)"
proof (induction ss s rule: handle_events.induct)
  case (1 ss s)
  show ?case
  proof (cases "pull_event ss s")
    case None
    with 1 show ?thesis by (simp add: handle_events.simps [of ss s])
  next
    case (Some s')
    with "1.prems" have "P s'" by blast
    with 1 Some show ?thesis by (simp add: handle_events.simps [of ss s])
  qed
qed

lemma receive_events_invariant:
  assumes "\<And>s s'. P s \<Longrightarrow> pull_event ss s = Some s' \<Longrightarrow> P s'" and "P s"
  shows "P (receive_events ss s)"
  using assms handle_events_invariant [of P ss] by (simp add: receive_events_def split: option.split)

lemma pull_event_ok:
  assumes "listener_ok l" and "pull_event ss (l, df) = Some (l', df')"
    and small: "\<And>e. ev_size (sized_event ss e) \<le> usize_max - LISTENER_QUEUE_MAX_BYTES"
  shows "listener_ok l'"
proof -
  from pull_event_backlog [OF assms(2)] obtain e where
    e: "lqueue l' = lqueue l @ [sized_event ss e]"
    "queued_bytes l' = usize_add (queued_bytes l) (ev_size (sized_event ss e))" "\<not> saturated l" by blast
  then have "queued_bytes l < LISTENER_QUEUE_MAX_BYTES" "length (lqueue l) < LISTENER_QUEUE_MAX_EVENTS"
    by (simp_all add: saturated_def queue_saturated_def)
  moreover have "LISTENER_QUEUE_MAX_BYTES \<le> usize_max"
    by (simp add: LISTENER_QUEUE_MAX_BYTES_def MAX_MESSAGE_BYTES_def usize_max_def u64_max_def)
  ultimately show ?thesis
    using assms(1) e small [of e] by (simp add: listener_ok_def usize_add_def)
qed

lemma listener_ok_drop:
  assumes "listener_ok l" and "taken batch batch' l l' q"
  shows "listener_ok l'"
proof -
  have "queue_bytes (butlast (lqueue l')) \<le> queue_bytes (butlast (q @ lqueue l'))"
    by (simp add: butlast_append)
  with assms show ?thesis by (simp add: listener_ok_def taken_def)
qed

lemma next_event_listener:
  assumes "next_event_request g (l, df) = Some (r, l', df')"
  shows "\<exists>batch q. taken [] batch l l' q"
  using assms take_within_split [of "[]" 0 l]
  by (cases "take_within_budget [] 0 l")
    (auto simp: next_event_request_def take_queued_events_within_budget_def split: if_splits option.splits)

text \<open>A connection from registration on: events arrive, the node subscribes and asks for events, and
  meanwhile the daemon does other things to the dataflow.\<close>

definition new_listener :: "nat \<Rightarrow> 'x Listener" where
  "new_listener d = \<lparr> subscribed_events = None, lqueue = [], queued_bytes = 0, drained = d \<rparr>"

inductive listener_step ::
  "('x NodeEvent \<Rightarrow> nat option) \<Rightarrow> 'x Listener \<times> 'x RunningDataflow \<Rightarrow> 'x Listener \<times> 'x RunningDataflow \<Rightarrow> bool"
  for ss where
  arrive: "listener_step ss s (receive_events ss s)"
| request: "next_event_request g s = Some (r, s') \<Longrightarrow> listener_step ss s s'"
| subscribed: "listener_step ss (l, df) (l\<lparr>subscribed_events := Some c\<rparr>, df)"
| elsewhere: "listener_step ss (l, df) (l, df')"

definition exact :: "('x NodeEvent \<Rightarrow> nat option) \<Rightarrow> 'x Listener \<Rightarrow> bool" where
  "exact ss l \<longleftrightarrow> (\<forall>s\<in>set (lqueue l). s = sized_event ss (ev s))"

lemma ev_sized [simp]: "ev (sized_event ss e) = e"
  by (simp add: sized_event_def)

lemma exact_pull: "exact ss l \<Longrightarrow> pull_event ss (l, df) = Some (l', df') \<Longrightarrow> exact ss l'"
  by (auto dest!: pull_event_backlog simp: exact_def)

lemma exact_taken: "exact ss l \<Longrightarrow> taken batch batch' l l' q \<Longrightarrow> exact ss l'"
  by (simp add: exact_def taken_def)

lemma listener_step_keeps:
  assumes "listener_step ss s s'" and "listener_ok (fst s) \<and> exact ss (fst s)"
    and "\<And>e. ev_size (sized_event ss e) \<le> usize_max - LISTENER_QUEUE_MAX_BYTES"
  shows "listener_ok (fst s') \<and> exact ss (fst s')"
  using assms(1,2)
proof cases
  case arrive
  have "(\<lambda>s. listener_ok (fst s) \<and> exact ss (fst s)) (receive_events ss s)"
    using assms(2) by (rule receive_events_invariant [rotated])
      (auto intro: pull_event_ok exact_pull assms(3))
  with arrive show ?thesis by simp
next
  case (request g r)
  then have "\<exists>batch q. taken [] batch (fst s) (fst s') q"
    using next_event_listener [of g "fst s" "snd s" r "fst s'" "snd s'"] by simp
  with assms(2) show ?thesis using listener_ok_drop exact_taken by blast
qed (simp_all add: listener_ok_def exact_def)

section \<open>Properties of the listener\<close>

text \<open>C18: What the daemon holds for a node that does not read is bounded. If no event encodes to more than
  \<open>B\<close> bytes, then at every moment of a connection the queue of its listener has at most 1000
  events and less than 256 MiB plus \<open>B\<close> bytes, and the running total of its bytes is exact.\<close>

theorem listener_memory_bounded:
  assumes "(listener_step ss)\<^sup>*\<^sup>* (new_listener d, df0) (l, df)"
    and "\<And>e. ev_size (sized_event ss e) \<le> B" and "B \<le> usize_max - LISTENER_QUEUE_MAX_BYTES"
  shows "length (lqueue l) \<le> 1000 \<and> queued_bytes l = queue_bytes (lqueue l) \<and>
     queued_bytes l < 256 * 1024 * 1024 + B"
proof -
  have "listener_ok (fst s) \<and> exact ss (fst s)" if "(listener_step ss)\<^sup>*\<^sup>* (new_listener d, df0) s" for s
    using that
  proof (induction rule: rtranclp_induct)
    case (step s s')
    with assms(2,3) show ?case using listener_step_keeps [of ss s s'] le_trans by blast
  qed (simp add: new_listener_def listener_ok_def exact_def LISTENER_QUEUE_MAX_BYTES_def MAX_MESSAGE_BYTES_def)
  with assms(1) have ok: "listener_ok l" "exact ss l" by fastforce+
  have "queue_bytes (lqueue l) < LISTENER_QUEUE_MAX_BYTES + B"
  proof (cases "lqueue l" rule: rev_cases)
    case (snoc q s)
    with ok assms(2) [of "ev s"] show ?thesis by (simp add: listener_ok_def exact_def)
  qed (simp add: LISTENER_QUEUE_MAX_BYTES_def MAX_MESSAGE_BYTES_def)
  with ok show ?thesis
    by (simp add: listener_ok_def LISTENER_QUEUE_MAX_EVENTS_def NODE_EVENT_CHANNEL_CAPACITY_def
        LISTENER_QUEUE_MAX_BYTES_def MAX_MESSAGE_BYTES_def)
qed

theorem listener_memory_bounded_witness:
  "length (lqueue (fst (receive_events (\<lambda>_. Some 7) (new_listener 0, new_dataflow :: unit RunningDataflow)))) \<le> 1000"
  using listener_memory_bounded [of "\<lambda>_. Some 7" 0 "new_dataflow :: unit RunningDataflow"
      "fst (receive_events (\<lambda>_. Some 7) (new_listener 0, new_dataflow))"
      "snd (receive_events (\<lambda>_. Some 7) (new_listener 0, new_dataflow))" 7]
    r_into_rtranclp [of "listener_step (\<lambda>_. Some 7)" "(new_listener 0, new_dataflow :: unit RunningDataflow)",
      OF listener_step.arrive]
  by (simp add: sized_event_def usize_max_def u64_max_def LISTENER_QUEUE_MAX_BYTES_def MAX_MESSAGE_BYTES_def)

text \<open>The events on their way to a node that a frame can carry, oldest first.\<close>

definition deliverable :: "('x NodeEvent \<Rightarrow> nat option) \<Rightarrow> 'x NodeEvent \<Rightarrow> bool" where
  "deliverable ss e \<longleftrightarrow> fits (sized_event ss e)"

definition on_the_way ::
  "('x NodeEvent \<Rightarrow> nat option) \<Rightarrow> 'x Listener \<times> 'x RunningDataflow \<Rightarrow> 'x NodeEvent list" where
  "on_the_way ss s = filter (deliverable ss) (map ev (lqueue (fst s)) @ backlog s)"

lemma exact_fits:
  assumes "exact ss l" and "lqueue l = q @ r"
  shows "map ev (filter fits q) = filter (deliverable ss) (map ev q)"
proof -
  have "fits s = deliverable ss (ev s)" if "s \<in> set q" for s
    using assms that unfolding exact_def deliverable_def by (metis UnCI set_append)
  then show ?thesis by (induction q) simp_all
qed

lemma channels_note_drained [simp]: "channels (note_drained l df) = channels df"
  by (simp add: note_drained_def split: option.split)

lemma backlog_take:
  "subscribed_events l = Some c \<Longrightarrow> take_event c df = Some (e, df') \<Longrightarrow> backlog (l, df) = e # backlog (l, df')"
  by (auto simp: backlog_def take_event_def split: list.splits)

lemma on_the_way_pull: "pull_event ss (l, df) = Some s' \<Longrightarrow> on_the_way ss s' = on_the_way ss (l, df)"
  by (cases s') (auto dest!: pull_event_backlog simp: on_the_way_def)

lemma on_the_way_taken:
  assumes "exact ss l" and "taken [] batch l l' q"
  shows "batch @ on_the_way ss (l', df) = on_the_way ss (l, df)"
    and "batch = [] \<Longrightarrow> on_the_way ss (l, df) = filter (deliverable ss) (backlog (l', df))"
proof -
  have q: "lqueue l = q @ lqueue l'" "batch = filter (deliverable ss) (map ev q)"
    using assms exact_fits [OF assms(1), of q "lqueue l'"] by (simp_all add: taken_def)
  have b: "backlog (l', df) = backlog (l, df)"
    using assms(2) by (simp add: backlog_def taken_def)
  show "batch @ on_the_way ss (l', df) = on_the_way ss (l, df)"
    using q b by (simp add: on_the_way_def)
  show "on_the_way ss (l, df) = filter (deliverable ss) (backlog (l', df))" if "batch = []"
    using that q b assms(2) by (simp add: on_the_way_def taken_def)
qed

text \<open>C16: Events reach a node in the order in which they entered its channel, and none is lost or duplicated on the
  way through the listener, apart from events that no frame can carry: moving events from the
  channel to the queue changes nothing, and a reply takes the oldest ones off.\<close>

theorem events_reach_node_in_order:
  assumes "exact ss l"
  shows "on_the_way ss (receive_events ss (l, df)) = on_the_way ss (l, df) \<and>
     (next_event_request g (l, df) = Some (NextEvents es, s') \<longrightarrow>
        filter (deliverable ss) es @ on_the_way ss s' = on_the_way ss (l, df))"
proof (intro conjI impI)
  have "(\<lambda>s. on_the_way ss s = on_the_way ss (l, df)) (receive_events ss (l, df))"
    by (rule receive_events_invariant) (auto dest: on_the_way_pull)
  then show "on_the_way ss (receive_events ss (l, df)) = on_the_way ss (l, df)" .
  assume r: "next_event_request g (l, df) = Some (NextEvents es, s')"
  obtain batch l1 where t: "take_within_budget [] 0 l = (batch, l1)" by (cases "take_within_budget [] 0 l")
  then obtain q where q: "taken [] batch l l1 q" using take_within_split by blast
  note way = on_the_way_taken [OF assms q]
  show "filter (deliverable ss) es @ on_the_way ss s' = on_the_way ss (l, df)"
  proof (cases "batch = []")
    case False
    with r t have "es = batch" "s' = (l1, df)"
      by (auto simp: next_event_request_def take_queued_events_within_budget_def)
    moreover have "filter (deliverable ss) batch = batch"
      using exact_fits [OF assms, of q "lqueue l1"] q by (simp add: taken_def)
    ultimately show ?thesis using way(1) [of df] by simp
  next
    case True
    then have w: "on_the_way ss (l1, df') = filter (deliverable ss) (backlog (l1, df'))" for df'
      using q by (simp add: on_the_way_def taken_def)
    show ?thesis
      using r t True way(2) [OF True, of df] w
      by (auto simp: next_event_request_def take_queued_events_within_budget_def
          backlog_def take_event_def split: option.splits if_splits list.splits)
  qed
qed

theorem events_reach_node_in_order_witness:
  "on_the_way (\<lambda>_. Some 1) (receive_events (\<lambda>_. Some 1)
     (new_listener 0\<lparr>subscribed_events := Some 0\<rparr>,
      new_dataflow\<lparr>channels := \<lambda>_. \<lparr> ch_queue = [Stop :: unit NodeEvent, AllInputsClosed], ch_closed = False \<rparr>\<rparr>))
    = [Stop, AllInputsClosed]"
  using events_reach_node_in_order [of "\<lambda>_. Some 1" "new_listener 0\<lparr>subscribed_events := Some 0\<rparr>"
    "new_dataflow\<lparr>channels := \<lambda>_. \<lparr> ch_queue = [Stop :: unit NodeEvent, AllInputsClosed], ch_closed = False \<rparr>\<rparr>"]
  by (simp add: exact_def new_listener_def on_the_way_def backlog_def deliverable_def fits_def sized_event_def
      NEXT_EVENTS_REPLY_BUDGET_def MAX_MESSAGE_BYTES_def NEXT_EVENTS_FRAME_OVERHEAD_def)

text \<open>C17: A reply built from the queue always fits a frame and always makes progress. The wire length of a reply is at
  most that of its events plus the frame overhead; then the frame sender accepts every batch,
  the batch is empty only if the queue holds nothing that a frame could carry, and the queue
  keeps the rest.\<close>

theorem next_events_fit_frame:
  assumes "\<And>es. length (encode (NextEvents es)) \<le> NEXT_EVENTS_FRAME_OVERHEAD + sum_list (map sz es)"
    and "list_all (\<lambda>s. ev_size s = sz (ev s)) (lqueue l)"
    and "take_queued_events_within_budget l = (batch, l')"
  shows "(\<exists>w'. socket_stream_send (encode (NextEvents batch)) w = Inr w') \<and>
     map ev (filter fits (lqueue l)) = batch @ map ev (filter fits (lqueue l')) \<and>
     (batch = [] \<longrightarrow> lqueue l' = [])"
proof -
  have t: "take_within_budget [] 0 l = (batch, l')"
    using assms(3) by (simp add: take_queued_events_within_budget_def)
  then obtain q where q: "taken [] batch l l' q" using take_within_split by blast
  have "sum_list (map sz batch) \<le> NEXT_EVENTS_REPLY_BUDGET"
    using take_within_bytes [OF t] assms(2) by (simp add: list_all_iff)
  with assms(1) [of batch] have "length (encode (NextEvents batch)) \<le> MAX_MESSAGE_BYTES"
    by (simp add: NEXT_EVENTS_REPLY_BUDGET_def MAX_MESSAGE_BYTES_def NEXT_EVENTS_FRAME_OVERHEAD_def)
  then have "\<exists>w'. socket_stream_send (encode (NextEvents batch)) w = Inr w'"
    using down.send_frame by blast
  with q show ?thesis by (simp add: taken_def)
qed

theorem next_events_fit_frame_witness:
  "take_queued_events_within_budget
     \<lparr> subscribed_events = None,
       lqueue = [\<lparr> ev_size = 67108863, ev = AllInputsClosed \<rparr>, \<lparr> ev_size = 2, ev = Stop :: unit NodeEvent \<rparr>],
       queued_bytes = 67108863 + 2, drained = 0 \<rparr>
    = ([Stop], \<lparr> subscribed_events = None, lqueue = [], queued_bytes = 0, drained = 0 \<rparr>) \<and>
   (\<exists>w'. socket_stream_send (replicate 5 0) [] = Inr w')"
proof
  show t: "take_queued_events_within_budget
     \<lparr> subscribed_events = None,
       lqueue = [\<lparr> ev_size = 67108863, ev = AllInputsClosed \<rparr>, \<lparr> ev_size = 2, ev = Stop :: unit NodeEvent \<rparr>],
       queued_bytes = 67108863 + 2, drained = 0 \<rparr>
    = ([Stop], \<lparr> subscribed_events = None, lqueue = [], queued_bytes = 0, drained = 0 \<rparr>)"
    by (simp add: take_queued_events_within_budget_def take_within_budget.simps pop_front_def
        NEXT_EVENTS_REPLY_BUDGET_def MAX_MESSAGE_BYTES_def NEXT_EVENTS_FRAME_OVERHEAD_def usize_add_def
        usize_max_def u64_max_def)
  show "\<exists>w'. socket_stream_send (replicate 5 0) [] = Inr w'"
    using next_events_fit_frame [of "\<lambda>_. replicate 5 0" "\<lambda>e. if e = Stop then 2 else 67108863", OF _ _ t]
    by (auto simp: NEXT_EVENTS_FRAME_OVERHEAD_def)
qed

text \<open>C24: The frame limit is not checked on the direct path. When the queue is empty and the next event in the
  channel has a reply longer than a frame, the listener takes the event off the channel, the frame
  sender refuses the reply without writing anything, and the node's request stays unanswered.\<close>

theorem direct_reply_can_exceed_frame:
  assumes "lqueue l = []" and "subscribed_events l = Some c" and "ch_queue (channels df c) = e # es"
    and "MAX_MESSAGE_BYTES < length (encode (NextEvents [e]))"
  shows "\<exists>df'. next_event_request g (l, df) = Some (NextEvents [e], l, df') \<and>
     ch_queue (channels df' c) = es \<and>
     socket_stream_send (encode (NextEvents [e])) w = Inl (OutgoingTooLarge (length (encode (NextEvents [e]))))"
  using assms
  by (simp add: next_event_request_def take_queued_events_within_budget_def take_within_budget.simps
      pop_front_def take_event_def down.send_too_large)

theorem direct_reply_can_exceed_frame_witness:
  "\<exists>df'. next_event_request False
      (new_listener 0\<lparr>subscribed_events := Some 0\<rparr>,
       new_dataflow\<lparr>channels := \<lambda>_. \<lparr> ch_queue = [Stop :: unit NodeEvent], ch_closed = False \<rparr>\<rparr>) =
        Some (NextEvents [Stop], new_listener 0\<lparr>subscribed_events := Some 0\<rparr>, df')"
  using direct_reply_can_exceed_frame [of "new_listener 0\<lparr>subscribed_events := Some 0\<rparr>" 0
      "new_dataflow\<lparr>channels := \<lambda>_. \<lparr> ch_queue = [Stop :: unit NodeEvent], ch_closed = False \<rparr>\<rparr>" Stop "[]"
      "\<lambda>_. replicate (MAX_MESSAGE_BYTES + 1) 0" False]
  by (auto simp: new_listener_def)

end
