(* ===== verification/Daemon_Delivery.thy ===== *)
theory Daemon_Delivery
  imports Node_Listener "HOL-Library.Sublist"
begin

text \<open>
  The delivery operations of a daemon in any order: the main loop (\<open>handle_node_event\<close>,
  \<open>handle_dora_event\<close> and the watchdogs of \<open>binaries/daemon/src/lib.rs\<close>), the listeners, which take events
  from the channels and end, and the tasks that hold producers run interleaved, each operation
  as one step. A state is the dataflow with the deliveries that are being held.
\<close>

type_synonym 'x daemon = "'x RunningDataflow \<times> 'x DeferredDelivery list"

definition deferred_list :: "'x DeferredDelivery list option \<Rightarrow> 'x DeferredDelivery list" where
  "deferred_list ds = (case ds of None \<Rightarrow> [] | Some ds \<Rightarrow> ds)"

lemma deferred_list_simps [simp]: "deferred_list None = []" "deferred_list (Some ds) = ds"
  by (simp_all add: deferred_list_def)

inductive daemon_step :: "'x daemon \<Rightarrow> 'x daemon \<Rightarrow> bool" where
  send_output:
  "send_output_to_local_receivers oid md data need deferred now df = (bytes, ds, df') \<Longrightarrow>
   deferred \<in> {None, Some []} \<Longrightarrow>
   daemon_step (df, hs) (df', hs @ deferred_list ds)"
| output_sent: "daemon_step (df, hs) (note_output_sent_to_local_receivers n out now df, hs)"
| close_outputs: "daemon_step (df, hs) (snd (send_output_closed_events n outputs now df), hs)"
| outputs_done: "daemon_step (df, hs) (snd (handle_outputs_done n might_restart now df), hs)"
| timer: "daemon_step (df, hs) (handle_timer interval md df, hs)"
| logs: "daemon_step (df, hs) (handle_logs oid md message df, hs)"
| log_broadcast: "daemon_step (df, hs) (handle_log_broadcast level node md message df, hs)"
| reload: "daemon_step (df, hs) (send_reload n operator df, hs)"
| node_failed: "daemon_step (df, hs) (propagate_node_failed n err df, hs)"
| input_timeouts: "daemon_step (df, hs) (check_input_timeouts now df, hs)"
| subscribe:
  "c \<notin> ran (map_of (subscribe_channels df)) \<Longrightarrow> daemon_step (df, hs) (handle_subscribe n c d now df, hs)"
| stream_dropped: "daemon_step (df, hs) (mark_event_stream_dropped n df, hs)"
| edge_added: "daemon_step (df, hs) (add_mapping n out m i df, hs)"
| respawn: "daemon_step (df, hs) (reset_incarnation_state n g df, hs)"
| node_removed:
  "daemon_step (df, hs) (unsubscribe_node_from_timers n (forget_node_bookkeeping n df), hs)"
| started: "daemon_step (df, hs) (start df, hs)"
| taken_off: "take_event c df = Some (e, df') \<Longrightarrow> daemon_step (df, hs) (note_drained l df', hs)"
| listener_ended: "daemon_step (df, hs) (end_listener c df, hs)"
| held_look:
  "dd \<in> set hs \<Longrightarrow> hold_look dd df = (r, df') \<Longrightarrow>
   daemon_step (df, hs) (df', if r = Finished then remove1 dd hs else hs)"
| held_wait:
  "dd \<in> set hs \<Longrightarrow> hold_wait dd w stalled df = (r, stalled', df') \<Longrightarrow>
   daemon_step (df, hs) (df', if r = Finished then remove1 dd hs else hs)"

definition paired :: "'x DeferredDelivery \<Rightarrow> bool" where
  "paired dd \<longleftrightarrow> dd_pending dd = Some (dd_channel dd)"

section \<open>Held deliveries\<close>

lemma hold_look_cases:
  assumes "hold_look dd df = (r, df')" and "paired dd"
  shows "df' = deliver_pair (dd_channel dd) (dd_event dd) df \<or> df' = df \<or> df' = record_lost df"
proof (cases "CONTROL_EVENT_HEADROOM \<le> ch_capacity (channels df (dd_channel dd))")
  case True
  then have gate: "send_with_timestamp (dd_event dd) (channels df (dd_channel dd)) =
      try_send (dd_event dd) (channels df (dd_channel dd))"
    by (simp add: send_with_timestamp_def)
  with True assms show ?thesis
    by (auto simp: hold_look_def hold_closed_def deliver_pair_def delivered_def paired_def Let_def
        split: prod.splits send_outcome.splits if_splits)
next
  case False
  with assms show ?thesis by (auto simp: hold_look_def hold_closed_def Let_def split: if_splits)
qed

lemma hold_wait_same: "hold_wait dd w stalled df = (r, stalled', df') \<Longrightarrow> same_channels df df'"
  by (auto simp: hold_wait_def record_lost_def same_channels_def Let_def split: wake.splits if_splits)

text \<open>A delivery is deferred together with the counter of its channel.\<close>

lemma offer_paired:
  assumes "offer_event n i c e (deferred, closed, df) = (acc, ds, cl, df')"
    and "map_of (pending_messages df) n = Some c" and "list_all paired (deferred_list deferred)"
  shows "list_all paired (deferred_list ds)"
  using assms
  by (auto simp: offer_event_def offer_overflow_def paired_def Let_def
      split: if_splits prod.splits send_outcome.splits option.splits)

context channel_invariant
begin

lemma I_receivers_paired:
  "I df \<Longrightarrow> list_all paired (deferred_list deferred) \<Longrightarrow>
   fold (send_to_receiver mk now) rs (deferred, closed, df) = (ds, cl, df') \<Longrightarrow>
   list_all paired (deferred_list ds)"
proof (induction rs arbitrary: deferred closed df)
  case (Cons r rs)
  obtain n i where r: "r = (n, i)" by (cases r)
  obtain ds1 cl1 df1 where s: "send_to_receiver mk now r (deferred, closed, df) = (ds1, cl1, df1)"
    by (metis prod_cases3)
  have "list_all paired (deferred_list ds1)"
  proof (cases "map_of (subscribe_channels df) n")
    case None
    with s Cons.prems(2) show ?thesis by (auto simp: r send_to_receiver_def)
  next
    case (Some c)
    obtain acc ds' cl' df2 where off: "offer_event n i c (mk i) (deferred, closed, df) = (acc, ds', cl', df2)"
      by (metis prod_cases4)
    with s Some have "ds1 = ds'" by (simp add: r send_to_receiver_def)
    with offer_paired [OF off] I_wired [OF Cons.prems(1) Some] Cons.prems(2) show ?thesis by simp
  qed
  with Cons s I_send_to_receiver [OF Cons.prems(1) s] show ?case by simp
qed simp

lemma I_same_fields: "I df \<Longrightarrow> channels df' = channels df \<Longrightarrow> counters df' = counters df \<Longrightarrow>
   subscribe_channels df' = subscribe_channels df \<Longrightarrow> pending_messages df' = pending_messages df \<Longrightarrow> I df'"
  by (erule I_same) (simp add: same_channels_def)

lemma I_stream_dropped: "I df \<Longrightarrow> I (mark_event_stream_dropped n df)"
  by (rule I_same_fields [OF I_unwire [of df n]])
    (simp_all add: mark_event_stream_dropped_def Let_def split: option.split)

lemma I_bookkeeping:
  assumes "I df"
  shows "I (add_mapping n out m i df)" "I (reset_incarnation_state n g df)" "I (start df)"
    "I (unsubscribe_node_from_timers n (forget_node_bookkeeping n df))" "I (note_drained l df)"
  by (rule I_same_fields [OF assms]; simp add: add_mapping_def reset_incarnation_state_def start_def
      unsubscribe_node_from_timers_def forget_node_bookkeeping_def note_drained_def Let_def split: option.split)+

lemma I_hold_look: "I df \<Longrightarrow> paired dd \<Longrightarrow> hold_look dd df = (r, df') \<Longrightarrow> I df'"
  using hold_look_cases [of dd df r df'] I_pair I_fields(4) by (auto simp: record_lost_def)

lemma I_step:
  assumes "daemon_step (df, hs) (df', hs')" and "I df" and "list_all paired hs"
  shows "I df' \<and> list_all paired hs'"
  using assms
proof cases
  case (send_output oid md data need deferred now bytes ds)
  then obtain closed df1 where f: "fold (send_to_receiver (\<lambda>i. InputEvent i md data) now)
      (receivers_of (edge_mappings df) oid) (deferred, [], df) = (ds, closed, df1)"
    by (auto simp: send_output_to_local_receivers_def split: prod.splits)
  have "list_all paired (deferred_list deferred)" using send_output(3) by auto
  from I_receivers_paired [OF assms(2) this f] have "list_all paired (deferred_list ds)" .
  with send_output I_send_output [OF assms(2)] assms(3) show ?thesis by auto
next
  case (held_look dd r)
  moreover have "list_all paired (remove1 dd hs)"
    using assms(3) notin_set_remove1 by (fastforce simp: list_all_iff)
  ultimately show ?thesis using I_hold_look [OF assms(2)] assms(3) by (auto simp: list_all_iff)
next
  case (held_wait dd w stalled r stalled')
  moreover have "list_all paired (remove1 dd hs)"
    using assms(3) notin_set_remove1 by (fastforce simp: list_all_iff)
  ultimately show ?thesis using I_same [OF assms(2) hold_wait_same] assms(3) by (auto simp: list_all_iff)
qed (simp_all add: I_note_output I_closed_events I_outputs_done I_timer I_logs I_log_broadcast I_reload
      I_propagate I_timeouts I_handle_subscribe I_stream_dropped I_bookkeeping I_end,
     auto intro: I_take I_bookkeeping)

lemma I_run: "daemon_step\<^sup>*\<^sup>* (df, []) s \<Longrightarrow> I df \<Longrightarrow> I (fst s) \<and> list_all paired (snd s)"
  by (induction rule: rtranclp_induct) (simp, metis I_step prod.collapse)

end

lemma new_dataflow_invariants: "counted new_dataflow" "headroom new_dataflow"
  by (simp_all add: counted_def headroom_def wired_def data_below_def new_dataflow_def new_channel_def)

lemmas reachable_counted = cnt.I_run [OF _ new_dataflow_invariants(1)]
lemmas reachable_headroom = hrm.I_run [OF _ new_dataflow_invariants(2)]

section \<open>Properties\<close>



text \<open>A node subscribes and is asked to reload.\<close>

definition sample :: "unit RunningDataflow" where
  "sample = send_reload (NodeId ''a'') None (handle_subscribe (NodeId ''a'') 0 0 5 new_dataflow)"

lemma sample_run: "daemon_step\<^sup>*\<^sup>* (new_dataflow, []) (sample, [])"
proof -
  have "daemon_step (new_dataflow, []) (handle_subscribe (NodeId ''a'') 0 0 5 new_dataflow, [])"
    by (rule daemon_step.subscribe) (simp add: new_dataflow_def)
  moreover have "daemon_step (handle_subscribe (NodeId ''a'') 0 0 5 new_dataflow, []) (sample, [])"
    unfolding sample_def by (rule daemon_step.reload)
  ultimately show ?thesis by (blast intro: rtranclp.intros)
qed

lemma sample_channel: "ch_queue (channels sample 0) = [Reload None] \<and> \<not> ch_closed (channels sample 0)"
  by (simp add: sample_def send_reload_def handle_subscribe_def subscribe_def announce_closed_def announce_finished_def
      announce_stop_def install_channel_def finish_restarts_def closed_inputs_of_def new_dataflow_def new_channel_def
      is_finished_non_source_def has_data_input_def update_node_def send_to_def send_with_timestamp_def try_send_def
      is_data_def ch_capacity_def NODE_EVENT_CHANNEL_CAPACITY_def inc_pending_def)



section \<open>Holding producers\<close>

lemma deliver_stalls:
  "BACKPRESSURE_STALL_LIMIT \<le> stalled + length ws * BACKPRESSURE_STALL_TICK \<Longrightarrow> ws \<noteq> [] \<Longrightarrow>
   list_all (\<lambda>(w, env). w = Elapsed) ws \<Longrightarrow> fst (deliver_when_room dd stalled (ws @ rest) df) = Finished"
proof (induction ws arbitrary: stalled df)
  case (Cons w ws)
  obtain env where w: "w = (Elapsed, env)" using Cons.prems(3) by (cases w) auto
  obtain r df1 where l: "hold_look dd df = (r, df1)" by (cases "hold_look dd df")
  obtain r' s' df2 where t: "hold_wait dd Elapsed stalled (env df1) = (r', s', df2)"
    by (metis prod_cases3)
  have "fst (deliver_when_room dd s' (ws @ rest) df2) = Finished" if "r' = Holding"
  proof -
    from that t have "s' = stalled + BACKPRESSURE_STALL_TICK" "s' < BACKPRESSURE_STALL_LIMIT"
      by (auto simp: hold_wait_def Let_def split: if_splits)
    with Cons show ?thesis by (cases "ws = []") (auto simp: algebra_simps)
  qed
  then show ?case using l t w by (auto split: hold_result.split)
qed simp

text \<open>C19: A producer is held for a bounded time. Once a receiver has freed no slot for 60 consecutive ticks of a second,
  the held delivery has ended, whatever happened before and whatever the rest of the daemon does
  meanwhile.\<close>

theorem held_producer_released:
  assumes "length ws = 60" and "list_all (\<lambda>(w, env). w = Elapsed) ws"
  shows "fst (deliver_when_room dd stalled (before @ ws @ rest) df) = Finished"
proof (induction before arbitrary: stalled df)
  case Nil
  have "ws \<noteq> []" using assms(1) by auto
  with assms show ?case
    using deliver_stalls [of stalled ws]
    by (auto simp: BACKPRESSURE_STALL_LIMIT_def BACKPRESSURE_STALL_TICK_def)
next
  case (Cons w before)
  obtain wk env where "w = (wk, env)" by (cases w)
  with Cons show ?case by (auto split: prod.split hold_result.split)
qed

theorem held_producer_released_witness:
  "fst (deliver_when_room
     \<lparr> dd_receiver = NodeId ''a'', dd_channel = 0, dd_pending = Some 0, dd_drained = 0, dd_event = (Stop :: unit NodeEvent) \<rparr>
     0 ([(Notified, id)] @ replicate 60 (Elapsed, id) @ []) new_dataflow) = Finished"
  by (rule held_producer_released) (simp_all add: list_all_iff)

text \<open>How a held delivery ends: the event and its count are in the channel, or the node dropped its stream on purpose,
  or the loss is counted.\<close>

definition concluded :: "'x DeferredDelivery \<Rightarrow> 'x RunningDataflow \<Rightarrow> 'x RunningDataflow \<Rightarrow> bool" where
  "concluded dd df df' \<longleftrightarrow>
     (ch_queue (channels df' (dd_channel dd)) = ch_queue (channels df (dd_channel dd)) @ [dd_event dd] \<and>
        ft_stats df' = ft_stats df \<and>
        (\<forall>k. dd_pending dd = Some k \<longrightarrow> counters df' k = counters df k + 1)) \<or>
     (df' = df \<and> ch_closed (channels df (dd_channel dd)) \<and> stream_dropped (signals df (dd_drained dd))) \<or>
     (channels df' = channels df \<and>
        lost_backpressure_messages (ft_stats df') = lost_backpressure_messages (ft_stats df) + 1)"

lemma look_concluded: "hold_look dd df = (Finished, df') \<Longrightarrow> concluded dd df df'"
  by (auto simp: hold_look_def hold_closed_def concluded_def record_lost_def stats_record_drop_def try_send_def Let_def
      split: if_splits option.splits)

lemma wait_concluded: "hold_wait dd w stalled df = (Finished, s', df') \<Longrightarrow> concluded dd df df'"
  by (auto simp: hold_wait_def concluded_def record_lost_def stats_record_drop_def Let_def
      split: wake.splits if_splits)



section \<open>Backpressure edges\<close>

text \<open>What a delivery loop may do to the queues, the deferred deliveries and the count of losses.\<close>

definition lost :: "'x RunningDataflow \<Rightarrow> nat" where
  "lost df = lost_backpressure_messages (ft_stats df)"

definition grows :: "'x loop_state \<Rightarrow> 'x loop_state \<Rightarrow> bool" where
  "grows = (\<lambda>(ds, cl, df) (ds', cl', df').
     running_nodes df' = running_nodes df \<and> subscribe_channels df' = subscribe_channels df \<and>
     dropped_event_streams df' = dropped_event_streams df \<and>
     (\<forall>c. ch_closed (channels df' c) = ch_closed (channels df c) \<and>
        prefix (ch_queue (channels df c)) (ch_queue (channels df' c))) \<and>
     lost df \<le> lost df' \<and> set (deferred_list ds) \<subseteq> set (deferred_list ds'))"

lemma grows_refl: "grows s s"
  by (cases s) (simp add: grows_def)

lemma grows_trans: "grows s s' \<Longrightarrow> grows s' s'' \<Longrightarrow> grows s s''"
  by (cases s; cases s'; cases s'') (auto simp: grows_def intro: prefix_order.order_trans)

lemma deliver_grows: "grows (ds, cl, df) (ds, cl', deliver n c e df)"
  by (auto simp: grows_def deliver_eq gated.queue_after gated.closed_after lost_def)

lemma drop_counted: "lost (df\<lparr>ft_stats := stats_record_drop (Suc 0) bp (ft_stats df)\<rparr>) = (if bp then lost df + 1 else lost df)"
  by (simp add: lost_def stats_record_drop_def Let_def)

text \<open>An event is settled for a receiver with channel \<open>c\<close> if it was queued, deferred or counted as lost.\<close>

definition settled :: "nat \<Rightarrow> 'x NodeEvent \<Rightarrow> 'x RunningDataflow \<Rightarrow> 'x loop_state \<Rightarrow> bool" where
  "settled c e df0 = (\<lambda>(ds, cl, df).
     e \<in> set (drop (length (ch_queue (channels df0 c))) (ch_queue (channels df c))) \<or>
     (\<exists>dd\<in>set (deferred_list ds). dd_channel dd = c \<and> dd_event dd = e) \<or> lost df0 < lost df)"

lemma prefix_drop_set: "prefix xs ys \<Longrightarrow> set (drop n xs) \<subseteq> set (drop n ys)"
  by (auto simp: prefix_def)

lemma settled_iff:
  "settled c e df0 (ds, cl, df) \<longleftrightarrow>
     e \<in> set (drop (length (ch_queue (channels df0 c))) (ch_queue (channels df c))) \<or>
     (c, e) \<in> (\<lambda>dd. (dd_channel dd, dd_event dd)) ` set (deferred_list ds) \<or> lost df0 < lost df"
  by (auto simp: settled_def)

lemma grows_iff:
  "grows (ds, cl, df) (ds', cl', df') \<longleftrightarrow>
     running_nodes df' = running_nodes df \<and> subscribe_channels df' = subscribe_channels df \<and>
     dropped_event_streams df' = dropped_event_streams df \<and>
     (\<forall>c. ch_closed (channels df' c) = ch_closed (channels df c) \<and>
        prefix (ch_queue (channels df c)) (ch_queue (channels df' c))) \<and>
     lost df \<le> lost df' \<and> set (deferred_list ds) \<subseteq> set (deferred_list ds')"
  by (simp add: grows_def)

lemma settled_grows:
  assumes "settled c e df0 (ds, cl, df)" and "grows (ds, cl, df) (ds', cl', df')"
  shows "settled c e df0 (ds', cl', df')"
proof -
  let ?n = "length (ch_queue (channels df0 c))"
  have "set (drop ?n (ch_queue (channels df c))) \<subseteq> set (drop ?n (ch_queue (channels df' c)))"
    using assms(2) by (simp add: grows_iff prefix_drop_set)
  moreover have "lost df \<le> lost df'" "set (deferred_list ds) \<subseteq> set (deferred_list ds')"
    using assms(2) by (simp_all add: grows_iff)
  ultimately show ?thesis
    using assms(1) unfolding settled_iff
    by (elim disjE) (blast, blast, simp)
qed

lemma settled_from:
  assumes "settled c e df (ds', cl', df')" and "grows (ds, cl, df0) (ds1, cl1, df)"
  shows "settled c e df0 (ds', cl', df')"
proof -
  have p: "prefix (ch_queue (channels df0 c)) (ch_queue (channels df c))" "lost df0 \<le> lost df"
    using assms(2) by (simp_all add: grows_iff)
  have "set (drop (length (ch_queue (channels df c))) (ch_queue (channels df' c))) \<subseteq>
      set (drop (length (ch_queue (channels df0 c))) (ch_queue (channels df' c)))"
    by (rule set_drop_subset_set_drop) (rule prefix_length_le [OF p(1)])
  with assms(1) p(2) show ?thesis
    unfolding settled_iff by (elim disjE) (blast, blast, simp)
qed

lemma overflow_grows:
  assumes "offer_overflow n i c e (ds, cl, df) = (acc, ds', cl', df')"
  shows "grows (ds, cl, df) (ds', cl', df') \<and> (input_requires_backpressure n i df \<longrightarrow> settled c e df (ds', cl', df'))"
proof -
  have "grows (ds, cl, df) (ds, cl, df\<lparr>ft_stats := stats_record_drop 1 bp (ft_stats df)\<rparr>)" for bp
    by (simp add: grows_iff drop_counted)
  moreover have "settled c e df (ds, cl, df\<lparr>ft_stats := stats_record_drop 1 True (ft_stats df)\<rparr>)"
    by (simp add: settled_iff drop_counted)
  moreover have "grows (Some xs, cl, df) (Some (xs @ [d]), cl, df)" for xs d
    by (auto simp: grows_iff)
  ultimately show ?thesis
    using assms
    by (auto simp: offer_overflow_def settled_iff Let_def split: option.splits if_splits)
qed

lemma offer_grows:
  assumes "offer_event n i c e (ds, cl, df) = (acc, ds', cl', df')"
  shows "grows (ds, cl, df) (ds', cl', df') \<and>
     (input_requires_backpressure n i df \<longrightarrow> \<not> ch_closed (channels df c) \<longrightarrow> settled c e df (ds', cl', df'))"
proof (cases "ch_capacity (channels df c) < CONTROL_EVENT_HEADROOM")
  case True
  with assms overflow_grows [of n i c e ds cl df] show ?thesis by (simp add: offer_event_def)
next
  case False
  show ?thesis
  proof (cases "ch_closed (channels df c)")
    case True
    with False assms show ?thesis by (simp add: offer_event_def try_send_def grows_iff)
  next
    case not_closed: False
    have "ch_capacity (channels df c) \<noteq> 0" using False by (simp add: CONTROL_EVENT_HEADROOM_def)
    with False not_closed assms show ?thesis
      by (auto simp: offer_event_def try_send_def grows_iff settled_iff inc_pending_eq lost_def split: if_splits)
  qed
qed

lemma recover_grows: "grows (ds, cl, df) (ds, cl, recover_input n i c now df)"
proof (cases "map_of (broken_inputs df) (n, i)")
  case (Some t)
  let ?df = "df\<lparr>broken_inputs := AList.delete (n, i) (broken_inputs df),
                ft_stats := (ft_stats df)\<lparr>circuit_breaker_recoveries :=
                  circuit_breaker_recoveries (ft_stats df) + 1\<rparr>,
                open_inputs_map := add_input n i (open_inputs_map df),
                input_deadlines := AList.update (n, i) \<lparr> timeout = t, last_received = Some now \<rparr>
                  (input_deadlines df)\<rparr>"
  have "grows (ds, cl, df) (ds, cl, ?df)" by (simp add: grows_iff lost_def)
  with Some deliver_grows [of ds cl ?df] show ?thesis
    by (simp add: recover_input_def del: AList.update.simps) (blast intro: grows_trans)
qed (simp add: recover_input_def grows_refl)

lemma refresh_grows: "grows (ds, cl, df) (ds, cl, refresh_deadline k now df)"
  by (simp add: grows_iff refresh_deadline_def lost_def)

text \<open>What must hold of a receiver on a backpressure edge after the loop.\<close>

definition served :: "(DataId \<Rightarrow> 'x NodeEvent) \<Rightarrow> NodeId \<Rightarrow> DataId \<Rightarrow> 'x RunningDataflow \<Rightarrow> 'x loop_state \<Rightarrow> bool" where
  "served mk n i df0 s \<longleftrightarrow>
     (case map_of (subscribe_channels df0) n of
        Some c \<Rightarrow> ch_closed (channels df0 c) \<or> settled c (mk i) df0 s
      | None \<Rightarrow> map_of (running_nodes df0) n = None \<or> n \<in> dropped_event_streams df0 \<or>
          lost df0 < lost (snd (snd s)))"

lemma send_to_receiver_grows:
  assumes "send_to_receiver mk now (n, i) (ds, cl, df) = (ds', cl', df')"
  shows "grows (ds, cl, df) (ds', cl', df') \<and> (input_requires_backpressure n i df \<longrightarrow> served mk n i df (ds', cl', df'))"
proof (cases "map_of (subscribe_channels df) n")
  case None
  have "grows (ds, cl, df) (ds, cl, df\<lparr>ft_stats := stats_record_drop 1 bp (ft_stats df), missing_channel_warned := w\<rparr>)"
    "lost (df\<lparr>ft_stats := stats_record_drop 1 True (ft_stats df), missing_channel_warned := w\<rparr>) = lost df + 1" for bp w
    using drop_counted [where df = df and bp = bp] drop_counted [where df = df and bp = True] by (simp_all add: grows_iff lost_def)
  with None assms show ?thesis
    by (auto simp: send_to_receiver_def served_def grows_refl split: if_splits)
next
  case (Some c)
  obtain acc ds1 cl1 df1 where off: "offer_event n i c (mk i) (ds, cl, df) = (acc, ds1, cl1, df1)"
    by (metis prod_cases4)
  have "grows (ds1, cl1, df1) (ds', cl', df')"
    using assms Some off recover_grows [of ds1 cl1 "refresh_deadline (n, i) now df1" n i c now]
      refresh_grows [of ds1 cl1 df1] grows_refl
    by (auto simp: send_to_receiver_def split: if_splits intro: grows_trans)
  with offer_grows [OF off] Some show ?thesis
    by (auto simp: served_def intro: grows_trans settled_grows)
qed

lemma served_later:
  assumes "served mk n i df (ds', cl', df')" and "grows (ds0, cl0, df0) (ds, cl, df)" and "grows (ds', cl', df') (ds'', cl'', df'')"
  shows "served mk n i df0 (ds'', cl'', df'')"
proof -
  have eq: "subscribe_channels df = subscribe_channels df0" "running_nodes df = running_nodes df0"
    "dropped_event_streams df = dropped_event_streams df0" "lost df0 \<le> lost df" "lost df' \<le> lost df''"
    "\<And>c. ch_closed (channels df c) = ch_closed (channels df0 c)"
    using assms(2,3) by (simp_all add: grows_iff)
  show ?thesis
  proof (cases "map_of (subscribe_channels df0) n")
    case None
    with assms(1) eq show ?thesis by (auto simp: served_def)
  next
    case (Some c)
    with assms(1) eq have "ch_closed (channels df0 c) \<or> settled c (mk i) df (ds', cl', df')"
      by (simp add: served_def)
    then have "ch_closed (channels df0 c) \<or> settled c (mk i) df0 (ds'', cl'', df'')"
      using settled_grows [OF _ assms(3)] settled_from [OF _ assms(2)] by blast
    with Some show ?thesis by (simp add: served_def)
  qed
qed

lemma receivers_served:
  "fold (send_to_receiver mk now) rs (ds, cl, df) = (ds', cl', df') \<Longrightarrow>
   grows (ds, cl, df) (ds', cl', df') \<and>
   (\<forall>(n, i)\<in>set rs. input_requires_backpressure n i df \<longrightarrow> served mk n i df (ds', cl', df'))"
proof (induction rs arbitrary: ds cl df)
  case Nil
  then show ?case by (simp add: grows_refl)
next
  case (Cons r rs)
  obtain m j where r: "r = (m, j)" by (cases r)
  obtain ds1 cl1 df1 where s: "send_to_receiver mk now (m, j) (ds, cl, df) = (ds1, cl1, df1)"
    by (metis prod_cases3)
  note one = send_to_receiver_grows [OF s]
  have rest: "grows (ds1, cl1, df1) (ds', cl', df')"
    "\<And>n i. (n, i) \<in> set rs \<Longrightarrow> input_requires_backpressure n i df1 \<Longrightarrow> served mk n i df1 (ds', cl', df')"
    using Cons.IH [of ds1 cl1 df1] Cons.prems s r by auto
  have bp: "input_requires_backpressure n i df1 = input_requires_backpressure n i df" for n i
    using one by (simp add: grows_iff input_requires_backpressure_def)
  have "served mk n i df (ds', cl', df')" if "(n, i) \<in> set (r # rs)" "input_requires_backpressure n i df" for n i
  proof (cases "(n, i) = r")
    case True
    with one that r served_later [OF _ grows_refl rest(1)] show ?thesis by auto
  next
    case False
    with that rest(2) bp have "served mk n i df1 (ds', cl', df')" by simp
    then show ?thesis using served_later [OF _ _ grows_refl] one by blast
  qed
  with one rest(1) show ?case by (auto intro: grows_trans)
qed


definition sample_receiver :: RunningNode where
  "sample_receiver =
     \<lparr> process = None, generation = 0, generation_counter = 0, node_dynamic = False,
       config_inputs = [(DataId ''i'', \<lparr> mapping = User \<lparr> um_source = NodeId ''a'', um_output = DataId ''out'' \<rparr>,
          queue_size = None, input_timeout = None, queue_policy = Some Backpressure \<rparr>)],
       output_routing = None, restart_policy = Never, disable_restart = False, force_restart_next = False,
       last_activity = 0, spawned_at = 0, startup_kill_sent = False, health_check_timeout = None,
       startup_timeout = None, finish_grace_secs = None \<rparr>"

definition sample_edge :: "unit RunningDataflow" where
  "sample_edge = new_dataflow\<lparr>running_nodes := [(NodeId ''b'', sample_receiver)],
     edge_mappings := [((NodeId ''a'', DataId ''out''), [(NodeId ''b'', DataId ''i'')])]\<rparr>"


section \<open>Broken inputs\<close>

text \<open>C21: The circuit breaker is consistent: an input with a deadline is open and a broken input is not. Closing outputs,
  checking the deadlines, routing an output and noting one that was sent directly all keep it so.\<close>

theorem breaker_consistent:
  assumes "breaker_ok df"
  shows "breaker_ok (snd (send_output_closed_events n outputs now df)) \<and> breaker_ok (check_input_timeouts now df) \<and>
     breaker_ok (note_output_sent_to_local_receivers n out now df) \<and>
     breaker_ok (snd (snd (send_output_to_local_receivers oid md data need deferred now df)))"
proof -
  obtain ds cl df' where f: "fold (send_to_receiver (\<lambda>i. InputEvent i md data) now)
      (receivers_of (edge_mappings df) oid) (deferred, [], df) = (ds, cl, df')"
    by (metis prod_cases3)
  from breaker_send_receivers [OF assms f] have "breaker_ok (remove_channels cl df')"
    by (simp add: remove_channels_def breaker_upto_def open_inputs_def)
  with f assms show ?thesis
    by (simp add: breaker_closed_events breaker_timeouts breaker_note_output send_output_to_local_receivers_def)
qed

theorem breaker_consistent_witness:
  "breaker_ok (check_input_timeouts 9 (new_dataflow\<lparr>
     open_inputs_map := [(NodeId ''b'', {DataId ''i''})],
     input_deadlines := [((NodeId ''b'', DataId ''i''), \<lparr> timeout = 3, last_received = Some 1 \<rparr>)]\<rparr> :: unit RunningDataflow))"
  by (rule breaker_consistent [THEN conjunct2, THEN conjunct1])
    (simp add: breaker_upto_def open_inputs_def new_dataflow_def)

end
