(* ===== verification/Stderr_Capture.thy ===== *)
theory Stderr_Capture
  imports Dora_Prelude "HOL-Library.Sublist"
begin

text \<open>
  How the daemon reads the output of its nodes: the reader of capped log lines
  (\<open>read_capped_line\<close>, \<open>line_to_forward\<close>, \<open>truncate_log_line\<close> and \<open>strip_trailing_newline\<close> of
  \<open>binaries/daemon/src/spawn/prepared.rs\<close>), and the search for the error in the captured
  stderr of a failed node (\<open>extract_err_from_stderr.rs\<close>). A reader works on the bytes its pipe
  still has to give; an I/O error does not occur.
\<close>

section \<open>Capped log lines\<close>

definition MAX_LOG_LINE_BYTES :: nat where
  "MAX_LOG_LINE_BYTES = 1024 * 1024"

definition newline :: byte where
  "newline = 10"

definition CAP :: nat where
  "CAP = MAX_LOG_LINE_BYTES + 1"

text \<open>\<open>Take::read_until\<close> with a limit: the bytes read, up to and including the delimiter, and the rest.\<close>

fun read_until :: "nat \<Rightarrow> byte list \<Rightarrow> byte list \<times> byte list" where
  "read_until 0 src = ([], src)"
| "read_until (Suc k) [] = ([], [])"
| "read_until (Suc k) (b # src) =
     (if b = newline then ([b], src) else (case read_until k src of (raw, rest) \<Rightarrow> (b # raw, rest)))"

text \<open>The loop that discards the remainder of a line that is too long.\<close>

fun discard_line :: "byte list \<Rightarrow> byte list" where
  "discard_line [] = []"
| "discard_line (b # src) = (if b = newline then src else discard_line src)"

text \<open>The flag is set at the end of the stream.\<close>

definition read_capped_line :: "byte list \<Rightarrow> bool \<times> byte list \<times> byte list" where
  "read_capped_line src =
     (case read_until CAP src of
        (raw, rest) \<Rightarrow>
          if raw = [] then (True, raw, rest)
          else if length raw = CAP \<and> last raw \<noteq> newline then (False, raw, discard_line rest)
          else (False, raw, rest))"

definition line_to_forward :: "byte list \<Rightarrow> byte list option" where
  "line_to_forward raw = (if raw = [] then None else Some raw)"

lemma read_until_split: "read_until k src = (raw, rest) \<Longrightarrow> src = raw @ rest \<and> length raw \<le> k"
  by (induction k src arbitrary: raw rule: read_until.induct) (auto split: if_splits prod.splits)

lemma discard_line_length: "length (discard_line src) \<le> length src"
  by (induction src rule: discard_line.induct) auto

lemma read_capped_line_shrinks:
  "read_capped_line src = (False, raw, rest) \<Longrightarrow> length rest < length src"
  using read_until_split [of CAP src] discard_line_length [of "snd (read_until CAP src)"]
  by (auto simp: read_capped_line_def CAP_def split: prod.splits if_splits)

text \<open>The reader task: forward lines until the end of the stream.\<close>

function read_lines :: "byte list \<Rightarrow> byte list list" where
  "read_lines src =
     (case read_capped_line src of
        (eof, raw, rest) \<Rightarrow>
          (case line_to_forward raw of None \<Rightarrow> [] | Some line \<Rightarrow> [line]) @
          (if eof then [] else read_lines rest))"
  by auto
termination
  by (relation "measure length") (auto intro: read_capped_line_shrinks [OF sym])

declare read_lines.simps [simp del]

definition is_char_boundary :: "byte list \<Rightarrow> nat \<Rightarrow> bool" where
  "is_char_boundary s i \<longleftrightarrow> i = 0 \<or> i = length s \<or> (i < length s \<and> \<not> (128 \<le> unat (s ! i) \<and> unat (s ! i) < 192))"

text \<open>\<open>str::floor_char_boundary\<close>.\<close>

fun floor_char_boundary :: "byte list \<Rightarrow> nat \<Rightarrow> nat" where
  "floor_char_boundary s 0 = 0"
| "floor_char_boundary s (Suc i) =
     (if is_char_boundary s (Suc i) then Suc i else floor_char_boundary s i)"

definition truncated_marker :: "byte list" where
  "truncated_marker = map (\<lambda>c. of_nat (of_char c)) ''... [truncated]''"

definition truncate_log_line :: "byte list \<Rightarrow> byte list" where
  "truncate_log_line content =
     (if MAX_LOG_LINE_BYTES < length content
      then take (floor_char_boundary content MAX_LOG_LINE_BYTES) content @ truncated_marker
      else content)"

definition strip_trailing_newline :: "byte list \<Rightarrow> byte list" where
  "strip_trailing_newline content =
     (if content \<noteq> [] \<and> last content = newline then
        (let content = butlast content in
         if content \<noteq> [] \<and> last content = 13 then butlast content else content)
      else content)"

section \<open>The lines of a stream\<close>

text \<open>The reference: split after every newline.\<close>

fun lines_of :: "byte list \<Rightarrow> byte list list" where
  "lines_of [] = []"
| "lines_of (b # src) =
     (if b = newline then [b] # lines_of src
      else (case lines_of src of [] \<Rightarrow> [[b]] | l # ls \<Rightarrow> (b # l) # ls))"

lemma concat_lines_of: "concat (lines_of src) = src"
  by (induction src rule: lines_of.induct) (auto split: list.splits)

lemma lines_of_nonempty: "l \<in> set (lines_of src) \<Longrightarrow> l \<noteq> []"
  by (induction src rule: lines_of.induct) (auto split: list.splits if_splits)

lemma lines_of_Cons:
  "lines_of src = l # ls \<Longrightarrow>
   newline \<notin> set (butlast l) \<and> (last l = newline \<or> ls = []) \<and> lines_of (concat ls) = ls"
proof (induction src arbitrary: l rule: lines_of.induct)
  case (2 b src)
  show ?case
  proof (cases "b = newline")
    case True
    with 2 show ?thesis by (auto simp: concat_lines_of)
  next
    case False
    show ?thesis
    proof (cases "lines_of src")
      case Nil
      with 2 False show ?thesis by auto
    next
      case (Cons l' ls')
      then have "l' \<noteq> []" using lines_of_nonempty [of l' src] by simp
      with 2 False Cons show ?thesis by auto
    qed
  qed
qed simp

lemma read_until_line: "newline \<notin> set (butlast l) \<Longrightarrow> last l = newline \<or> rest = [] \<Longrightarrow>
   read_until k (l @ rest) = (if l = [] then read_until k rest else (take k l, drop k l @ rest))"
proof (induction k arbitrary: l)
  case (Suc k)
  show ?case
  proof (cases l)
    case (Cons b l')
    show ?thesis
    proof (cases "l' = []")
      case True
      with Suc.prems Cons show ?thesis by (cases k) auto
    next
      case False
      with Suc Cons show ?thesis by auto
    qed
  qed simp
qed simp

lemma discard_line_rest:
  "newline \<notin> set (butlast l) \<Longrightarrow> last l = newline \<or> rest = [] \<Longrightarrow> l \<noteq> [] \<Longrightarrow> discard_line (l @ rest) = rest"
  by (induction l) (auto split: if_splits)

lemma read_capped_line_lines:
  assumes "lines_of src = l # ls"
  shows "read_capped_line src = (False, take CAP l, concat ls)"
proof -
  have l: "newline \<notin> set (butlast l)" "last l = newline \<or> concat ls = []" "l \<noteq> []"
    using lines_of_Cons [OF assms] lines_of_nonempty [of l src] assms by auto
  have src: "src = l @ concat ls" using concat_lines_of [of src] assms by simp
  have ru: "read_until CAP src = (take CAP l, drop CAP l @ concat ls)"
    using read_until_line [OF l(1,2)] l(3) src by simp
  have cap: "0 < CAP" by (simp add: CAP_def)
  show ?thesis
  proof (cases "CAP < length l")
    case True
    then have "take CAP l \<noteq> []" using cap by auto
    with True have "last (take CAP l) = butlast l ! (CAP - 1)" "CAP - 1 < length (butlast l)"
      using cap by (simp_all add: last_conv_nth nth_butlast)
    then have "last (take CAP l) \<noteq> newline" using l(1) nth_mem by metis
    moreover have "discard_line (drop CAP l @ concat ls) = concat ls"
    proof (rule discard_line_rest)
      show "newline \<notin> set (butlast (drop CAP l))"
        using l(1) by (auto simp: butlast_drop dest: in_set_dropD)
      show "last (drop CAP l) = newline \<or> concat ls = []" using l(2) True by simp
      show "drop CAP l \<noteq> []" using True by simp
    qed
    ultimately show ?thesis using ru True cap by (auto simp: read_capped_line_def)
  next
    case False
    have "last l \<noteq> newline \<Longrightarrow> discard_line (concat ls) = concat ls"
      using l(2) discard_line.simps(1) by metis
    with False l(3) ru cap show ?thesis by (auto simp: read_capped_line_def)
  qed
qed

lemma read_lines_exact: "read_lines src = map (take CAP) (lines_of src)"
proof (induction "length src" arbitrary: src rule: less_induct)
  case less
  show ?case
  proof (cases "lines_of src")
    case Nil
    then have "src = []" using concat_lines_of [of src] by simp
    then show ?thesis
      by (simp add: read_lines.simps [of "[]"] read_capped_line_def line_to_forward_def CAP_def)
  next
    case (Cons l ls)
    note step = read_capped_line_lines [OF this]
    have "take CAP l \<noteq> []" using lines_of_nonempty [of l src] Cons by (simp add: CAP_def)
    then show ?thesis
      using less [of "concat ls"] read_capped_line_shrinks [OF step] lines_of_Cons [OF Cons] Cons step
      by (simp add: read_lines.simps [of src] line_to_forward_def)
  qed
qed

text \<open>C30: The reader forwards the output of a node line by line without loss: its result is the sequence of all lines of the
  stream, in order, each cut to one byte more than the limit, so the memory for a line is
  bounded however long the line is.\<close>

theorem capped_lines_exact:
  "read_lines src = map (take (MAX_LOG_LINE_BYTES + 1)) (lines_of src) \<and> concat (lines_of src) = src \<and>
   list_all (\<lambda>line. 0 < length line \<and> length line \<le> MAX_LOG_LINE_BYTES + 1) (read_lines src)"
  using lines_of_nonempty [of _ src]
  by (auto simp: read_lines_exact concat_lines_of CAP_def list_all_iff)

section \<open>The error in a captured stderr\<close>

definition starts_with :: "string \<Rightarrow> string \<Rightarrow> bool" where
  "starts_with line p \<longleftrightarrow> prefix p line"

definition str_contains :: "string \<Rightarrow> string \<Rightarrow> bool" where
  "str_contains line p \<longleftrightarrow> sublist p line"

text \<open>The matcher remembers that it has seen a Python syntax error.\<close>

definition is_error_start_marker :: "bool \<Rightarrow> string \<Rightarrow> bool \<times> bool" where
  "is_error_start_marker python_syntax_error_found line =
     (if starts_with line ''Error:'' \<or> starts_with line ''Traceback (most recent call last):''
      then (True, python_syntax_error_found)
      else if starts_with line ''SyntaxError: '' then (False, True)
      else if python_syntax_error_found \<and> starts_with line ''  File '' then (True, python_syntax_error_found)
      else (starts_with line [CHR ''t'', CHR ''h'', CHR ''r'', CHR ''e'', CHR ''a'', CHR ''d'', CHR '' '', CHR 39] \<and>
              str_contains line '' panicked at '', python_syntax_error_found))"

definition is_negative_marker :: "string \<Rightarrow> bool" where
  "is_negative_marker line \<longleftrightarrow> starts_with line ''Warning:''"

text \<open>The scan over the reversed lines: the index of the first error marker, if any, and of the first negative
  marker before it.\<close>

fun scan :: "nat \<Rightarrow> bool \<Rightarrow> nat option \<Rightarrow> string list \<Rightarrow> nat option \<times> nat option" where
  "scan idx found negative [] = (None, negative)"
| "scan idx found negative (line # lines) =
     (case is_error_start_marker found line of
        (True, _) \<Rightarrow> (Some idx, negative)
      | (False, found) \<Rightarrow>
          scan (Suc idx) found (if negative = None \<and> is_negative_marker line then Some idx else negative) lines)"

definition FALLBACK_LINES :: nat where
  "FALLBACK_LINES = 10"

definition start_idx_from_end :: "nat option \<times> nat option \<Rightarrow> nat" where
  "start_idx_from_end idxs =
     (case idxs of
        (Some idx, _) \<Rightarrow> idx
      | (None, Some 0) \<Rightarrow> FALLBACK_LINES - 1
      | (None, Some (Suc idx)) \<Rightarrow> idx
      | (None, None) \<Rightarrow> FALLBACK_LINES - 1)"

definition extract_err_from_stderr :: "string list \<Rightarrow> string" where
  "extract_err_from_stderr stderr =
     concat (drop (length stderr - 1 - start_idx_from_end (scan 0 False None (rev stderr))) stderr)"

text \<open>Lines that begin an error whatever follows them.\<close>

definition hard_marker :: "string \<Rightarrow> bool" where
  "hard_marker line \<longleftrightarrow> fst (is_error_start_marker False line)"

lemma hard_marker_any: "hard_marker line \<Longrightarrow> fst (is_error_start_marker found line)"
  by (auto simp: hard_marker_def is_error_start_marker_def split: if_splits)

lemma scan_hit:
  "scan idx found neg xs = (Some k, n) \<Longrightarrow>
   idx \<le> k \<and> k < idx + length xs \<and> (\<exists>f. fst (is_error_start_marker f (xs ! (k - idx)))) \<and>
   (\<forall>j < k - idx. \<not> hard_marker (xs ! j))"
proof (induction xs arbitrary: idx found neg)
  case (Cons line xs)
  obtain hit f where m: "is_error_start_marker found line = (hit, f)" by (cases "is_error_start_marker found line")
  show ?case
  proof (cases hit)
    case True
    with Cons.prems m show ?thesis by (auto intro: exI [of _ found])
  next
    case False
    with m have "\<not> hard_marker line" using hard_marker_any [of line found] by auto
    moreover have "scan (Suc idx) f (if neg = None \<and> is_negative_marker line then Some idx else neg) xs = (Some k, n)"
      using Cons.prems m False by simp
    note Cons.IH [OF this]
    ultimately show ?thesis by (auto simp: nth_Cons' less_Suc_eq_0_disj)
  qed
qed simp

lemma scan_miss: "scan idx found neg xs = (None, n) \<Longrightarrow> list_all (\<lambda>line. \<not> hard_marker line) xs"
proof (induction xs arbitrary: idx found neg)
  case (Cons line xs)
  obtain hit f where m: "is_error_start_marker found line = (hit, f)" by (cases "is_error_start_marker found line")
  with Cons hard_marker_any [of line found] show ?case by (cases hit) auto
qed simp

lemma scan_no_negative:
  "scan idx found None xs = (None, n) \<Longrightarrow> list_all (\<lambda>line. \<not> is_negative_marker line) xs \<Longrightarrow> n = None"
proof (induction xs arbitrary: idx found)
  case (Cons line xs)
  obtain hit f where "is_error_start_marker found line = (hit, f)" by (cases "is_error_start_marker found line")
  with Cons show ?case by (cases hit) auto
qed simp

lemma scan_soft:
  "list_all (\<lambda>line. \<not> fst (is_error_start_marker True line)) xs \<Longrightarrow> fst (scan idx found neg xs) = None"
proof (induction xs arbitrary: idx found neg)
  case (Cons line xs)
  obtain hit f where m: "is_error_start_marker found line = (hit, f)" by (cases "is_error_start_marker found line")
  then have "\<not> hit"
    using Cons.prems by (auto simp: is_error_start_marker_def split: if_splits)
  with Cons m show ?case by simp
qed simp

lemma extract_at_marker:
  assumes ex: "list_ex hard_marker stderr"
  shows "\<exists>before line after. stderr = before @ line # after \<and>
     extract_err_from_stderr stderr = line @ concat after \<and>
     (\<exists>f. fst (is_error_start_marker f line)) \<and> list_all (\<lambda>l. \<not> hard_marker l) after"
proof -
  obtain p n where s: "scan 0 False None (rev stderr) = (p, n)" by (cases "scan 0 False None (rev stderr)")
  have "p \<noteq> None" using ex scan_miss [of 0 False None "rev stderr" n] s by (auto simp: list_ex_iff list_all_iff)
  then obtain k where k: "p = Some k" by blast
  note hit = scan_hit [OF s [unfolded k]]
  let ?i = "length stderr - 1 - k"
  have i: "?i < length stderr" using hit by auto
  have line: "stderr ! ?i = rev stderr ! k" using hit by (simp add: rev_nth)
  have "\<not> hard_marker l" if "l \<in> set (drop (Suc ?i) stderr)" for l
  proof -
    from that obtain j where j: "j < length stderr - Suc ?i" "l = stderr ! (Suc ?i + j)"
      by (auto simp: in_set_conv_nth)
    then have "j < k" using hit by auto
    then have "Suc ?i + j = length stderr - Suc (k - 1 - j)" "k - 1 - j < k" using hit by auto
    then have "l = rev stderr ! (k - 1 - j)" "k - 1 - j < k"
      using hit j by (simp_all add: rev_nth)
    with hit show ?thesis by simp
  qed
  moreover have "stderr = take ?i stderr @ stderr ! ?i # drop (Suc ?i) stderr"
    by (rule id_take_nth_drop [OF i])
  moreover have "drop ?i stderr = stderr ! ?i # drop (Suc ?i) stderr"
    using i by (rule Cons_nth_drop_Suc [symmetric])
  then have "extract_err_from_stderr stderr = stderr ! ?i @ concat (drop (Suc ?i) stderr)"
    using s k by (simp add: extract_err_from_stderr_def start_idx_from_end_def)
  moreover have "\<exists>f. fst (is_error_start_marker f (stderr ! ?i))" using hit line by simp
  ultimately show ?thesis
    unfolding list_all_iff by blast
qed

lemma extract_fallback:
  assumes none: "list_all (\<lambda>l. \<not> fst (is_error_start_marker True l) \<and> \<not> is_negative_marker l) stderr"
  shows "extract_err_from_stderr stderr = concat (drop (length stderr - 10) stderr)"
proof -
  obtain p n where s: "scan 0 False None (rev stderr) = (p, n)" by (cases "scan 0 False None (rev stderr)")
  have "p = None" using scan_soft [of "rev stderr" 0 False None] none s by (auto simp: list_all_iff)
  moreover from this have "n = None"
    using scan_no_negative [of 0 False "rev stderr" n] none s by (auto simp: list_all_iff)
  ultimately show ?thesis
    using s by (simp add: extract_err_from_stderr_def start_idx_from_end_def FALLBACK_LINES_def)
qed

text \<open>The reported error of a failed node starts at an error marker and hides no later one: if a captured line begins an
  error, the result is the text from a marker line to the end of the capture, and no line
  after that marker begins another error. Without any marker or warning the result is the last ten lines.\<close>

theorem extracted_error_starts_at_last_marker:
  "(list_ex hard_marker stderr \<longrightarrow>
      (\<exists>before line after. stderr = before @ line # after \<and>
         extract_err_from_stderr stderr = line @ concat after \<and>
         (\<exists>f. fst (is_error_start_marker f line)) \<and> list_all (\<lambda>l. \<not> hard_marker l) after)) \<and>
   (list_all (\<lambda>l. \<not> fst (is_error_start_marker True l) \<and> \<not> is_negative_marker l) stderr \<longrightarrow>
      extract_err_from_stderr stderr = concat (drop (length stderr - 10) stderr))"
  using extract_at_marker extract_fallback by blast

end
