(* ===== verification/Node_Lifecycle.thy ===== *)
theory Node_Lifecycle
  imports Local_Delivery Stderr_Capture
begin

text \<open>
  Incarnations of a node and their end: process handles and generations, stopping and restarting
  nodes (\<open>binaries/daemon/src/running_dataflow.rs\<close>), the handling of exits and of replaced
  processes (\<open>SpawnedNodeResult\<close>, \<open>ProcessHandleReplaced\<close> in \<open>dora_events.rs\<close>), and the end of a node
  (\<open>handle_node_stop_inner\<close> in \<open>node_events.rs\<close>).

  A process handle is a number; \<open>handle_open\<close> tells whether the task that owns the process
  still listens to it, and \<open>submitted\<close> is the sequence of operations it was sent. Dropping a
  handle submits a last \<open>Kill\<close>. A task that waits out a grace period is an entry of
  \<open>kill_tasks\<close>; its two steps are \<open>kill_task_soft\<close> and \<open>kill_task_kill\<close>. The extension table is left out.
\<close>

section \<open>Process handles\<close>

definition DEFAULT_STOP_GRACE :: Duration where
  "DEFAULT_STOP_GRACE = 10000 * 10 ^ 6"

definition DEFAULT_RESTART_GRACE :: Duration where
  "DEFAULT_RESTART_GRACE = 5000 * 10 ^ 6"

definition submit :: "nat \<Rightarrow> ProcessOperation \<Rightarrow> 'x RunningDataflow \<Rightarrow> bool \<times> 'x RunningDataflow" where
  "submit h op df =
     (if handle_open df h then (True, df\<lparr>submitted := submitted df @ [(h, op)]\<rparr>) else (False, df))"

definition drop_handle :: "nat \<Rightarrow> 'x RunningDataflow \<Rightarrow> 'x RunningDataflow" where
  "drop_handle h df = snd (submit h Kill df)"

definition submit_marked ::
  "NodeId \<Rightarrow> nat \<Rightarrow> nat \<Rightarrow> ProcessOperation \<Rightarrow> 'x RunningDataflow \<Rightarrow> 'x RunningDataflow" where
  "submit_marked n g h op df =
     (case submit h op df of
        (True, df) \<Rightarrow> df\<lparr>grace_duration_kills := insert (n, g) (grace_duration_kills df)\<rparr>
      | (False, df) \<Rightarrow> df)"

definition spawn_kill_task :: "NodeId \<Rightarrow> nat \<Rightarrow> nat \<Rightarrow> Duration \<Rightarrow> 'x RunningDataflow \<Rightarrow> 'x RunningDataflow" where
  "spawn_kill_task n g h grace df =
     df\<lparr>kill_tasks := kill_tasks df @
        [\<lparr> task_node = n, task_generation = g, task_process = h, task_grace = grace \<rparr>]\<rparr>"

definition kill_task_soft :: "kill_task \<Rightarrow> 'x RunningDataflow \<Rightarrow> 'x RunningDataflow" where
  "kill_task_soft t df = submit_marked (task_node t) (task_generation t) (task_process t) SoftKill df"

definition kill_task_kill :: "kill_task \<Rightarrow> 'x RunningDataflow \<Rightarrow> 'x RunningDataflow" where
  "kill_task_kill t df =
     drop_handle (task_process t)
       (submit_marked (task_node t) (task_generation t) (task_process t) Kill
          (df\<lparr>kill_tasks := remove1 t (kill_tasks df)\<rparr>))"

definition schedule_process_stop ::
  "NodeId \<Rightarrow> nat \<Rightarrow> nat \<Rightarrow> StopProcessPolicy \<Rightarrow> 'x RunningDataflow \<Rightarrow> 'x RunningDataflow" where
  "schedule_process_stop n g h policy df =
     (case policy of
        Force \<Rightarrow> drop_handle h (submit_marked n g h Kill df)
      | Graceful grace \<Rightarrow> spawn_kill_task n g h grace df)"

definition stop_rejected_replacement :: "NodeId \<Rightarrow> nat \<Rightarrow> nat \<Rightarrow> 'x RunningDataflow \<Rightarrow> 'x RunningDataflow" where
  "stop_rejected_replacement n g h df =
     (case stop_process_policy df of
        Some policy \<Rightarrow> schedule_process_stop n g h policy df
      | None \<Rightarrow> drop_handle h df)"

section \<open>Generations\<close>

text \<open>The counter is a \<open>u64\<close>; its exhaustion is a panic.\<close>

definition next_node_generation :: "nat \<Rightarrow> (nat \<times> nat) option" where
  "next_node_generation counter = (if counter = u64_max then None else Some (counter, counter + 1))"

definition matches_generation :: "RunningNode \<Rightarrow> nat \<Rightarrow> bool" where
  "matches_generation node g \<longleftrightarrow> generation node = g"

definition event_generation_is_stale :: "nat \<Rightarrow> nat \<Rightarrow> nat \<Rightarrow> bool" where
  "event_generation_is_stale entry successor event \<longleftrightarrow> event \<noteq> entry \<and> event \<noteq> successor"

text \<open>Whether the main loop drops an event of a node.\<close>

definition superseded :: "NodeId \<Rightarrow> nat \<Rightarrow> 'x RunningDataflow \<Rightarrow> bool" where
  "superseded n g df =
     (case map_of (running_nodes df) n of
        None \<Rightarrow> False
      | Some node \<Rightarrow> event_generation_is_stale (generation node) (generation_counter node) g)"

datatype HandleReplacement = Replaced | RejectedTeardown nat | RejectedStale

definition replace_process_handle ::
  "nat \<Rightarrow> nat \<Rightarrow> nat \<Rightarrow> RunningNode \<Rightarrow> HandleReplacement \<times> RunningNode" where
  "replace_process_handle previous new h node =
     (if \<not> matches_generation node previous then (RejectedStale, node)
      else if disable_restart node then (RejectedTeardown h, node\<lparr>generation := new\<rparr>)
      else (Replaced, node\<lparr>process := Some h, generation := new\<rparr>))"

text \<open>\<open>DoraEvent::ProcessHandleReplaced\<close>: an overwritten or unused handle is dropped.\<close>

definition drop_process :: "nat option \<Rightarrow> 'x RunningDataflow \<Rightarrow> 'x RunningDataflow" where
  "drop_process p df = (case p of None \<Rightarrow> df | Some h \<Rightarrow> drop_handle h df)"

definition handle_process_replaced ::
  "NodeId \<Rightarrow> nat \<Rightarrow> nat \<Rightarrow> nat \<Rightarrow> 'x RunningDataflow \<Rightarrow> 'x RunningDataflow" where
  "handle_process_replaced n previous new h df =
     (case map_of (running_nodes df) n of
        None \<Rightarrow> drop_handle h df
      | Some node \<Rightarrow>
          (case replace_process_handle previous new h node of
             (Replaced, node') \<Rightarrow> drop_process (process node) (update_node n (\<lambda>_. node') df)
           | (RejectedTeardown h, node') \<Rightarrow> stop_rejected_replacement n new h (update_node n (\<lambda>_. node') df)
           | (RejectedStale, _) \<Rightarrow> drop_handle h df))"

section \<open>Stopping and restarting\<close>

definition send_stop :: "NodeId \<Rightarrow> 'x RunningDataflow \<Rightarrow> 'x RunningDataflow" where
  "send_stop n df =
     (case map_of (subscribe_channels df) n of None \<Rightarrow> df | Some c \<Rightarrow> deliver n c Stop df)"

definition send_stop_and_schedule_kill ::
  "NodeId \<Rightarrow> nat \<Rightarrow> nat option \<Rightarrow> Duration option \<Rightarrow> Duration \<Rightarrow> 'x RunningDataflow \<Rightarrow> 'x RunningDataflow" where
  "send_stop_and_schedule_kill n g p grace_duration default_grace df =
     (let df = send_stop n df in
      case p of
        None \<Rightarrow> df
      | Some h \<Rightarrow> spawn_kill_task n g h (case grace_duration of Some d \<Rightarrow> d | None \<Rightarrow> default_grace) df)"

datatype lifecycle_error = NodeNotFound NodeId | NotRestartable NodeId

definition stop_single_node ::
  "NodeId \<Rightarrow> Duration option \<Rightarrow> 'x RunningDataflow \<Rightarrow> lifecycle_error + 'x RunningDataflow" where
  "stop_single_node n grace_duration df =
     (case map_of (running_nodes df) n of
        None \<Rightarrow> Inl (NodeNotFound n)
      | Some node \<Rightarrow>
          Inr (send_stop_and_schedule_kill n (generation node) (process node) grace_duration DEFAULT_STOP_GRACE
                 (update_node n (\<lambda>node. node\<lparr>disable_restart := True, process := None\<rparr>) df)))"

definition stop_replaced_incarnation ::
  "NodeId \<Rightarrow> nat \<Rightarrow> nat option \<Rightarrow> Duration option \<Rightarrow> 'x RunningDataflow \<Rightarrow> 'x RunningDataflow" where
  "stop_replaced_incarnation n g p grace_duration df =
     send_stop_and_schedule_kill n g p grace_duration DEFAULT_STOP_GRACE df"

definition restart_single_node ::
  "NodeId \<Rightarrow> Duration option \<Rightarrow> 'x RunningDataflow \<Rightarrow> lifecycle_error + 'x RunningDataflow" where
  "restart_single_node n grace_duration df =
     (case map_of (running_nodes df) n of
        None \<Rightarrow> Inl (NodeNotFound n)
      | Some node \<Rightarrow>
          if process node = None then Inl (NotRestartable n)
          else Inr (send_stop_and_schedule_kill n (generation node) (process node) grace_duration DEFAULT_RESTART_GRACE
                 ((update_node n (\<lambda>node. node\<lparr>process := None, disable_restart := False, force_restart_next := True\<rparr>) df)
                  \<lparr>all_inputs_closed_at := AList.delete n (all_inputs_closed_at df),
                   connected_nodes := connected_nodes df - {n},
                   finish_escalated := finish_escalated df - {n}\<rparr>)))"

text \<open>The stages of \<open>stop_all\<close> after the startup barrier has been told.\<close>

definition stop_policy :: "Duration option \<Rightarrow> bool \<Rightarrow> StopProcessPolicy" where
  "stop_policy grace_duration force =
     (if force then Force
      else Graceful (case grace_duration of Some d \<Rightarrow> d | None \<Rightarrow> DEFAULT_STOP_GRACE))"

definition send_stop_to_all :: "'x RunningDataflow \<Rightarrow> 'x RunningDataflow" where
  "send_stop_to_all df =
     (fold (\<lambda>(n, c). deliver n c Stop) (subscribe_channels df) df)\<lparr>subscribe_channels := []\<rparr>"

definition stop_processes :: "StopProcessPolicy \<Rightarrow> 'x RunningDataflow \<Rightarrow> 'x RunningDataflow" where
  "stop_processes policy df =
     fold (\<lambda>(n, node) df.
             (case process node of
                None \<Rightarrow> df
              | Some h \<Rightarrow> schedule_process_stop n (generation node) h policy df))
       (running_nodes df)
       (df\<lparr>running_nodes := map (\<lambda>(n, node). (n, node\<lparr>process := None\<rparr>)) (running_nodes df)\<rparr>)"

definition stop_all ::
  "coord_link \<Rightarrow> Duration option \<Rightarrow> bool \<Rightarrow> 'x RunningDataflow \<Rightarrow>
   (report_error + FinishDataflowWhen) \<times> 'x RunningDataflow" where
  "stop_all link grace_duration force df =
     (case handle_dataflow_stop (sorted_list_of_set (dynamic_nodes df)) link (pending_nodes df) of
        (Inl e, b) \<Rightarrow> (Inl e, df\<lparr>pending_nodes := b\<rparr>)
      | (Inr _, b) \<Rightarrow>
          (let policy = stop_policy grace_duration force;
               df = df\<lparr>pending_nodes := b,
                       running_nodes := map (\<lambda>(n, node). (n, node_disable_restart node)) (running_nodes df),
                       stop_process_policy := Some policy\<rparr>;
               df = stop_processes policy (send_stop_to_all df);
               df = df\<lparr>stop_sent := True\<rparr>
           in (Inr (should_finish_immediately df), df)))"

section \<open>Exits\<close>

definition STDERR_LOG_LINES_MAX :: nat where
  "STDERR_LOG_LINES_MAX = 500"

text \<open>The captured stderr lines are popped from their queue.\<close>

definition take_stderr :: "NodeId \<Rightarrow> 'x RunningDataflow \<Rightarrow> string \<times> 'x RunningDataflow" where
  "take_stderr n df =
     (case map_of (node_stderr_most_recent df) n of
        None \<Rightarrow> ([], df)
      | Some queue \<Rightarrow>
          (extract_err_from_stderr
             ((if length queue = STDERR_LOG_LINES_MAX then [''[...]'' @ [CHR 0x0A]] else []) @ queue),
           df\<lparr>node_stderr_most_recent := AList.update n [] (node_stderr_most_recent df)\<rparr>))"

definition timeout_msg :: string where
  "timeout_msg = ''process killed: startup_timeout exceeded before node connected''"

definition error_cause ::
  "NodeId \<Rightarrow> nat \<Rightarrow> NodeExitStatus \<Rightarrow> 'x RunningDataflow \<Rightarrow> NodeErrorCause \<times> 'x RunningDataflow" where
  "error_cause n g status df =
     (case error_caused_by (causes (pending_nodes df)) n of
        Some m \<Rightarrow> (Cascading m, df)
      | None \<Rightarrow>
          if (n, g) \<in> grace_duration_kills df \<or> n \<in> finish_escalated df then (GraceDuration, df)
          else (case take_stderr n df of
                  (err, df') \<Rightarrow>
                    if (n, g) \<in> startup_timeout_marks df \<and> is_sigkill_like_exit status
                    then (OtherCause (if err = [] then timeout_msg else timeout_msg @ [CHR 0x0A] @ err), df')
                    else (OtherCause err, df')))"

definition planned_stop :: "NodeId \<Rightarrow> nat \<Rightarrow> NodeExitStatus \<Rightarrow> 'x RunningDataflow \<Rightarrow> bool" where
  "planned_stop n g status df \<longleftrightarrow>
     error_caused_by (causes (pending_nodes df)) n = None \<and> (n, g) \<in> grace_duration_kills df \<and>
     is_sigterm_like_exit status \<and> n \<notin> finish_escalated df"

definition exit_result ::
  "'t \<Rightarrow> NodeId \<Rightarrow> nat \<Rightarrow> NodeExitStatus \<Rightarrow> 'x RunningDataflow \<Rightarrow> ('t NodeError + unit) \<times> 'x RunningDataflow" where
  "exit_result ts n g status df =
     (case status of
        Success \<Rightarrow> (Inr (), df)
      | _ \<Rightarrow>
          if planned_stop n g status df then (Inr (), df)
          else (case error_cause n g status df of
                  (c, df) \<Rightarrow> (Inl \<lparr> ne_timestamp = ts, cause = c, exit_status = status \<rparr>, df)))"

text \<open>Downstream nodes learn of a restart; for a full channel a task waits for a slot.\<close>

record 'x restart_notice =
  rn_channel :: nat
  rn_pending :: "nat option"
  rn_event :: "'x NodeEvent"

definition downstream_of :: "NodeId \<Rightarrow> mappings \<Rightarrow> NodeId list" where
  "downstream_of n mp = bs_of_list (map fst (concat (map snd (filter (\<lambda>(oid, rs). fst oid = n) mp))))"

definition notify_restarted ::
  "NodeId \<Rightarrow> NodeId \<Rightarrow> 'x restart_notice list \<times> 'x RunningDataflow \<Rightarrow> 'x restart_notice list \<times> 'x RunningDataflow" where
  "notify_restarted n r = (\<lambda>(notices, df).
     (case map_of (subscribe_channels df) r of
        None \<Rightarrow> (notices, df)
      | Some c \<Rightarrow>
          (case send_to c (NodeRestarted n) df of
             (Sent, df) \<Rightarrow> (notices, inc_pending r df)
           | (Full, df) \<Rightarrow>
               (notices @ [\<lparr> rn_channel = c, rn_pending = map_of (pending_messages df) r, rn_event = NodeRestarted n \<rparr>], df)
           | (Closed, df) \<Rightarrow> (notices, df))))"

text \<open>One look of the waiting task at the channel: \<open>None\<close> while it is full.\<close>

definition deliver_notice :: "'x restart_notice \<Rightarrow> 'x RunningDataflow \<Rightarrow> 'x RunningDataflow option" where
  "deliver_notice nt df =
     (let c = rn_channel nt in
      case try_send (rn_event nt) (channels df c) of
        (Full, _) \<Rightarrow> None
      | (Closed, _) \<Rightarrow> Some df
      | (Sent, ch) \<Rightarrow>
          (let df = df\<lparr>channels := (channels df)(c := ch)\<rparr>
           in Some (case rn_pending nt of
                      None \<Rightarrow> df
                    | Some k \<Rightarrow> df\<lparr>counters := (counters df)(k := counters df k + 1)\<rparr>)))"

text \<open>The end of a node. The result: whether the dataflow is finished, whether the stop was clean, and the outputs whose
  closing is announced to other daemons.\<close>

definition all_dynamic :: "'x RunningDataflow \<Rightarrow> bool" where
  "all_dynamic df \<longleftrightarrow> (\<forall>(n, node)\<in>set (running_nodes df). node_dynamic node)"

definition unregister_node :: "NodeId \<Rightarrow> bool \<Rightarrow> 'x RunningDataflow \<Rightarrow> bool \<times> bool \<times> 'x RunningDataflow" where
  "unregister_node n exit_clean df =
     (let restarts_disabled =
            (case map_of (running_nodes df) n of None \<Rightarrow> False | Some node \<Rightarrow> disable_restart node);
          escalated = n \<in> finish_escalated df;
          df = df\<lparr>finish_escalated := finish_escalated df - {n},
                  all_inputs_closed_at := AList.delete n (all_inputs_closed_at df),
                  running_nodes := AList.delete n (running_nodes df)\<rparr>
      in (\<not> local_nodes_pending (pending_nodes df) \<and> all_dynamic df,
          exit_clean \<or> (restarts_disabled \<and> \<not> escalated), df))"

definition handle_node_stop_inner ::
  "NodeId \<Rightarrow> bool \<Rightarrow> coord_link \<Rightarrow> nat \<Rightarrow> 'x RunningDataflow \<Rightarrow>
   (report_error + (bool \<times> bool \<times> OutputId list)) \<times> 'x RunningDataflow" where
  "handle_node_stop_inner n exit_clean link now df =
     (case handle_node_stop n link (pending_nodes df) of
        (Inl e, b) \<Rightarrow> (Inl e, df\<lparr>pending_nodes := b\<rparr>)
      | (Inr status, b) \<Rightarrow>
          (let df = df\<lparr>pending_nodes := b\<rparr>;
               df = (if should_start_on_barrier_completion status df then start df else df)
           in case handle_outputs_done n False now df of
                (announce, df) \<Rightarrow>
                  (case unregister_node n exit_clean df of
                     (should_finish, clean_stop, df) \<Rightarrow> (Inr (should_finish, clean_stop, announce), df))))"

datatype ('t, 'x) exit_outcome =
    StaleExit
  | Restarting "'x restart_notice list"
  | Stopped "'t NodeError + unit" "report_error + (bool \<times> bool \<times> OutputId list)"

definition forget_kill_marks :: "NodeId \<Rightarrow> nat \<Rightarrow> 'x RunningDataflow \<Rightarrow> 'x RunningDataflow" where
  "forget_kill_marks n g df =
     df\<lparr>grace_duration_kills := grace_duration_kills df - {(n, g)},
        startup_timeout_marks := startup_timeout_marks df - {(n, g)}\<rparr>"

definition handle_spawned_node_result ::
  "'t \<Rightarrow> NodeId \<Rightarrow> nat \<Rightarrow> NodeExitStatus \<Rightarrow> bool \<Rightarrow> coord_link \<Rightarrow> nat \<Rightarrow> 'x RunningDataflow \<Rightarrow>
   ('t, 'x) exit_outcome \<times> 'x RunningDataflow" where
  "handle_spawned_node_result ts n g status restart link now df =
     (if \<not> (case map_of (running_nodes df) n of None \<Rightarrow> False | Some node \<Rightarrow> matches_generation node g)
      then (StaleExit, forget_kill_marks n g df)
      else (case exit_result ts n g status df of
              (res, df) \<Rightarrow>
                (let df = reset_incarnation_state n g df in
                 if restart then
                   (case fold (notify_restarted n) (downstream_of n (edge_mappings df)) ([], df) of
                      (notices, df) \<Rightarrow> (Restarting notices, df))
                 else
                   (let df = (case res of
                                Inl e \<Rightarrow> propagate_node_failed n (node_error_display e) df
                              | Inr _ \<Rightarrow> df)
                    in case handle_node_stop_inner n (res = Inr ()) link now df of
                         (r, df) \<Rightarrow> (Stopped res r, df)))))"

section \<open>Requests of a node\<close>

definition might_restart :: "NodeId \<Rightarrow> 'x RunningDataflow \<Rightarrow> bool" where
  "might_restart n df =
     (case map_of (running_nodes df) n of
        None \<Rightarrow> False
      | Some node \<Rightarrow>
          (case restart_policy node of
             Never \<Rightarrow> False
           | _ \<Rightarrow> \<not> disable_restart node))"

definition handle_close_outputs ::
  "NodeId \<Rightarrow> DataId list \<Rightarrow> nat \<Rightarrow> 'x RunningDataflow \<Rightarrow> OutputId list \<times> 'x RunningDataflow" where
  "handle_close_outputs n outputs now df =
     (if might_restart n df then ([], df) else send_output_closed_events n outputs now df)"

section \<open>Views\<close>

text \<open>Generations of the registered nodes, which most operations leave alone.\<close>

definition gens_of :: "(NodeId \<times> RunningNode) list \<Rightarrow> NodeId \<Rightarrow> (nat \<times> nat) option" where
  "gens_of nodes n = map_option (\<lambda>node. (generation node, generation_counter node)) (map_of nodes n)"

abbreviation gens :: "'x RunningDataflow \<Rightarrow> NodeId \<Rightarrow> (nat \<times> nat) option" where
  "gens df \<equiv> gens_of (running_nodes df)"

lemma gens_map_entry:
  "gens_of (AList.map_entry n f nodes) m =
     (if m = n then map_option (\<lambda>node. (generation (f node), generation_counter (f node))) (map_of nodes n)
      else gens_of nodes m)"
  by (simp add: gens_of_def map_of_map_entry split: option.split)

lemma gens_map:
  "(\<And>node. generation (f node) = generation node \<and> generation_counter (f node) = generation_counter node) \<Longrightarrow>
   gens_of (map (\<lambda>(n, node). (n, f node)) nodes) = gens_of nodes"
  by (rule ext) (simp add: gens_of_def map_of_map option.map_comp comp_def)

lemma gens_disabled [simp]: "gens_of (AList.map_entry n node_disable_restart nodes) = gens_of nodes"
  by (rule ext) (simp add: gens_map_entry node_disable_restart_def, simp add: gens_of_def)

lemma running_deliver [simp]: "running_nodes (deliver n c e df) = running_nodes df"
  by (simp add: deliver_eq)

lemma running_send_all [simp]: "running_nodes (send_all_inputs_closed n c now df) = running_nodes df"
  by (simp add: send_all_inputs_closed_def send_to_eq inc_pending_eq split: send_outcome.split)

lemma gens_finish_restarts [simp]: "gens (finish_restarts n df) = gens df"
  by (simp add: finish_restarts_def update_node_def)

lemma gens_signal [simp]: "gens (signal_all_inputs_closed_if_drained n now df) = gens df"
  by (simp add: signal_all_inputs_closed_if_drained_def Let_def split: option.split)

lemma gens_close [simp]: "gens (close_input n i now df) = gens df"
  by (simp add: close_input_def send_input_closed_def remove_input_def Let_def split: option.split)

lemma gens_closed_events [simp]: "gens (snd (send_output_closed_events n outputs now df)) = gens df"
proof -
  have "gens (fold (\<lambda>(r, i). close_input r i now) rs df) = gens df" for rs
    by (induction rs arbitrary: df) auto
  then show ?thesis by (simp add: send_output_closed_events_def Let_def)
qed

lemma running_propagate [simp]: "running_nodes (propagate_node_failed n err df) = running_nodes df"
proof -
  have "running_nodes (fold (\<lambda>(r, is) df. case map_of (subscribe_channels df) r of
      None \<Rightarrow> df | Some c \<Rightarrow> deliver r c (NodeFailed is err n) df) rs df) = running_nodes df" for rs
    by (induction rs arbitrary: df) (auto split: option.split)
  then show ?thesis by (simp add: propagate_node_failed_def)
qed

lemma running_submit [simp]:
  "running_nodes (snd (submit h op df)) = running_nodes df"
  "running_nodes (drop_handle h df) = running_nodes df"
  "running_nodes (submit_marked n g h op df) = running_nodes df"
  "running_nodes (spawn_kill_task n g h d df) = running_nodes df"
  "running_nodes (schedule_process_stop n g h policy df) = running_nodes df"
  "running_nodes (stop_rejected_replacement n g h df) = running_nodes df"
  "running_nodes (drop_process p df) = running_nodes df"
  by (auto simp: submit_def drop_handle_def submit_marked_def spawn_kill_task_def schedule_process_stop_def
      stop_rejected_replacement_def drop_process_def split: StopProcessPolicy.split option.split)

lemma running_exit_result [simp]: "running_nodes (snd (exit_result ts n g status df)) = running_nodes df"
  by (auto simp: exit_result_def error_cause_def take_stderr_def split: NodeExitStatus.split prod.split option.split)

lemma running_notify: "running_nodes (snd (fold (notify_restarted n) rs s)) = running_nodes (snd s)"
  by (induction rs arbitrary: s)
    (auto simp: notify_restarted_def send_to_eq inc_pending_eq split: prod.split option.split send_outcome.split)

lemma gens_unregister: "gens (snd (snd (unregister_node n clean df))) = (gens df)(n := None)"
  by (rule ext) (simp add: unregister_node_def gens_of_def delete_conv' Let_def)

lemma gens_node_stop:
  "gens (snd (handle_node_stop_inner n clean link now df)) n \<in> {None, gens df n} \<and>
   (m \<noteq> n \<longrightarrow> gens (snd (handle_node_stop_inner n clean link now df)) m = gens df m)"
proof -
  obtain r b where s: "handle_node_stop n link (pending_nodes df) = (r, b)" by (cases "handle_node_stop n link (pending_nodes df)")
  let ?df = "df\<lparr>pending_nodes := b\<rparr>"
  have "running_nodes (if should_start_on_barrier_completion st ?df then start ?df else ?df) = running_nodes df" for st
    by (simp add: start_def)
  then have "gens (snd (handle_outputs_done n False now (if should_start_on_barrier_completion st ?df then start ?df else ?df)))
      = gens df" for st
    by (simp only: handle_outputs_done_def if_False gens_closed_events)
  with s show ?thesis
    by (cases r) (simp_all add: handle_node_stop_inner_def Let_def split_beta gens_unregister)
qed

section \<open>Incarnations over time\<close>

text \<open>
  The generation counter of the daemon with a dataflow: a node is registered under a fresh
  generation, its restart loop announces a fresh one for the successor, the successor's process
  replaces the old one, exits arrive for any generation, and nodes are stopped and restarted.
\<close>

inductive lifecycle_step :: "nat \<times> 'x RunningDataflow \<Rightarrow> nat \<times> 'x RunningDataflow \<Rightarrow> bool" where
  registered:
  "next_node_generation k = Some (g, k') \<Longrightarrow> generation node = g \<Longrightarrow> generation_counter node = g \<Longrightarrow>
   lifecycle_step (k, df) (k', df\<lparr>running_nodes := AList.update n node (running_nodes df)\<rparr>)"
| announced:
  "next_node_generation k = Some (g, k') \<Longrightarrow>
   lifecycle_step (k, df) (k', update_node n (\<lambda>node. node\<lparr>generation_counter := g\<rparr>) df)"
| replaced:
  "previous < new \<Longrightarrow> new < k \<Longrightarrow> lifecycle_step (k, df) (k, handle_process_replaced n previous new h df)"
| exited: "lifecycle_step (k, df) (k, snd (handle_spawned_node_result (ts :: 'x) n g status restart link now df))"
| removed: "lifecycle_step (k, df) (k, df\<lparr>running_nodes := AList.delete n (running_nodes df)\<rparr>)"
| stopped: "stop_single_node n grace df = Inr df' \<Longrightarrow> lifecycle_step (k, df) (k, df')"
| restarted: "restart_single_node n grace df = Inr df' \<Longrightarrow> lifecycle_step (k, df) (k, df')"
| stopped_all: "lifecycle_step (k, df) (k, snd (stop_all link grace force df))"

text \<open>The entry of \<open>n\<close> has moved past the generation \<open>g\<close>.\<close>

definition past :: "nat \<Rightarrow> NodeId \<Rightarrow> nat \<times> 'x RunningDataflow \<Rightarrow> bool" where
  "past g n = (\<lambda>(k, df). g < k \<and> (case gens df n of None \<Rightarrow> True | Some (e, c) \<Rightarrow> g < e \<and> g < c))"

lemma past_gens: "past g n (k, df) \<Longrightarrow> gens df' n \<in> {None, gens df n} \<Longrightarrow> past g n (k, df')"
  by (auto simp: past_def)

lemma running_reset [simp]:
  "running_nodes (reset_incarnation_state n g df) = running_nodes df"
  "running_nodes (forget_kill_marks n g df) = running_nodes df"
  by (simp_all add: reset_incarnation_state_def forget_kill_marks_def)

lemma gens_node_stop_frame:
  "running_nodes df' = running_nodes df \<Longrightarrow> gens (snd (handle_node_stop_inner m clean link now df')) n \<in> {None, gens df n}"
  using gens_node_stop [of m clean link now df' n] by (cases "n = m") auto

lemma gens_exited: "gens (snd (handle_spawned_node_result ts m g status restart link now df)) n \<in> {None, gens df n}"
proof -
  let ?df = "reset_incarnation_state m g (snd (exit_result ts m g status df))"
  let ?df' = "case fst (exit_result ts m g status df) of
      Inl e \<Rightarrow> propagate_node_failed m (node_error_display e) ?df | Inr _ \<Rightarrow> ?df"
  have "running_nodes ?df' = running_nodes df" by (simp split: sum.split)
  note stop = gens_node_stop_frame [OF this, of m "fst (exit_result ts m g status df) = Inr ()" link now n]
  have "running_nodes (snd (fold (notify_restarted m) rs ([], ?df))) = running_nodes df" for rs
    by (simp add: running_notify)
  with stop show ?thesis
    by (simp add: handle_spawned_node_result_def Let_def split_beta)
qed

lemma running_send_stop [simp]: "running_nodes (send_stop n df) = running_nodes df"
  by (simp add: send_stop_def split: option.split)

lemma running_stop_kill [simp]:
  "running_nodes (send_stop_and_schedule_kill n g p grace d df) = running_nodes df"
  by (simp add: send_stop_and_schedule_kill_def Let_def split: option.split)

lemma running_send_stop_to_all [simp]: "running_nodes (send_stop_to_all df) = running_nodes df"
proof -
  have "running_nodes (fold (\<lambda>(n, c). deliver n c Stop) cs df) = running_nodes df" for cs
    by (induction cs arbitrary: df) auto
  then show ?thesis by (simp add: send_stop_to_all_def)
qed

lemma running_stop_processes:
  fixes df :: "'x RunningDataflow"
  shows "running_nodes (stop_processes policy df) = map (\<lambda>(n, node). (n, node\<lparr>process := None\<rparr>)) (running_nodes df)"
proof -
  have "running_nodes (fold (\<lambda>(n, node) df. case process node of None \<Rightarrow> df
      | Some h \<Rightarrow> schedule_process_stop n (generation node) h policy df) ns df) = running_nodes df" for ns :: "(NodeId \<times> RunningNode) list" and df :: "'x RunningDataflow"
    by (induction ns arbitrary: df) (auto split: option.split)
  then show ?thesis by (simp add: stop_processes_def)
qed

lemma running_stop_all:
  "stop_all link grace force df = (Inr f, df') \<Longrightarrow>
   running_nodes df' = map (\<lambda>(n, node). (n, node\<lparr>disable_restart := True, process := None\<rparr>)) (running_nodes df)"
  by (auto simp: stop_all_def Let_def running_stop_processes node_disable_restart_def split_beta split: prod.splits sum.splits)

lemma gens_stop_all: "gens (snd (stop_all link grace force df)) = gens df"
proof (cases "fst (stop_all link grace force df)")
  case (Inl e)
  then show ?thesis by (auto simp: stop_all_def Let_def split: prod.splits sum.splits)
next
  case (Inr f)
  then show ?thesis
    using running_stop_all [of link grace force df f "snd (stop_all link grace force df)"]
    by (simp add: prod_eq_iff gens_map)
qed

lemma past_replaced:
  assumes "past g n (k, df)" and "previous < new"
  shows "past g n (k, handle_process_replaced m previous new h df)"
proof (cases "map_of (running_nodes df) m")
  case None
  with assms show ?thesis by (simp add: past_def handle_process_replaced_def)
next
  case (Some node)
  have "gens (handle_process_replaced m previous new h df) n =
     (if n = m \<and> generation node = previous then Some (new, generation_counter node) else gens df n)"
    using Some by (auto simp: handle_process_replaced_def replace_process_handle_def matches_generation_def
        update_node_def gens_map_entry)
  with assms Some show ?thesis
    by (simp add: past_def) (auto simp: gens_of_def split: if_splits option.splits)
qed

lemma past_step: "lifecycle_step s s' \<Longrightarrow> past g n s \<Longrightarrow> past g n s'"
proof (induction rule: lifecycle_step.induct)
  case (registered k e k' node df m)
  then show ?case
    by (auto simp: past_def gens_of_def next_node_generation_def update_conv' split: if_splits option.splits)
next
  case (announced k e k' df m)
  then show ?case
    by (auto simp: past_def gens_of_def next_node_generation_def update_node_def map_of_map_entry
        split: if_splits option.splits)
next
  case (replaced previous new k df m h)
  then show ?case using past_replaced by blast
next
  case (exited k df ts m e status restart link now)
  then show ?case using gens_exited by (rule past_gens)
next
  case (removed k df m)
  then show ?case by (auto simp: past_def gens_of_def delete_conv' split: option.splits)
next
  case (stopped m grace df df' k)
  then have "gens df' n = gens df n"
    by (auto simp: stop_single_node_def update_node_def gens_map_entry split: option.splits) (auto simp: gens_of_def)
  with stopped show ?case by (simp add: past_def)
next
  case (restarted m grace df df' k)
  then have "gens df' n = gens df n"
    by (auto simp: restart_single_node_def update_node_def gens_map_entry split: option.splits if_splits)
      (auto simp: gens_of_def)
  with restarted show ?case by (simp add: past_def)
next
  case (stopped_all k df link grace force)
  then show ?case by (simp add: past_def gens_stop_all)
qed


definition fresh_node :: "nat \<Rightarrow> RunningNode" where
  "fresh_node g =
     \<lparr> process = Some 0, generation = g, generation_counter = g, node_dynamic = False, config_inputs = [],
       output_routing = None, restart_policy = Always, disable_restart = False, force_restart_next = False,
       last_activity = 0, spawned_at = 0, startup_kill_sent = False, health_check_timeout = None,
       startup_timeout = None, finish_grace_secs = None \<rparr>"

definition one_node :: "unit RunningDataflow" where
  "one_node = new_dataflow\<lparr>running_nodes := [(NodeId ''a'', fresh_node 5)], handle_open := (\<lambda>h. h = 0)\<rparr>"


section \<open>Outcomes of exits and stops\<close>

text \<open>The flag that disables restarts is never cleared by the closing of inputs.\<close>

definition restarts_off :: "(NodeId \<times> RunningNode) list \<Rightarrow> NodeId \<Rightarrow> bool" where
  "restarts_off nodes n = (case map_of nodes n of None \<Rightarrow> False | Some node \<Rightarrow> disable_restart node)"

lemma off_finish_restarts: "restarts_off (running_nodes df) n \<Longrightarrow> restarts_off (running_nodes (finish_restarts m df)) n"
  by (auto simp: restarts_off_def finish_restarts_def update_node_def map_of_map_entry node_disable_restart_def
      split: option.splits)

lemma off_close: "restarts_off (running_nodes df) n \<Longrightarrow> restarts_off (running_nodes (close_input m i now df)) n"
  by (auto simp: close_input_def send_input_closed_def remove_input_def signal_all_inputs_closed_if_drained_def
      Let_def off_finish_restarts split: option.splits)

lemma off_outputs_done:
  "restarts_off (running_nodes df) n \<Longrightarrow> restarts_off (running_nodes (snd (handle_outputs_done m b now df))) n"
proof -
  have "restarts_off (running_nodes df) n \<Longrightarrow>
      restarts_off (running_nodes (fold (\<lambda>(r, i). close_input r i now) rs df)) n" for rs
    by (induction rs arbitrary: df) (auto simp: off_close)
  then show "restarts_off (running_nodes df) n \<Longrightarrow> ?thesis"
    by (simp add: handle_outputs_done_def send_output_closed_events_def Let_def)
qed

lemma escalated_deliver [simp]: "finish_escalated (deliver n c e df) = finish_escalated df"
  by (simp add: deliver_eq)

lemma kept_send_all [simp]:
  "grace_duration_kills (send_all_inputs_closed n c now df) = grace_duration_kills df"
  "finish_escalated (send_all_inputs_closed n c now df) = finish_escalated df"
  by (simp_all add: send_all_inputs_closed_def send_to_eq inc_pending_eq split: send_outcome.split)

lemma kept_finish_restarts [simp]:
  "grace_duration_kills (finish_restarts n df) = grace_duration_kills df"
  "finish_escalated (finish_restarts n df) = finish_escalated df"
  by (simp_all add: finish_restarts_def update_node_def)

lemma escalated_close [simp]: "finish_escalated (close_input n i now df) = finish_escalated df"
  by (simp add: close_input_def send_input_closed_def remove_input_def signal_all_inputs_closed_if_drained_def Let_def
      split: option.split)

lemma escalated_outputs_done [simp]: "finish_escalated (snd (handle_outputs_done n b now df)) = finish_escalated df"
proof -
  have "finish_escalated (fold (\<lambda>(r, i). close_input r i now) rs df) = finish_escalated df" for rs
    by (induction rs arbitrary: df) auto
  then show ?thesis by (simp add: handle_outputs_done_def send_output_closed_events_def Let_def)
qed

lemma escalated_propagate [simp]: "finish_escalated (propagate_node_failed n err df) = finish_escalated df"
proof -
  have "finish_escalated (fold (\<lambda>(r, is) df. case map_of (subscribe_channels df) r of
      None \<Rightarrow> df | Some c \<Rightarrow> deliver r c (NodeFailed is err n) df) rs df) = finish_escalated df" for rs
    by (induction rs arbitrary: df) (simp_all split: option.split prod.split)
  then show ?thesis by (simp add: propagate_node_failed_def)
qed

lemma take_stderr_kept [simp]:
  "finish_escalated (snd (take_stderr n df)) = finish_escalated df"
  "pending_nodes (snd (take_stderr n df)) = pending_nodes df"
  "running_nodes (snd (take_stderr n df)) = running_nodes df"
  by (simp_all add: take_stderr_def split: option.split)

lemma error_cause_state: "snd (error_cause n g status df) \<in> {df, snd (take_stderr n df)}"
  by (simp add: error_cause_def split_beta split: option.split)

lemma exit_result_state: "snd (exit_result ts n g status df) \<in> {df, snd (take_stderr n df)}"
  using error_cause_state [of n g status df] by (auto simp: exit_result_def split_beta split: NodeExitStatus.split)

lemma escalated_exit_result [simp]: "finish_escalated (snd (exit_result ts n g status df)) = finish_escalated df"
  using exit_result_state [of ts n g status df] by auto

lemma node_stop_report:
  assumes "handle_node_stop_inner n clean link now df = (Inr (fin, clean_stop, ann), df')"
  shows "map_of (running_nodes df') n = None"
    and "clean \<Longrightarrow> clean_stop"
    and "clean_stop \<Longrightarrow> \<not> clean \<Longrightarrow> n \<notin> finish_escalated df"
    and "restarts_off (running_nodes df) n \<Longrightarrow> n \<notin> finish_escalated df \<Longrightarrow> clean_stop"
proof -
  obtain st b where s: "handle_node_stop n link (pending_nodes df) = (Inr st, b)"
    using assms by (auto simp: handle_node_stop_inner_def split: prod.splits sum.splits)
  let ?df0 = "df\<lparr>pending_nodes := b\<rparr>"
  define df1 where "df1 = (if should_start_on_barrier_completion st ?df0 then start ?df0 else ?df0)"
  define df2 where "df2 = snd (handle_outputs_done n False now df1)"
  have u: "unregister_node n clean df2 = (fin, clean_stop, df')"
    using assms s
    by (simp add: handle_node_stop_inner_def Let_def df1_def [symmetric] df2_def split_beta prod_eq_iff)
  have same: "running_nodes df1 = running_nodes df" "finish_escalated df1 = finish_escalated df"
    by (simp_all add: df1_def start_def)
  have esc: "finish_escalated df2 = finish_escalated df" using same by (simp add: df2_def)
  show "map_of (running_nodes df') n = None" using u by (auto simp: unregister_node_def Let_def delete_conv')
  show "clean \<Longrightarrow> clean_stop" using u by (auto simp: unregister_node_def Let_def)
  show "clean_stop \<Longrightarrow> \<not> clean \<Longrightarrow> n \<notin> finish_escalated df" using u esc by (auto simp: unregister_node_def Let_def)
  assume "restarts_off (running_nodes df) n" and "n \<notin> finish_escalated df"
  then have "restarts_off (running_nodes df2) n"
    using off_outputs_done [of df1 n n False now] same by (simp add: df2_def)
  with \<open>n \<notin> finish_escalated df\<close> show clean_stop
    using u esc by (auto simp: unregister_node_def restarts_off_def Let_def)
qed

text \<open>The stages of an exit that ends its node.\<close>

lemma stopped_cases:
  assumes "handle_spawned_node_result ts n g status restart link now df = (Stopped res r, df')"
  obtains df1 where "res = fst (exit_result ts n g status df)"
    and "running_nodes df1 = running_nodes df" and "finish_escalated df1 = finish_escalated df"
    and "handle_node_stop_inner n (res = Inr ()) link now df1 = (r, df')"
proof -
  define df0 where "df0 = reset_incarnation_state n g (snd (exit_result ts n g status df))"
  define df1 where "df1 = (case fst (exit_result ts n g status df) of
      Inl e \<Rightarrow> propagate_node_failed n (node_error_display e) df0 | Inr _ \<Rightarrow> df0)"
  have "running_nodes df1 = running_nodes df" "finish_escalated df1 = finish_escalated df"
    by (auto simp: df1_def df0_def reset_incarnation_state_def split: sum.split)
  moreover have "res = fst (exit_result ts n g status df) \<and> handle_node_stop_inner n (res = Inr ()) link now df1 = (r, df')"
    using assms unfolding df1_def df0_def
    by (auto simp: handle_spawned_node_result_def Let_def split_beta split: if_splits option.splits)
  ultimately show thesis using that by blast
qed

lemma error_cause_cases:
  "case error_caused_by (causes (pending_nodes df)) n of
     Some m \<Rightarrow> fst (error_cause n g status df) = Cascading m
   | None \<Rightarrow> (fst (error_cause n g status df) = GraceDuration \<longleftrightarrow> (n, g) \<in> grace_duration_kills df \<or> n \<in> finish_escalated df)"
  by (simp add: error_cause_def split_beta split: option.split)

lemma exit_result_cases:
  "(fst (exit_result ts n g status df) = Inr () \<longleftrightarrow> status = Success \<or> planned_stop n g status df) \<and>
   (fst (exit_result ts n g status df) = Inl e \<longrightarrow>
      exit_status e = status \<and> cause e = fst (error_cause n g status df))"
  by (cases status) (auto simp: exit_result_def split_beta)

text \<open>C28: How the end of a node is reported. Its result is a success exactly if the process succeeded, or if the
  daemon itself asked this incarnation to stop, the exit looks like a termination signal, no other
  node caused it and the finish watchdog did not escalate it. Otherwise the error blames the
  node that caused it, or the grace period after a kill by the daemon. A node
  that the watchdog escalated is reported as stopped cleanly only if its result is a success. The node is unregistered.\<close>

theorem exit_report_exact:
  assumes "handle_spawned_node_result ts n g status restart link now df = (Stopped res (Inr (fin, clean_stop, ann)), df')"
  shows "(res = Inr () \<longleftrightarrow>
      status = Success \<or>
      (error_caused_by (causes (pending_nodes df)) n = None \<and> (n, g) \<in> grace_duration_kills df \<and>
       is_sigterm_like_exit status \<and> n \<notin> finish_escalated df)) \<and>
   (\<forall>e. res = Inl e \<longrightarrow>
      exit_status e = status \<and>
      (case error_caused_by (causes (pending_nodes df)) n of
         Some m \<Rightarrow> cause e = Cascading m
       | None \<Rightarrow> (cause e = GraceDuration \<longleftrightarrow> (n, g) \<in> grace_duration_kills df \<or> n \<in> finish_escalated df))) \<and>
   (res = Inr () \<longrightarrow> clean_stop) \<and>
   (clean_stop \<longrightarrow> res = Inr () \<or> n \<notin> finish_escalated df) \<and>
   map_of (running_nodes df') n = None"
proof -
  obtain df1 where res: "res = fst (exit_result ts n g status df)" and esc: "finish_escalated df1 = finish_escalated df"
    and stop: "handle_node_stop_inner n (res = Inr ()) link now df1 = (Inr (fin, clean_stop, ann), df')"
    by (rule stopped_cases [OF assms]) blast
  note r = node_stop_report [OF stop, unfolded esc]
  have "(clean_stop \<longrightarrow> res = Inr () \<or> n \<notin> finish_escalated df) \<and> (res = Inr () \<longrightarrow> clean_stop)" using r(2,3) by blast
  then show ?thesis
    using r(1) exit_result_cases [of ts n g status df] error_cause_cases [where df = df and n = n and g = g and status = status]
    unfolding res planned_stop_def by (auto split: option.splits)
qed

text \<open>An exit that ends its node is handled to the end unless the coordinator cannot be reached.\<close>

lemma barrier_exit_result [simp]: "pending_nodes (snd (exit_result ts n g status df)) = pending_nodes df"
  using exit_result_state [of ts n g status df] by auto

lemma barrier_propagate [simp]: "pending_nodes (propagate_node_failed n err df) = pending_nodes df"
proof -
  have "pending_nodes (fold (\<lambda>(r, is) df. case map_of (subscribe_channels df) r of
      None \<Rightarrow> df | Some c \<Rightarrow> deliver r c (NodeFailed is err n) df) rs df) = pending_nodes df" for rs
    by (induction rs arbitrary: df) (simp_all add: deliver_eq split: option.split prod.split)
  then show ?thesis by (simp add: propagate_node_failed_def)
qed

lemma exit_completes:
  assumes "map_of (running_nodes df) n = Some node" and "generation node = g"
    and "fst (handle_node_stop n link (pending_nodes df)) = Inr st"
  shows "\<exists>res fin clean_stop ann df'.
    handle_spawned_node_result ts n g status False link now df = (Stopped res (Inr (fin, clean_stop, ann)), df')"
proof -
  define res where "res = fst (exit_result ts n g status df)"
  define df1 where "df1 = (case res of
      Inl e \<Rightarrow> propagate_node_failed n (node_error_display e) (reset_incarnation_state n g (snd (exit_result ts n g status df)))
    | Inr _ \<Rightarrow> reset_incarnation_state n g (snd (exit_result ts n g status df)))"
  have "pending_nodes df1 = pending_nodes df"
    by (simp add: df1_def reset_incarnation_state_def split: sum.split)
  with assms(3) obtain r df' where "handle_node_stop_inner n (res = Inr ()) link now df1 = (Inr r, df')"
    by (cases "handle_node_stop n link (pending_nodes df)") (simp add: handle_node_stop_inner_def Let_def split_beta)
  moreover have "handle_spawned_node_result ts n g status False link now df
      = (case handle_node_stop_inner n (res = Inr ()) link now df1 of (r, df) \<Rightarrow> (Stopped res r, df))"
    using assms(1,2) unfolding df1_def res_def
    by (simp add: handle_spawned_node_result_def matches_generation_def Let_def split_beta)
  ultimately show ?thesis by (cases r) (auto simp: split_beta)
qed

lemma one_node_facts:
  "running_nodes one_node = [(NodeId ''a'', fresh_node 5)]" "pending_nodes one_node = pending_new"
  "fst (handle_node_stop n link pending_new) = Inr PendingStatus" "generation (fresh_node g) = g"
  by (simp_all add: one_node_def new_dataflow_def handle_node_stop_def pending_new_def fresh_node_def)

theorem exit_report_exact_witness:
  "\<exists>res fin clean_stop ann df'.
     handle_spawned_node_result () (NodeId ''a'') 5 (Signal 15) False NoSender 0
       (one_node\<lparr>grace_duration_kills := {(NodeId ''a'', 5)}\<rparr>) = (Stopped res (Inr (fin, clean_stop, ann)), df') \<and>
     res = Inr () \<and> clean_stop"
proof -
  let ?df = "one_node\<lparr>grace_duration_kills := {(NodeId ''a'', 5)}\<rparr>"
  have "map_of (running_nodes ?df) (NodeId ''a'') = Some (fresh_node 5)"
    and "fst (handle_node_stop (NodeId ''a'') NoSender (pending_nodes ?df)) = Inr PendingStatus"
    by (simp_all add: one_node_facts)
  from exit_completes [OF this(1) one_node_facts(4) this(2), of "()" "Signal 15" 0]
  obtain res fin clean_stop ann df' where
    run: "handle_spawned_node_result () (NodeId ''a'') 5 (Signal 15) False NoSender 0 ?df
      = (Stopped res (Inr (fin, clean_stop, ann)), df')"
    by blast
  from exit_report_exact [OF this] have "res = Inr () \<and> clean_stop"
    by (simp add: one_node_def new_dataflow_def pending_new_def error_caused_by_def is_sigterm_like_exit_def)
  with run show ?thesis by blast
qed

text \<open>What a subscription leaves of the node's state.\<close>

lemma kept_deliver [simp]:
  "grace_duration_kills (deliver n c e df) = grace_duration_kills df"
  "open_inputs m (deliver n c e df) = open_inputs m df"
  "has_broken_input m (deliver n c e df) = has_broken_input m df"
  by (simp_all add: deliver_eq open_inputs_def has_broken_input_def)

lemma kept_announce_closed [simp]:
  "grace_duration_kills (announce_closed n c df) = grace_duration_kills df"
  "finish_escalated (announce_closed n c df) = finish_escalated df"
  "running_nodes (announce_closed n c df) = running_nodes df"
  "open_inputs m (announce_closed n c df) = open_inputs m df"
  "has_broken_input m (announce_closed n c df) = has_broken_input m df"
proof -
  have "grace_duration_kills (fold (\<lambda>i. deliver n c (InputClosed i)) is df) = grace_duration_kills df \<and>
      finish_escalated (fold (\<lambda>i. deliver n c (InputClosed i)) is df) = finish_escalated df \<and>
      running_nodes (fold (\<lambda>i. deliver n c (InputClosed i)) is df) = running_nodes df \<and>
      open_inputs m (fold (\<lambda>i. deliver n c (InputClosed i)) is df) = open_inputs m df \<and>
      has_broken_input m (fold (\<lambda>i. deliver n c (InputClosed i)) is df) = has_broken_input m df" for "is"
    by (induction "is" arbitrary: df) simp_all
  then show "grace_duration_kills (announce_closed n c df) = grace_duration_kills df"
    "finish_escalated (announce_closed n c df) = finish_escalated df"
    "running_nodes (announce_closed n c df) = running_nodes df"
    "open_inputs m (announce_closed n c df) = open_inputs m df"
    "has_broken_input m (announce_closed n c df) = has_broken_input m df"
    by (simp_all add: announce_closed_def)
qed

lemma kept_announcements [simp]:
  "grace_duration_kills (announce_stop n c df) = grace_duration_kills df"
  "finish_escalated (announce_stop n c df) = finish_escalated df"
  "grace_duration_kills (announce_finished n c now df) = grace_duration_kills df"
  "finish_escalated (announce_finished n c now df) = finish_escalated df"
  "running_nodes (announce_finished n c now df) = running_nodes df"
  by (simp_all add: announce_stop_def announce_finished_def update_node_def)

lemma off_announce_stop: "restarts_off (running_nodes df) n \<Longrightarrow> restarts_off (running_nodes (announce_stop m c df)) n"
  by (auto simp: restarts_off_def announce_stop_def update_node_def map_of_map_entry node_disable_restart_def
      split: option.splits)

lemma off_finished:
  "map_of (running_nodes df) n = Some node \<Longrightarrow> open_inputs n df = {} \<Longrightarrow> \<not> has_broken_input n df \<Longrightarrow>
   restarts_off (running_nodes (finish_restarts n df)) n"
  by (simp add: restarts_off_def finish_restarts_def update_node_def map_of_map_entry node_disable_restart_def)

lemma subscribe_frame:
  assumes "map_of (running_nodes df) n = Some node" and "open_inputs n df = {}" and "\<not> has_broken_input n df"
  shows "restarts_off (running_nodes (handle_subscribe n c d now df)) n"
    and "finish_escalated (handle_subscribe n c d now df) = finish_escalated df"
    and "grace_duration_kills (handle_subscribe n c d now df) = grace_duration_kills df"
proof -
  let ?df = "df\<lparr>channels := (channels df)(c := new_channel), counters := (counters df)(c := 0),
      pending_messages := AList.update n c (pending_messages df), drain_signals := AList.update n d (drain_signals df),
      connected_nodes := insert n (connected_nodes df)\<rparr>"
  have "restarts_off (running_nodes (finish_restarts n (announce_closed n c ?df))) n"
  proof (rule off_finished [of _ _ node])
    have "open_inputs n ?df = open_inputs n df" and "has_broken_input n ?df = has_broken_input n df"
      by (simp_all add: open_inputs_def has_broken_input_def)
    with assms show "map_of (running_nodes (announce_closed n c ?df)) n = Some node"
      and "open_inputs n (announce_closed n c ?df) = {}" and "\<not> has_broken_input n (announce_closed n c ?df)" by simp_all
  qed
  then show "restarts_off (running_nodes (handle_subscribe n c d now df)) n"
    by (simp add: handle_subscribe_def subscribe_def install_channel_def off_announce_stop)
qed (simp_all add: handle_subscribe_def subscribe_def install_channel_def)

text \<open>C29: A crash can be reported as a clean stop. Subscribing disables the restarts of a node that has no open input, such as
  every source; if the process of such a node fails later, its result is an error and the coordinator is
  nevertheless told that the node stopped cleanly.\<close>

theorem crashed_source_reported_clean:
  assumes "map_of (running_nodes df) n = Some node" and "open_inputs n df = {}" and "\<not> has_broken_input n df"
    and "n \<notin> finish_escalated df" and "(n, g) \<notin> grace_duration_kills df" and "status \<noteq> Success"
    and "handle_spawned_node_result ts n g status False link later (handle_subscribe n c d now df)
           = (Stopped res (Inr (fin, clean_stop, ann)), df')"
  shows "res \<noteq> Inr () \<and> clean_stop"
proof -
  let ?s = "handle_subscribe n c d now df"
  obtain df1 where res: "res = fst (exit_result ts n g status ?s)"
    and same: "running_nodes df1 = running_nodes ?s" "finish_escalated df1 = finish_escalated ?s"
    and stop: "handle_node_stop_inner n (res = Inr ()) link later df1 = (Inr (fin, clean_stop, ann), df')"
    by (rule stopped_cases [OF assms(7)]) blast
  from subscribe_frame [OF assms(1-3), of c d now] assms(4)
  have "restarts_off (running_nodes df1) n" and "n \<notin> finish_escalated df1" by (simp_all add: same)
  then have clean_stop by (rule node_stop_report(4) [OF stop])
  moreover have "\<not> planned_stop n g status ?s"
    using assms(5) subscribe_frame [OF assms(1-3), of c d now] by (simp add: planned_stop_def)
  ultimately show ?thesis using exit_result_cases [of ts n g status ?s] assms(6) by (simp add: res)
qed

theorem crashed_source_reported_clean_witness:
  "\<exists>res fin clean_stop ann df'.
     handle_spawned_node_result () (NodeId ''a'') 5 (ExitCode 1) False NoSender 0
       (handle_subscribe (NodeId ''a'') 0 0 0 one_node) = (Stopped res (Inr (fin, clean_stop, ann)), df') \<and>
     res \<noteq> Inr () \<and> clean_stop"
proof -
  let ?s = "handle_subscribe (NodeId ''a'') 0 0 0 one_node"
  have "map_of (running_nodes ?s) (NodeId ''a'') = Some (node_disable_restart (fresh_node 5))"
    and "pending_nodes ?s = pending_new"
    by (simp_all add: handle_subscribe_def subscribe_def install_channel_def announce_stop_def announce_finished_def
        announce_closed_def closed_inputs_of_def finish_restarts_def update_node_def is_finished_non_source_def
        one_node_def new_dataflow_def open_inputs_def has_broken_input_def has_data_input_def)
  then have "\<exists>res fin clean_stop ann df'. handle_spawned_node_result () (NodeId ''a'') 5 (ExitCode 1) False NoSender 0 ?s
      = (Stopped res (Inr (fin, clean_stop, ann)), df')"
    by (intro exit_completes [of _ _ "node_disable_restart (fresh_node 5)"])
      (simp_all add: one_node_facts node_disable_restart_def)
  then obtain res fin clean_stop ann df' where
    run: "handle_spawned_node_result () (NodeId ''a'') 5 (ExitCode 1) False NoSender 0 ?s
      = (Stopped res (Inr (fin, clean_stop, ann)), df')"
    by blast
  have "res \<noteq> Inr () \<and> clean_stop"
    by (rule crashed_source_reported_clean [OF _ _ _ _ _ _ run])
      (simp_all add: one_node_def new_dataflow_def open_inputs_def has_broken_input_def)
  with run show ?thesis by blast
qed

text \<open>A process that is gone, was sent a kill, or has a task that will kill it.\<close>

definition doomed :: "nat \<Rightarrow> 'x RunningDataflow \<Rightarrow> bool" where
  "doomed h df \<longleftrightarrow> \<not> handle_open df h \<or> (h, Kill) \<in> set (submitted df) \<or> (\<exists>t\<in>set (kill_tasks df). task_process t = h)"

lemma doomed_drop: "doomed h (drop_handle h df)"
  by (simp add: doomed_def drop_handle_def submit_def)

lemma doomed_schedule: "doomed h (schedule_process_stop n g h policy df)"
  by (cases policy)
    (simp_all add: schedule_process_stop_def doomed_drop, simp add: doomed_def spawn_kill_task_def)

lemma doomed_schedule_keeps: "doomed h df \<Longrightarrow> doomed h (schedule_process_stop n g h' policy df)"
  by (cases policy)
    (auto simp: schedule_process_stop_def doomed_def drop_handle_def submit_def submit_marked_def spawn_kill_task_def)

lemma doomed_stop_processes:
  fixes df :: "'x RunningDataflow"
  assumes "(n, node) \<in> set (running_nodes df)" and "process node = Some h"
  shows "doomed h (stop_processes policy df)"
proof -
  let ?f = "\<lambda>(n, node) df. (case process node of None \<Rightarrow> df
      | Some h \<Rightarrow> schedule_process_stop n (generation node) h policy df)"
  have keep: "doomed h df \<Longrightarrow> doomed h (fold ?f ns df)" for ns :: "(NodeId \<times> RunningNode) list" and df :: "'x RunningDataflow"
    by (induction ns arbitrary: df) (auto simp: doomed_schedule_keeps split: option.split)
  have "(n, node) \<in> set ns \<Longrightarrow> doomed h (fold ?f ns df)" for ns :: "(NodeId \<times> RunningNode) list" and df :: "'x RunningDataflow"
  proof (induction ns arbitrary: df)
    case (Cons x ns)
    then show ?case
      using keep [of "?f x df" ns] assms(2) by (auto simp: doomed_schedule)
  qed simp
  with assms(1) show ?thesis by (simp add: stop_processes_def)
qed



end
