(* ===== verification/Finish_Watchdog.thy ===== *)
theory Finish_Watchdog
  imports Node_Lifecycle
begin

text \<open>
  The watchdogs of a running dataflow: nodes that block an otherwise finished dataflow
  (\<open>finish_stragglers\<close>, \<open>nodes_blocked_by_open_remote_edges\<close>, \<open>select_finish_stragglers\<close> in
  \<open>binaries/daemon/src/running_dataflow.rs\<close>, \<open>check_finish_stragglers\<close> in \<open>dora_events.rs\<close>) and
  nodes that do not connect or fall silent (\<open>check_node_health\<close>). The search for blocked
  nodes computes reachability; selection and escalation are characterised with it.

  The monotonic clock is a number of nanoseconds, the activity clock one of milliseconds.
\<close>

section \<open>Nodes that wait for another daemon\<close>

record search =
  blocked :: "NodeId set"
  visited :: "NodeId set"
  frontier :: "NodeId list"

definition visit :: "NodeId \<Rightarrow> search \<Rightarrow> search" where
  "visit n s =
     (if n \<in> visited s then s
      else s\<lparr>visited := insert n (visited s), frontier := frontier s @ [n]\<rparr>)"

definition block_receiver :: "'x RunningDataflow \<Rightarrow> NodeId \<times> DataId \<Rightarrow> search \<Rightarrow> search" where
  "block_receiver df = (\<lambda>(r, i) s.
     (if i \<in> open_inputs r df then visit r (s\<lparr>blocked := insert r (blocked s)\<rparr>) else s))"

definition seed_external :: "'x RunningDataflow \<Rightarrow> search" where
  "seed_external df =
     fold (\<lambda>oid. visit (fst oid)) (open_external_mappings df)
       \<lparr> blocked = {}, visited = {}, frontier = [] \<rparr>"

definition seed_search :: "'x RunningDataflow \<Rightarrow> search" where
  "seed_search df =
     fold (\<lambda>(oid, rs) s.
             (if map_of (running_nodes df) (fst oid) \<noteq> None then s else fold (block_receiver df) rs s))
       (edge_mappings df) (seed_external df)"

definition receivers_from :: "'x RunningDataflow \<Rightarrow> NodeId \<Rightarrow> (NodeId \<times> DataId) list" where
  "receivers_from df p = concat (map snd (filter (\<lambda>(oid, rs). fst oid = p) (edge_mappings df)))"

definition all_receivers :: "'x RunningDataflow \<Rightarrow> NodeId set" where
  "all_receivers df = fst ` set (concat (map snd (edge_mappings df)))"

text \<open>Receivers among \<open>rs\<close> whose input is still open, and what blocking them does to a search.\<close>

definition opened :: "'x RunningDataflow \<Rightarrow> (NodeId \<times> DataId) list \<Rightarrow> NodeId set" where
  "opened df rs = {r. \<exists>i. (r, i) \<in> set rs \<and> i \<in> open_inputs r df}"

lemma block_one:
  "blocked (block_receiver df r s) = blocked s \<union> opened df [r]"
  "visited (block_receiver df r s) = visited s \<union> opened df [r]"
  "\<exists>ns. frontier (block_receiver df r s) = frontier s @ ns \<and> set ns = opened df [r] - visited s"
  by (cases r; auto simp: block_receiver_def visit_def opened_def)+

lemma opened_Cons: "opened df (r # rs) = opened df [r] \<union> opened df rs"
  by (auto simp: opened_def)

lemma block_all:
  "blocked (fold (block_receiver df) rs s) = blocked s \<union> opened df rs"
  "visited (fold (block_receiver df) rs s) = visited s \<union> opened df rs"
  "\<exists>ns. frontier (fold (block_receiver df) rs s) = frontier s @ ns \<and> set ns = opened df rs - visited s"
proof (induction rs arbitrary: s)
  case (Cons r rs)
  case 1
  show ?case using Cons.IH(1) by (simp add: block_one opened_Cons [of df r rs] Un_assoc)
  case 2
  show ?case using Cons.IH(2) by (simp add: block_one opened_Cons [of df r rs] Un_assoc)
  case 3
  obtain ms where ms: "frontier (block_receiver df r s) = frontier s @ ms" "set ms = opened df [r] - visited s"
    using block_one(3) by blast
  obtain ns where ns: "frontier (fold (block_receiver df) rs (block_receiver df r s)) = frontier (block_receiver df r s) @ ns"
    "set ns = opened df rs - visited (block_receiver df r s)"
    using Cons.IH(3) by blast
  show ?case using ms ns by (intro exI [of _ "ms @ ns"]) (auto simp: block_one opened_Cons [of df r rs])
qed (simp_all add: opened_def)

lemma finite_receivers: "finite (all_receivers df)"
  by (simp add: all_receivers_def)

lemma opened_subset: "opened df (receivers_from df p) \<subseteq> all_receivers df"
  by (auto simp: opened_def receivers_from_def all_receivers_def image_iff) force

text \<open>Every round takes a producer from the frontier; a producer enters it only once.\<close>

function drain_frontier :: "'x RunningDataflow \<Rightarrow> search \<Rightarrow> search" where
  "drain_frontier df s =
     (case frontier s of
        [] \<Rightarrow> s
      | p # q \<Rightarrow> drain_frontier df (fold (block_receiver df) (receivers_from df p) (s\<lparr>frontier := q\<rparr>)))"
  by pat_completeness auto

termination
proof (relation "inv_image (less_than <*lex*> less_than)
    (\<lambda>(df, s). (card (all_receivers df - visited s), length (frontier s)))")
  fix df :: "'x RunningDataflow" and s :: search and p :: NodeId and q :: "NodeId list"
  assume f: "frontier s = p # q"
  let ?s = "fold (block_receiver df) (receivers_from df p) (s\<lparr>frontier := q\<rparr>)"
  have v: "visited ?s = visited s \<union> opened df (receivers_from df p)" by (simp add: block_all(2))
  show "((df, ?s), df, s) \<in> inv_image (less_than <*lex*> less_than)
      (\<lambda>(df, s). (card (all_receivers df - visited s), length (frontier s)))"
  proof (cases "opened df (receivers_from df p) \<subseteq> visited s")
    case True
    obtain ns where ns: "frontier ?s = q @ ns" "set ns = opened df (receivers_from df p) - visited s"
      using block_all(3) [of df "receivers_from df p" "s\<lparr>frontier := q\<rparr>"] by auto
    with True have "ns = []" by (metis Diff_eq_empty_iff set_empty)
    with ns have "frontier ?s = q" by simp
    with f v True show ?thesis by (simp add: Un_absorb2)
  next
    case False
    with opened_subset [of df p] v have "all_receivers df - visited ?s \<subset> all_receivers df - visited s" by auto
    then have "card (all_receivers df - visited ?s) < card (all_receivers df - visited s)"
      by (intro psubset_card_mono) (simp add: finite_receivers)
    then show ?thesis by simp
  qed
qed (simp add: wf_inv_image wf_lex_prod)

declare drain_frontier.simps [simp del]

definition nodes_blocked_by_open_remote_edges :: "'x RunningDataflow \<Rightarrow> NodeId set" where
  "nodes_blocked_by_open_remote_edges df = blocked (drain_frontier df (seed_search df))"

section \<open>The search computes reachability\<close>

text \<open>\<open>feeds\<close>: the receiver has an open input from the producer. A root has an output that another
  daemon consumes, or is not running here.\<close>

definition feeds :: "'x RunningDataflow \<Rightarrow> NodeId \<Rightarrow> NodeId \<Rightarrow> bool" where
  "feeds df p r \<longleftrightarrow> (\<exists>i. (r, i) \<in> set (receivers_from df p) \<and> i \<in> open_inputs r df)"

definition exports :: "'x RunningDataflow \<Rightarrow> NodeId \<Rightarrow> bool" where
  "exports df p \<longleftrightarrow> (\<exists>out. (p, out) \<in> set (open_external_mappings df))"

definition waits_for_remote :: "'x RunningDataflow \<Rightarrow> NodeId \<Rightarrow> bool" where
  "waits_for_remote df r \<longleftrightarrow>
     (\<exists>p. (exports df p \<or> map_of (running_nodes df) p = None) \<and> (feeds df)\<^sup>+\<^sup>+ p r)"

lemma opened_feeds: "opened df (receivers_from df p) = {r. feeds df p r}"
  by (simp add: opened_def feeds_def)

text \<open>A search is sound, and complete up to its frontier.\<close>

definition search_inv :: "'x RunningDataflow \<Rightarrow> search \<Rightarrow> bool" where
  "search_inv df s \<longleftrightarrow>
     (\<forall>r\<in>blocked s. waits_for_remote df r) \<and> visited s = {p. exports df p} \<union> blocked s \<and>
     (\<forall>p r. map_of (running_nodes df) p = None \<longrightarrow> feeds df p r \<longrightarrow> r \<in> blocked s) \<and>
     (\<forall>p\<in>visited s. p \<in> set (frontier s) \<or> (\<forall>r. feeds df p r \<longrightarrow> r \<in> blocked s)) \<and> set (frontier s) \<subseteq> visited s"

lemma exports_image: "{p. exports df p} = fst ` set (open_external_mappings df)"
  by (force simp: exports_def)

lemma seed_external_eq:
  "blocked (seed_external df) = {}" "visited (seed_external df) = {p. exports df p}"
  "set (frontier (seed_external df)) = visited (seed_external df)"
proof -
  have "blocked (fold (\<lambda>oid. visit (fst oid)) es s) = blocked s \<and>
      visited (fold (\<lambda>oid. visit (fst oid)) es s) = visited s \<union> fst ` set es \<and>
      (set (frontier s) = visited s \<longrightarrow> set (frontier (fold (\<lambda>oid. visit (fst oid)) es s)) = visited s \<union> fst ` set es)" for es and s :: search
    by (induction es arbitrary: s) (auto simp: visit_def)
  from this [of "open_external_mappings df" "\<lparr> blocked = {}, visited = {}, frontier = [] \<rparr>"]
  show "blocked (seed_external df) = {}" "visited (seed_external df) = {p. exports df p}"
    "set (frontier (seed_external df)) = visited (seed_external df)"
    by (simp_all add: seed_external_def exports_image)
qed

definition orphaned :: "'x RunningDataflow \<Rightarrow> mappings \<Rightarrow> NodeId set" where
  "orphaned df mp = (\<Union>(oid, rs)\<in>set mp. if map_of (running_nodes df) (fst oid) = None then opened df rs else {})"

lemma seed_search_eq:
  "blocked (seed_search df) = orphaned df (edge_mappings df)"
  "visited (seed_search df) = {p. exports df p} \<union> orphaned df (edge_mappings df)"
  "set (frontier (seed_search df)) = visited (seed_search df)"
proof -
  let ?f = "\<lambda>(oid, rs) s. (if map_of (running_nodes df) (fst oid) \<noteq> None then s else fold (block_receiver df) rs s)"
  have "blocked (fold ?f mp s) = blocked s \<union> orphaned df mp \<and> visited (fold ?f mp s) = visited s \<union> orphaned df mp \<and>
      (set (frontier s) = visited s \<longrightarrow> set (frontier (fold ?f mp s)) = visited (fold ?f mp s))" for mp :: mappings and s :: search
  proof (induction mp arbitrary: s)
    case (Cons e mp)
    obtain ns where "frontier (fold (block_receiver df) (snd e) s) = frontier s @ ns" "set ns = opened df (snd e) - visited s"
      using block_all(3) by blast
    then have "set (frontier s) = visited s \<Longrightarrow> set (frontier (?f e s)) = visited (?f e s)"
      by (auto simp: block_all(2) split: prod.split)
    moreover have "blocked (?f e s) = blocked s \<union> orphaned df [e]" "visited (?f e s) = visited s \<union> orphaned df [e]"
      by (auto simp: orphaned_def block_all(1,2) split: prod.split)
    moreover have "orphaned df (e # mp) = orphaned df [e] \<union> orphaned df mp" by (simp add: orphaned_def)
    ultimately show ?case using Cons.IH [of "?f e s"] by (simp add: Un_assoc)
  qed (simp add: orphaned_def)
  from this [of "edge_mappings df" "seed_external df"] show
    "blocked (seed_search df) = orphaned df (edge_mappings df)"
    "visited (seed_search df) = {p. exports df p} \<union> orphaned df (edge_mappings df)"
    "set (frontier (seed_search df)) = visited (seed_search df)"
    by (simp_all add: seed_search_def seed_external_eq)
qed

lemma orphaned_feeds: "orphaned df (edge_mappings df) = {r. \<exists>p. map_of (running_nodes df) p = None \<and> feeds df p r}"
  by (force simp: orphaned_def opened_def feeds_def receivers_from_def split: if_splits)

lemma search_inv_seed: "search_inv df (seed_search df)"
  unfolding search_inv_def seed_search_eq orphaned_feeds waits_for_remote_def by blast

lemma search_inv_round:
  assumes "search_inv df s" and "frontier s = p # q"
  shows "search_inv df (fold (block_receiver df) (receivers_from df p) (s\<lparr>frontier := q\<rparr>))"
proof -
  let ?s = "fold (block_receiver df) (receivers_from df p) (s\<lparr>frontier := q\<rparr>)"
  obtain ns where ns: "frontier ?s = q @ ns" "set ns = {r. feeds df p r} - visited s"
    using block_all(3) [of df "receivers_from df p" "s\<lparr>frontier := q\<rparr>"] by (auto simp: opened_feeds)
  have b: "blocked ?s = blocked s \<union> {r. feeds df p r}" and v: "visited ?s = visited s \<union> {r. feeds df p r}"
    by (simp_all add: block_all(1,2) opened_feeds)
  note inv = assms(1) [unfolded search_inv_def]
  have "p \<in> visited s" using inv assms(2) by auto
  then have "exports df p \<or> waits_for_remote df p" using inv by blast
  then have reach: "waits_for_remote df r" if "feeds df p r" for r
    using that unfolding waits_for_remote_def by (meson tranclp.r_into_trancl tranclp.trancl_into_trancl)
  show ?thesis
    unfolding search_inv_def
  proof (intro conjI)
    show "\<forall>r\<in>blocked ?s. waits_for_remote df r" using inv reach b by blast
    show "visited ?s = {p. exports df p} \<union> blocked ?s" using inv b v by blast
    show "\<forall>p r. map_of (running_nodes df) p = None \<longrightarrow> feeds df p r \<longrightarrow> r \<in> blocked ?s" using inv b by blast
    show "set (frontier ?s) \<subseteq> visited ?s" using inv ns v assms(2) by auto
    show "\<forall>m\<in>visited ?s. m \<in> set (frontier ?s) \<or> (\<forall>r. feeds df m r \<longrightarrow> r \<in> blocked ?s)"
    proof
      fix m assume "m \<in> visited ?s"
      then consider "m \<in> set ns" | "m = p" | "m \<in> visited s" "m \<noteq> p" using ns v by blast
      then show "m \<in> set (frontier ?s) \<or> (\<forall>r. feeds df m r \<longrightarrow> r \<in> blocked ?s)"
        using inv ns b assms(2) by cases auto
    qed
  qed
qed

lemma search_inv_drain: "search_inv df s \<Longrightarrow> search_inv df (drain_frontier df s) \<and> frontier (drain_frontier df s) = []"
proof (induction df s rule: drain_frontier.induct)
  case (1 df s)
  show ?case
  proof (cases "frontier s")
    case Nil
    with 1 show ?thesis by (simp add: drain_frontier.simps [of df s])
  next
    case (Cons p q)
    from 1(1) [OF Cons search_inv_round [OF 1(2) Cons]] Cons show ?thesis
      by (simp add: drain_frontier.simps [of df s])
  qed
qed

lemma blocked_iff: "r \<in> nodes_blocked_by_open_remote_edges df \<longleftrightarrow> waits_for_remote df r"
proof
  let ?s = "drain_frontier df (seed_search df)"
  have inv: "search_inv df ?s" and fin: "frontier ?s = []"
    using search_inv_drain [OF search_inv_seed] by blast+
  show "waits_for_remote df r" if "r \<in> nodes_blocked_by_open_remote_edges df"
    using that inv unfolding nodes_blocked_by_open_remote_edges_def search_inv_def by blast
  have step: "p \<in> blocked ?s \<or> exports df p \<or> map_of (running_nodes df) p = None \<Longrightarrow> feeds df p r \<Longrightarrow> r \<in> blocked ?s" for p r
    using inv fin unfolding search_inv_def by auto
  assume "waits_for_remote df r"
  then obtain p where root: "exports df p \<or> map_of (running_nodes df) p = None" and path: "(feeds df)\<^sup>+\<^sup>+ p r"
    unfolding waits_for_remote_def by blast
  from path have "r \<in> blocked ?s" by induction (use root step in blast)+
  then show "r \<in> nodes_blocked_by_open_remote_edges df" by (simp add: nodes_blocked_by_open_remote_edges_def)
qed

section \<open>Selection and escalation of stragglers\<close>

definition node_never_finishes :: "NodeId \<Rightarrow> 'x RunningDataflow \<Rightarrow> bool" where
  "node_never_finishes n df =
     (if \<not> timers_gate_drain df \<and> is_drained n df then False
      else (let is_source = \<not> has_data_input n df;
                has_timer = (\<exists>(d, rs)\<in>set (timers df). \<exists>(m, i)\<in>set rs. m = n);
                has_logs = (\<exists>sub\<in>set (log_subscribers df). sub_node sub = n)
            in is_source \<or> has_timer \<or> has_logs))"

record StragglerNode =
  straggler_id :: NodeId
  straggler_dynamic :: bool
  never_finishes :: bool
  straggler_connected :: bool
  drained_for :: "Duration option"
  silent_for :: Duration
  node_grace :: "Duration option"
  remote_output_open :: bool
  blocked_by_remote_output_chain :: bool

text \<open>The loop returns \<open>None\<close> where the source gives up with an empty result.\<close>

fun select_loop :: "Duration \<Rightarrow> StragglerNode list \<Rightarrow> NodeId list \<Rightarrow> NodeId list option" where
  "select_loop grace [] eligible = Some eligible"
| "select_loop grace (node # nodes) eligible =
     (if straggler_dynamic node then select_loop grace nodes eligible
      else if never_finishes node then None
      else (let effective_grace = (case node_grace node of Some d \<Rightarrow> d | None \<Rightarrow> grace);
                local_only = (\<not> remote_output_open node \<and> \<not> blocked_by_remote_output_chain node)
            in case drained_for node of
                 Some d \<Rightarrow>
                   select_loop grace nodes
                     (if effective_grace \<le> d \<and> local_only then eligible @ [straggler_id node] else eligible)
               | None \<Rightarrow>
                   if straggler_connected node \<and> effective_grace \<le> silent_for node
                   then select_loop grace nodes (if local_only then eligible @ [straggler_id node] else eligible)
                   else None))"

definition select_finish_stragglers :: "StragglerNode list \<Rightarrow> NodeId set \<Rightarrow> Duration \<Rightarrow> NodeId list" where
  "select_finish_stragglers nodes already_escalated grace =
     (case select_loop grace nodes [] of
        None \<Rightarrow> []
      | Some eligible \<Rightarrow> filter (\<lambda>n. n \<notin> already_escalated) eligible)"

definition straggler_view ::
  "nat \<Rightarrow> nat \<Rightarrow> NodeId set \<Rightarrow> 'x RunningDataflow \<Rightarrow> NodeId \<times> RunningNode \<Rightarrow> StragglerNode" where
  "straggler_view now now_millis remote_blocked df = (\<lambda>(n, node).
     \<lparr> straggler_id = n, straggler_dynamic = node_dynamic node,
       never_finishes = node_never_finishes n df, straggler_connected = n \<in> connected_nodes df,
       drained_for = map_option (\<lambda>since. now - since) (map_of (all_inputs_closed_at df) n),
       silent_for = (now_millis - last_activity node) * 10 ^ 6, node_grace = finish_grace_secs node,
       remote_output_open = (\<exists>oid\<in>set (open_external_mappings df). fst oid = n),
       blocked_by_remote_output_chain = n \<in> remote_blocked \<rparr>)"

definition finish_stragglers :: "Duration \<Rightarrow> nat \<Rightarrow> nat \<Rightarrow> 'x RunningDataflow \<Rightarrow> NodeId list" where
  "finish_stragglers grace now now_millis df =
     (if stop_sent df then []
      else (let remote_blocked = nodes_blocked_by_open_remote_edges df
            in select_finish_stragglers (map (straggler_view now now_millis remote_blocked df) (running_nodes df))
                 (finish_escalated df) grace))"

text \<open>The setting of \<open>DORA_FINISH_DRAIN_GRACE_SECS\<close> is an argument; stack samples are left out.\<close>

definition escalate :: "NodeId \<Rightarrow> 'x RunningDataflow \<Rightarrow> 'x RunningDataflow" where
  "escalate n df =
     (case stop_single_node n None df of
        Inl _ \<Rightarrow> df
      | Inr df \<Rightarrow> df\<lparr>finish_escalated := insert n (finish_escalated df)\<rparr>)"

definition check_finish_stragglers :: "string option \<Rightarrow> nat \<Rightarrow> nat \<Rightarrow> 'x RunningDataflow \<Rightarrow> 'x RunningDataflow" where
  "check_finish_stragglers setting now now_millis df =
     (case parse_finish_drain_grace setting of
        None \<Rightarrow> df
      | Some grace \<Rightarrow> fold escalate (finish_stragglers grace now now_millis df) df)"

subsection \<open>The selection\<close>

definition grace_of :: "Duration \<Rightarrow> RunningNode \<Rightarrow> Duration" where
  "grace_of grace node = (case finish_grace_secs node of Some d \<Rightarrow> d | None \<Rightarrow> grace)"

text \<open>Time since the inputs of a node closed; without it, since a connected node was last heard of.\<close>

definition quiet_for :: "nat \<Rightarrow> nat \<Rightarrow> 'x RunningDataflow \<Rightarrow> NodeId \<Rightarrow> RunningNode \<Rightarrow> Duration option" where
  "quiet_for now now_millis df n node =
     (case map_of (all_inputs_closed_at df) n of
        Some since \<Rightarrow> Some (now - since)
      | None \<Rightarrow> if n \<in> connected_nodes df then Some ((now_millis - last_activity node) * 10 ^ 6) else None)"

definition holds_up :: "Duration \<Rightarrow> nat \<Rightarrow> nat \<Rightarrow> 'x RunningDataflow \<Rightarrow> NodeId \<Rightarrow> RunningNode \<Rightarrow> bool" where
  "holds_up grace now now_millis df n node \<longleftrightarrow>
     (case quiet_for now now_millis df n node of None \<Rightarrow> False | Some d \<Rightarrow> grace_of grace node \<le> d)"

lemma select_loop_veto:
  "select_loop grace nodes acc = None \<longleftrightarrow>
     (\<exists>node\<in>set nodes. \<not> straggler_dynamic node \<and>
        (never_finishes node \<or>
         drained_for node = None \<and>
         \<not> (straggler_connected node \<and> (case node_grace node of Some d \<Rightarrow> d | None \<Rightarrow> grace) \<le> silent_for node)))"
  by (induction nodes arbitrary: acc) (auto simp: Let_def split: option.splits if_splits)

lemma select_loop_eligible:
  "select_loop grace nodes acc = Some out \<Longrightarrow>
   n \<in> set out \<longleftrightarrow> n \<in> set acc \<or> (\<exists>node\<in>set nodes. straggler_id node = n \<and> (\<not> straggler_dynamic node \<and>
     (case node_grace node of Some d \<Rightarrow> d | None \<Rightarrow> grace) \<le>
       (case drained_for node of Some d \<Rightarrow> d | None \<Rightarrow> silent_for node)) \<and>
     \<not> remote_output_open node \<and> \<not> blocked_by_remote_output_chain node)"
proof (induction nodes arbitrary: acc)
  case (Cons node nodes)
  then show ?case by (cases "drained_for node") (auto simp: Let_def split: if_splits)
qed simp

text \<open>Whether the view of one running node vetoes the escalation, and whether it is eligible otherwise.\<close>

definition vetoes :: "Duration \<Rightarrow> nat \<Rightarrow> nat \<Rightarrow> 'x RunningDataflow \<Rightarrow> NodeId \<times> RunningNode \<Rightarrow> bool" where
  "vetoes grace now now_millis df = (\<lambda>(m, node). \<not> node_dynamic node \<and>
     (node_never_finishes m df \<or> map_of (all_inputs_closed_at df) m = None \<and> \<not> holds_up grace now now_millis df m node))"

lemma view_vetoes:
  "\<not> straggler_dynamic (straggler_view now now_millis rb df x) \<and>
   (never_finishes (straggler_view now now_millis rb df x) \<or>
    drained_for (straggler_view now now_millis rb df x) = None \<and>
    \<not> (straggler_connected (straggler_view now now_millis rb df x) \<and>
       (case node_grace (straggler_view now now_millis rb df x) of Some d \<Rightarrow> d | None \<Rightarrow> grace)
         \<le> silent_for (straggler_view now now_millis rb df x))) \<longleftrightarrow>
   vetoes grace now now_millis df x"
  by (cases x) (auto simp: straggler_view_def vetoes_def holds_up_def quiet_for_def grace_of_def)

lemma view_eligible:
  "\<not> vetoes grace now now_millis df x \<Longrightarrow>
   (\<not> straggler_dynamic (straggler_view now now_millis rb df x) \<and>
    (case node_grace (straggler_view now now_millis rb df x) of Some d \<Rightarrow> d | None \<Rightarrow> grace) \<le>
      (case drained_for (straggler_view now now_millis rb df x) of
         Some d \<Rightarrow> d | None \<Rightarrow> silent_for (straggler_view now now_millis rb df x))) \<longleftrightarrow>
   (\<not> node_dynamic (snd x) \<and> holds_up grace now now_millis df (fst x) (snd x))"
  by (cases x) (auto simp: straggler_view_def vetoes_def holds_up_def quiet_for_def grace_of_def split: option.splits)

lemma view_chain:
  "straggler_id (straggler_view now now_millis rb df x) = fst x"
  "remote_output_open (straggler_view now now_millis rb df x) \<longleftrightarrow> exports df (fst x)"
  "blocked_by_remote_output_chain (straggler_view now now_millis rb df x) \<longleftrightarrow> fst x \<in> rb"
  by (cases x; force simp: straggler_view_def exports_def)+

lemma stragglers_iff:
  "n \<in> set (finish_stragglers grace now now_millis df) \<longleftrightarrow>
     \<not> stop_sent df \<and> (\<forall>x\<in>set (running_nodes df). \<not> vetoes grace now now_millis df x) \<and>
     (\<exists>x\<in>set (running_nodes df). fst x = n \<and> \<not> node_dynamic (snd x) \<and> holds_up grace now now_millis df (fst x) (snd x)) \<and>
     n \<notin> finish_escalated df \<and> \<not> exports df n \<and> \<not> waits_for_remote df n"
proof -
  let ?v = "straggler_view now now_millis (nodes_blocked_by_open_remote_edges df) df"
  have veto: "select_loop grace (map ?v (running_nodes df)) [] = None \<longleftrightarrow>
      (\<exists>x\<in>set (running_nodes df). vetoes grace now now_millis df x)"
    unfolding select_loop_veto set_map bex_simps view_vetoes ..
  show ?thesis
  proof (cases "select_loop grace (map ?v (running_nodes df)) []")
    case None
    then show ?thesis using veto by (simp add: finish_stragglers_def select_finish_stragglers_def Let_def)
  next
    case (Some out)
    then have nv: "\<forall>x\<in>set (running_nodes df). \<not> vetoes grace now now_millis df x" using veto by auto
    let ?elig = "\<lambda>node. \<not> straggler_dynamic node \<and>
        (case node_grace node of Some d \<Rightarrow> d | None \<Rightarrow> grace) \<le> (case drained_for node of Some d \<Rightarrow> d | None \<Rightarrow> silent_for node)"
    have "n \<in> set out \<longleftrightarrow> (\<exists>x\<in>set (running_nodes df). fst x = n \<and> ?elig (?v x) \<and> \<not> exports df (fst x) \<and>
        \<not> waits_for_remote df (fst x))"
      unfolding select_loop_eligible [OF Some] set_map bex_simps view_chain blocked_iff by simp
    also have "\<dots> \<longleftrightarrow> (\<exists>x\<in>set (running_nodes df). fst x = n \<and> (\<not> node_dynamic (snd x) \<and>
        holds_up grace now now_millis df (fst x) (snd x)) \<and> \<not> exports df (fst x) \<and> \<not> waits_for_remote df (fst x))"
      by (intro bex_cong refl arg_cong2 [where f = conj] view_eligible) (use nv in blast)
    finally have "n \<in> set out \<longleftrightarrow> (\<exists>x\<in>set (running_nodes df). fst x = n \<and> \<not> node_dynamic (snd x) \<and>
        holds_up grace now now_millis df (fst x) (snd x)) \<and> \<not> exports df n \<and> \<not> waits_for_remote df n" by blast
    then show ?thesis using nv Some by (auto simp: finish_stragglers_def select_finish_stragglers_def Let_def)
  qed
qed


definition drained_sink :: "unit RunningDataflow" where
  "drained_sink = one_node\<lparr>data_inputs := [(NodeId ''a'', {DataId ''in''})], all_inputs_closed_at := [(NodeId ''a'', 0)]\<rparr>"

lemma drained_sink_isolated: "\<not> exports drained_sink p" "\<not> (feeds drained_sink)\<^sup>+\<^sup>+ p r"
proof -
  have "\<not> feeds drained_sink p q" for p q
    by (simp add: feeds_def receivers_from_def drained_sink_def one_node_def new_dataflow_def)
  then show "\<not> (feeds drained_sink)\<^sup>+\<^sup>+ p r" by (meson tranclpD)
qed (simp add: exports_def drained_sink_def one_node_def new_dataflow_def)


subsection \<open>The escalation\<close>

lemma send_stop_kept [simp]:
  "running_nodes (send_stop n df) = running_nodes df" "kill_tasks (send_stop n df) = kill_tasks df"
  "pending_nodes (send_stop n df) = pending_nodes df" "finish_escalated (send_stop n df) = finish_escalated df"
  by (simp_all add: send_stop_def deliver_eq split: option.split)

lemma map_entry_None: "map_of xs k = None \<Longrightarrow> AList.map_entry k f xs = xs"
  by (induction xs) (auto split: if_splits)

text \<open>What one escalation does to the fields that matter later.\<close>

lemma escalate_effect:
  "pending_nodes (escalate m df) = pending_nodes df"
  "running_nodes (escalate m df) = AList.map_entry m (\<lambda>node. node\<lparr>disable_restart := True, process := None\<rparr>) (running_nodes df)"
  "map_of (running_nodes df) m = Some node \<Longrightarrow> finish_escalated (escalate m df) = insert m (finish_escalated df)"
  "finish_escalated df \<subseteq> finish_escalated (escalate m df)"
  "set (kill_tasks df) \<subseteq> set (kill_tasks (escalate m df))"
  "map_of (running_nodes df) m = Some node \<Longrightarrow> process node = Some h \<Longrightarrow>
   \<lparr> task_node = m, task_generation = generation node, task_process = h, task_grace = DEFAULT_STOP_GRACE \<rparr>
     \<in> set (kill_tasks (escalate m df))"
  by (auto simp: escalate_def stop_single_node_def send_stop_and_schedule_kill_def spawn_kill_task_def update_node_def Let_def
      map_entry_None split: option.splits)

lemma escalated_kept:
  fixes df :: "'x RunningDataflow"
  shows "pending_nodes (fold escalate ns df) = pending_nodes df"
    and "finish_escalated df \<subseteq> finish_escalated (fold escalate ns df)"
    and "set (kill_tasks df) \<subseteq> set (kill_tasks (fold escalate ns df))"
    and "restarts_off (running_nodes df) n \<Longrightarrow> restarts_off (running_nodes (fold escalate ns df)) n"
    and "n \<notin> set ns \<Longrightarrow> map_of (running_nodes (fold escalate ns df)) n = map_of (running_nodes df) n"
proof (induction ns arbitrary: df)
  case (Cons m ns)
  {
    case 1 show ?case using Cons.IH(1) by (simp add: escalate_effect)
  next
    case 2 show ?case using Cons.IH(2) [of "escalate m df"] escalate_effect(4) [of df m] by auto
  next
    case 3 show ?case using Cons.IH(3) [of "escalate m df"] escalate_effect(5) [of df m] by auto
  next
    case 4
    then have "restarts_off (running_nodes (escalate m df)) n"
      by (auto simp: restarts_off_def escalate_effect map_of_map_entry split: option.splits)
    then show ?case using Cons.IH(4) by simp
  next
    case 5 then show ?case using Cons.IH(5) [of "escalate m df"] by (simp add: escalate_effect map_of_map_entry)
  }
qed simp_all

text \<open>C33: A straggler is escalated once and for good: its process gets a task that kills it after the grace period, it may not
  restart, no later check selects it again, and if it then exits without success and no other node caused
  that, the exit is an error that blames the grace period.\<close>

theorem straggler_is_stopped_as_failure:
  assumes "parse_finish_drain_grace setting = Some grace"
    and "n \<in> set (finish_stragglers grace now now_millis df)"
    and "map_of (running_nodes df) n = Some node"
    and "check_finish_stragglers setting now now_millis df = df'"
  shows "(case process node of None \<Rightarrow> True | Some h \<Rightarrow>
        \<exists>t\<in>set (kill_tasks df'). task_process t = h \<and> task_node t = n \<and> task_generation t = generation node) \<and>
     might_restart n df' = False \<and>
     n \<notin> set (finish_stragglers grace' later later_millis df') \<and>
     (status \<noteq> Success \<and> error_caused_by (causes (pending_nodes df)) n = None \<longrightarrow>
       (\<exists>e. fst (exit_result ts n g status df') = Inl e \<and> cause e = GraceDuration))"
proof -
  let ?ns = "finish_stragglers grace now now_millis df"
  obtain xs ys where ns: "?ns = xs @ n # ys" "n \<notin> set xs" using assms(2) split_list_first by fast
  define df1 where "df1 = fold escalate xs df"
  have df': "df' = fold escalate ys (escalate n df1)"
    using assms(1,4) ns by (simp add: check_finish_stragglers_def df1_def)
  have node: "map_of (running_nodes df1) n = Some node"
    using escalated_kept(5) [OF ns(2), of df] assms(3) by (simp add: df1_def)
  have esc: "n \<in> finish_escalated df'"
    using escalate_effect(3) [OF node] escalated_kept(2) [of "escalate n df1" ys] df' by auto
  have "restarts_off (running_nodes (escalate n df1)) n"
    using node by (simp add: escalate_effect restarts_off_def map_of_map_entry)
  then have off: "restarts_off (running_nodes df') n" using escalated_kept(4) df' by blast
  have barrier: "pending_nodes df' = pending_nodes df" by (simp add: df' df1_def escalated_kept(1) escalate_effect(1))
  have "\<exists>t\<in>set (kill_tasks df'). task_process t = h \<and> task_node t = n \<and> task_generation t = generation node"
    if "process node = Some h" for h
    using escalate_effect(6) [OF node that] escalated_kept(3) [of "escalate n df1" ys] df' by force
  moreover have "\<exists>e. fst (exit_result ts n g status df') = Inl e \<and> cause e = GraceDuration"
    if failed: "status \<noteq> Success" and own: "error_caused_by (causes (pending_nodes df)) n = None"
  proof -
    have "\<not> planned_stop n g status df'" using esc by (simp add: planned_stop_def)
    then obtain e where "fst (exit_result ts n g status df') = Inl e"
      using exit_result_cases [of ts n g status df'] failed by (cases "fst (exit_result ts n g status df')") auto
    then show ?thesis
      using exit_result_cases [of ts n g status df'] error_cause_cases [where df = df' and n = n and g = g and status = status]
        esc own barrier by auto
  qed
  moreover have "might_restart n df' = False"
    using off by (auto simp: might_restart_def restarts_off_def split: option.splits RestartPolicy.splits)
  ultimately show ?thesis using esc by (simp add: stragglers_iff split: option.split)
qed

theorem straggler_is_stopped_as_failure_witness:
  "\<exists>t\<in>set (kill_tasks (check_finish_stragglers None (200 * 10 ^ 9) 0 drained_sink)). task_process t = 0"
proof -
  have sel: "NodeId ''a'' \<in> set (finish_stragglers DEFAULT_FINISH_DRAIN_GRACE (200 * 10 ^ 9) 0 drained_sink)"
    unfolding stragglers_iff
    by (simp add: drained_sink_isolated waits_for_remote_def)
      (simp add: drained_sink_def one_node_def fresh_node_def new_dataflow_def vetoes_def node_never_finishes_def has_data_input_def
        holds_up_def quiet_for_def grace_of_def DEFAULT_FINISH_DRAIN_GRACE_def)
  have setting: "parse_finish_drain_grace None = Some DEFAULT_FINISH_DRAIN_GRACE"
    by (simp add: parse_finish_drain_grace_def)
  have node: "map_of (running_nodes drained_sink) (NodeId ''a'') = Some (fresh_node 5)"
    by (simp add: drained_sink_def one_node_def)
  have "case process (fresh_node 5) of None \<Rightarrow> True | Some h \<Rightarrow>
      \<exists>t\<in>set (kill_tasks (check_finish_stragglers None (200 * 10 ^ 9) 0 drained_sink)). task_process t = h \<and>
        task_node t = NodeId ''a'' \<and> task_generation t = generation (fresh_node 5)"
    by (rule straggler_is_stopped_as_failure [OF setting sel node refl, THEN conjunct1])
  then show ?thesis by (auto simp: fresh_node_def)
qed

section \<open>Health of nodes\<close>

text \<open>The look of \<open>check_node_health\<close> at one node, and at all of them. The handle stays in place.\<close>

definition check_health_of :: "nat \<Rightarrow> NodeId \<times> RunningNode \<Rightarrow> 'x RunningDataflow \<Rightarrow> 'x RunningDataflow" where
  "check_health_of now_millis = (\<lambda>(n, node) df.
     (case process node of
        None \<Rightarrow> df
      | Some h \<Rightarrow>
          (let connected = (n \<in> connected_nodes df) in
           if \<not> connected then
             (case startup_timeout node of
                None \<Rightarrow> df
              | Some tmo \<Rightarrow>
                  if startup_timeout_should_kill connected (spawned_at node) now_millis tmo \<and> \<not> startup_kill_sent node
                  then snd (submit h Kill
                         ((update_node n (\<lambda>node. node\<lparr>startup_kill_sent := True\<rparr>) df)
                          \<lparr>ft_stats := (ft_stats df)\<lparr>startup_timeout_kills := startup_timeout_kills (ft_stats df) + 1\<rparr>,
                           startup_timeout_marks := insert (n, generation node) (startup_timeout_marks df)\<rparr>))
                  else df)
           else
             (case health_check_timeout node of
                None \<Rightarrow> df
              | Some tmo \<Rightarrow>
                  if health_check_should_kill connected (last_activity node) now_millis tmo
                  then snd (submit h Kill
                         (df\<lparr>ft_stats := (ft_stats df)\<lparr>health_check_kills := health_check_kills (ft_stats df) + 1\<rparr>\<rparr>))
                  else df))))"

definition check_node_health :: "nat \<Rightarrow> 'x RunningDataflow \<Rightarrow> 'x RunningDataflow" where
  "check_node_health now_millis df = fold (check_health_of now_millis) (running_nodes df) df"

text \<open>The processes that are overdue.\<close>

definition startup_overdue :: "nat \<Rightarrow> NodeId set \<Rightarrow> NodeId \<times> RunningNode \<Rightarrow> bool" where
  "startup_overdue now_millis connected = (\<lambda>(n, node). n \<notin> connected \<and> \<not> startup_kill_sent node \<and> spawned_at node \<noteq> 0 \<and>
     (case startup_timeout node of None \<Rightarrow> False | Some tmo \<Rightarrow> as_millis tmo < now_millis - spawned_at node))"

definition overdue :: "nat \<Rightarrow> NodeId set \<Rightarrow> NodeId \<times> RunningNode \<Rightarrow> bool" where
  "overdue now_millis connected = (\<lambda>(n, node). process node \<noteq> None \<and>
     (startup_overdue now_millis connected (n, node) \<or>
      n \<in> connected \<and>
      (case health_check_timeout node of None \<Rightarrow> False | Some tmo \<Rightarrow> as_millis tmo < now_millis - last_activity node)))"

lemma check_health_of_effect:
  "submitted (check_health_of ms x df) =
     submitted df @ (if overdue ms (connected_nodes df) x \<and> handle_open df (the (process (snd x))) then [(the (process (snd x)), Kill)] else [])"
  "connected_nodes (check_health_of ms x df) = connected_nodes df"
  "handle_open (check_health_of ms x df) = handle_open df"
  "running_nodes (check_health_of ms x df) =
     (if process (snd x) \<noteq> None \<and> startup_overdue ms (connected_nodes df) x
      then AList.map_entry (fst x) (\<lambda>node. node\<lparr>startup_kill_sent := True\<rparr>) (running_nodes df) else running_nodes df)"
  "startup_timeout_marks (check_health_of ms x df) =
     (if process (snd x) \<noteq> None \<and> startup_overdue ms (connected_nodes df) x
      then insert (fst x, generation (snd x)) (startup_timeout_marks df) else startup_timeout_marks df)"
  by (cases x; simp add: check_health_of_def submit_def update_node_def Let_def overdue_def startup_overdue_def
      startup_timeout_should_kill_def health_check_should_kill_def split: option.split)+

lemma health_fold:
  fixes df :: "'x RunningDataflow"
  shows "connected_nodes (fold (check_health_of ms) xs df) = connected_nodes df"
    and "submitted (fold (check_health_of ms) xs df) = submitted df @
       map (\<lambda>x. (the (process (snd x)), Kill))
         (filter (\<lambda>x. overdue ms (connected_nodes df) x \<and> handle_open df (the (process (snd x)))) xs)"
    and "startup_timeout_marks (fold (check_health_of ms) xs df) = startup_timeout_marks df \<union>
       {(n, generation node) |n node. (n, node) \<in> set xs \<and> process node \<noteq> None \<and> startup_overdue ms (connected_nodes df) (n, node)}"
    and "map_of (running_nodes (fold (check_health_of ms) xs df)) n =
       (if \<exists>node. (n, node) \<in> set xs \<and> process node \<noteq> None \<and> startup_overdue ms (connected_nodes df) (n, node)
        then map_option (\<lambda>node. node\<lparr>startup_kill_sent := True\<rparr>) (map_of (running_nodes df) n)
        else map_of (running_nodes df) n)"
proof (induction xs arbitrary: df)
  case (Cons x xs)
  {
    case 1 show ?case using Cons.IH(1) by (simp add: check_health_of_effect)
  next
    case 2 show ?case using Cons.IH(2) [of "check_health_of ms x df"] by (simp add: check_health_of_effect)
  next
    case 3 show ?case using Cons.IH(3) [of "check_health_of ms x df"]
      by (cases x) (auto simp: check_health_of_effect)
  next
    case 4 show ?case using Cons.IH(4) [of "check_health_of ms x df"]
      by (cases x; cases "map_of (running_nodes df) n") (auto simp: check_health_of_effect map_of_map_entry)
  }
qed simp_all

text \<open>C34: A health check kills exactly the processes that are overdue: those that did not connect within their startup
  timeout and those that connected and were then silent for longer than their health check timeout. A
  startup timeout is marked for the incarnation and kills it once: whatever the time of a later check,
  it finds no startup timeout of the same entry.\<close>

theorem health_check_exact:
  assumes "check_node_health now_millis df = df'"
  shows "submitted df' = submitted df @
       map (\<lambda>(n, node). (the (process node), Kill))
         (filter (\<lambda>(n, node). overdue now_millis (connected_nodes df) (n, node) \<and> handle_open df (the (process node)))
            (running_nodes df)) \<and>
     startup_timeout_marks df' = startup_timeout_marks df \<union>
       {(n, generation node) |n node. (n, node) \<in> set (running_nodes df) \<and> process node \<noteq> None \<and>
          startup_overdue now_millis (connected_nodes df) (n, node)} \<and>
     (\<forall>n node node'. (n, node) \<in> set (running_nodes df) \<and> process node \<noteq> None \<and>
        startup_overdue now_millis (connected_nodes df) (n, node) \<and> map_of (running_nodes df') n = Some node' \<longrightarrow>
        \<not> startup_overdue later (connected_nodes df') (n, node'))"
  using health_fold(2-4) [of now_millis "running_nodes df" df] assms
  by (auto simp: check_node_health_def case_prod_beta' startup_overdue_def)

theorem health_check_exact_witness:
  "submitted (check_node_health 9000 (one_node\<lparr>running_nodes := [(NodeId ''a'', (fresh_node 5)
     \<lparr>spawned_at := 1, startup_timeout := Some (10 ^ 9)\<rparr>)]\<rparr>)) = [(0, Kill)]"
  using health_check_exact [OF refl, of 9000 "one_node\<lparr>running_nodes := [(NodeId ''a'', (fresh_node 5)
     \<lparr>spawned_at := 1, startup_timeout := Some (10 ^ 9)\<rparr>)]\<rparr>"]
  by (simp add: one_node_def fresh_node_def new_dataflow_def overdue_def startup_overdue_def as_millis_def)

end
