(* ===== verification/Restart_Loop.thy ===== *)
theory Restart_Loop
  imports Finish_Watchdog
begin

text \<open>
  The task that waits for the exits of a node's process and restarts it: \<open>RestartConfig\<close>,
  \<open>restart_loop\<close> and \<open>send_terminal_exit\<close> of \<open>binaries/daemon/src/spawn/prepared.rs\<close>, together with the
  daemon, which handles the events of the task in order while it stops, restarts and watches
  nodes.

  A round of the loop is split where other tasks can run: at the exit it sends its verdict, and
  after the back-off it looks at \<open>disable_restart\<close> again and spawns the successor. What the operating
  system answers to a spawn is an argument. The back-off time only delays the second half and is left out;
  so are the log, the pid and the configuration of the process.
\<close>

section \<open>The loop\<close>

record RestartConfig =
  max_restarts :: "32 word"
  restart_window :: "Duration option"

record loop_state =
  lp_generation :: nat
  lp_process :: nat
  restart_count :: "32 word"
  window_start :: nat
  window_count :: "32 word"

datatype loop_event =
    NodeResult nat NodeExitStatus bool
  | HandleReplaced nat nat nat

datatype loop_phase = Awaiting | Announced NodeExitStatus | Ended

text \<open>\<open>spawn_inner\<close> can fail before and after the process exists.\<close>

datatype spawn_result = Spawned nat | NoProcess | SpawnFailed | FailedAfterSpawn

definition wants_restart :: "RestartPolicy \<Rightarrow> NodeExitStatus \<Rightarrow> bool \<Rightarrow> bool" where
  "wants_restart policy status force_restart \<longleftrightarrow>
     force_restart \<or>
     (case policy of Always \<Rightarrow> True | OnFailure \<Rightarrow> \<not> is_success status | Never \<Rightarrow> False)"

definition check_limits :: "RestartConfig \<Rightarrow> nat \<Rightarrow> loop_state \<Rightarrow> bool \<times> loop_state" where
  "check_limits cfg now st =
     (let st = (case restart_window cfg of
                  Some window \<Rightarrow>
                    if window < now - window_start st then st\<lparr>window_count := 0, window_start := now\<rparr> else st
                | None \<Rightarrow> st);
          st = st\<lparr>window_count := window_count st + 1\<rparr>
      in (\<not> (0 < max_restarts cfg \<and> max_restarts cfg < window_count st), st))"

definition loop_exit ::
  "RestartConfig \<Rightarrow> RestartPolicy \<Rightarrow> bool \<Rightarrow> bool \<Rightarrow> nat \<Rightarrow> NodeExitStatus \<Rightarrow> loop_state \<Rightarrow>
   loop_event \<times> loop_phase \<times> loop_state" where
  "loop_exit cfg policy force_restart disabled now status st =
     (case (if wants_restart policy status force_restart \<and> \<not> disabled then check_limits cfg now st else (False, st)) of
        (restart, st) \<Rightarrow>
          (NodeResult (lp_generation st) status restart, if restart then Announced status else Ended, st))"

definition send_terminal_exit :: "loop_state \<Rightarrow> NodeExitStatus \<Rightarrow> loop_event" where
  "send_terminal_exit st status = NodeResult (lp_generation st) status False"

definition loop_respawn ::
  "bool \<Rightarrow> nat \<Rightarrow> spawn_result \<Rightarrow> NodeExitStatus \<Rightarrow> loop_state \<Rightarrow> loop_event \<times> loop_phase \<times> loop_state" where
  "loop_respawn disabled new_generation result status st =
     (if disabled then (send_terminal_exit st status, Ended, st)
      else (let st = st\<lparr>restart_count := restart_count st + 1\<rparr> in
            case result of
              Spawned h \<Rightarrow>
                (HandleReplaced (lp_generation st) new_generation h, Awaiting,
                 st\<lparr>lp_generation := new_generation, lp_process := h\<rparr>)
            | NoProcess \<Rightarrow> (send_terminal_exit st status, Ended, st)
            | SpawnFailed \<Rightarrow> (send_terminal_exit st status, Ended, st)
            | FailedAfterSpawn \<Rightarrow> (send_terminal_exit st status, Ended, st)))"

section \<open>The loop beside the daemon\<close>

text \<open>The flags that the loop shares with the entry of its node, as the two halves of a round change them.\<close>

definition note_exit :: "NodeId \<Rightarrow> nat \<Rightarrow> 'x RunningDataflow \<Rightarrow> 'x RunningDataflow" where
  "note_exit n h df =
     (update_node n (\<lambda>node. node\<lparr>spawned_at := 0, startup_kill_sent := False, force_restart_next := False\<rparr>) df)
     \<lparr>handle_open := (handle_open df)(h := False)\<rparr>"

definition note_spawn :: "NodeId \<Rightarrow> nat \<Rightarrow> 'x RunningDataflow \<Rightarrow> 'x RunningDataflow" where
  "note_spawn n now_millis df =
     update_node n (\<lambda>node. node\<lparr>spawned_at := now_millis, startup_kill_sent := False, last_activity := now_millis\<rparr>) df"

definition note_respawn :: "NodeId \<Rightarrow> bool \<Rightarrow> nat \<Rightarrow> spawn_result \<Rightarrow> nat \<Rightarrow> 'x RunningDataflow \<Rightarrow> 'x RunningDataflow" where
  "note_respawn n disabled new_generation result now_millis df =
     (if disabled then df
      else (let df = (update_node n (\<lambda>node. node\<lparr>last_activity := now_millis, generation_counter := new_generation\<rparr>) df)
                       \<lparr>ft_stats := (ft_stats df)\<lparr>restarts := restarts (ft_stats df) + 1\<rparr>\<rparr>
            in case result of
                 Spawned h \<Rightarrow> (note_spawn n now_millis df)\<lparr>handle_open := (handle_open df)(h := True)\<rparr>
               | FailedAfterSpawn \<Rightarrow> note_spawn n now_millis df
               | _ \<Rightarrow> df))"

record 'x supervised =
  sv_df :: "'x RunningDataflow"
  sv_loop :: loop_state
  sv_phase :: loop_phase
  sv_events :: "loop_event list"
  sv_counter :: nat

text \<open>
  One step: the process of node \<open>n\<close> exits, the loop respawns it or gives up, the daemon handles the next event of
  the loop, or it does something else. An exit whose handling fails ends the daemon; there is no step for it.
\<close>

inductive supervise_step :: "RestartConfig \<Rightarrow> NodeId \<Rightarrow> 'x supervised \<Rightarrow> 'x supervised \<Rightarrow> bool"
  for cfg :: RestartConfig and n :: NodeId where
  exits:
  "sv_phase s = Awaiting \<Longrightarrow> map_of (running_nodes (sv_df s)) n = Some node \<Longrightarrow>
   loop_exit cfg (restart_policy node) (force_restart_next node) (disable_restart node) now status (sv_loop s) = (e, ph, st) \<Longrightarrow>
   supervise_step cfg n s
     (s\<lparr>sv_df := note_exit n (lp_process (sv_loop s)) (sv_df s), sv_loop := st, sv_phase := ph, sv_events := sv_events s @ [e]\<rparr>)"
| respawns:
  "sv_phase s = Announced status \<Longrightarrow> map_of (running_nodes (sv_df s)) n = Some node \<Longrightarrow>
   next_node_generation (sv_counter s) = Some (g, k) \<Longrightarrow>
   loop_respawn (disable_restart node) g result status (sv_loop s) = (e, ph, st) \<Longrightarrow>
   supervise_step cfg n s
     (s\<lparr>sv_df := note_respawn n (disable_restart node) g result now_millis (sv_df s), sv_loop := st, sv_phase := ph,
        sv_events := sv_events s @ [e], sv_counter := k\<rparr>)"
| handles_exit:
  "sv_events s = NodeResult g status restart # es \<Longrightarrow>
   handle_spawned_node_result (ts :: 'x) n g status restart link now (sv_df s) = (res, df) \<Longrightarrow>
   (\<forall>r e. res \<noteq> Stopped r (Inl e)) \<Longrightarrow>
   supervise_step cfg n s (s\<lparr>sv_df := df, sv_events := es\<rparr>)"
| handles_replacement:
  "sv_events s = HandleReplaced previous new h # es \<Longrightarrow>
   supervise_step cfg n s (s\<lparr>sv_df := handle_process_replaced n previous new h (sv_df s), sv_events := es\<rparr>)"
| other_exit:
  "m \<noteq> n \<Longrightarrow>
   supervise_step cfg n s
     (s\<lparr>sv_df := snd (handle_spawned_node_result (ts :: 'x) m g status restart link now (sv_df s))\<rparr>)"
| other_replacement:
  "m \<noteq> n \<Longrightarrow> supervise_step cfg n s (s\<lparr>sv_df := handle_process_replaced m previous new h (sv_df s)\<rparr>)"
| stops: "stop_single_node m grace (sv_df s) = Inr df \<Longrightarrow> supervise_step cfg n s (s\<lparr>sv_df := df\<rparr>)"
| restarts_node: "restart_single_node m grace (sv_df s) = Inr df \<Longrightarrow> supervise_step cfg n s (s\<lparr>sv_df := df\<rparr>)"
| stops_all: "supervise_step cfg n s (s\<lparr>sv_df := snd (stop_all link grace force (sv_df s))\<rparr>)"
| closes_outputs: "supervise_step cfg n s (s\<lparr>sv_df := snd (handle_close_outputs m outputs now (sv_df s))\<rparr>)"
| checks_stragglers:
  "supervise_step cfg n s (s\<lparr>sv_df := check_finish_stragglers setting now now_millis (sv_df s)\<rparr>)"
| checks_health: "supervise_step cfg n s (s\<lparr>sv_df := check_node_health now_millis (sv_df s)\<rparr>)"

section \<open>Restart debts are settled\<close>

text \<open>What an event of the loop does to the generation of the entry once the daemon handles it.\<close>

fun settle :: "loop_event \<Rightarrow> nat option \<Rightarrow> nat option" where
  "settle (NodeResult g status restart) e = (if e = Some g \<and> \<not> restart then None else e)"
| "settle (HandleReplaced previous new h) e = (if e = Some previous then Some new else e)"

definition supervised_inv :: "NodeId \<Rightarrow> 'x supervised \<Rightarrow> bool" where
  "supervised_inv n s \<longleftrightarrow>
     (let e = map_option fst (gens (sv_df s) n); g = lp_generation (sv_loop s) in
      if sv_phase s = Ended then fold settle (sv_events s) e = None
      else fold settle (sv_events s) e = Some g \<and> map_option snd (gens (sv_df s) n) = Some g)"

lemma settle_None [simp]: "settle ev None = None"
  by (cases ev) simp_all

lemma settle_gone [simp]: "fold settle es None = None"
  by (induction es) simp_all

lemma supervised_frame:
  "supervised_inv n s \<Longrightarrow> gens df n = gens (sv_df s) n \<Longrightarrow> supervised_inv n (s\<lparr>sv_df := df\<rparr>)"
  by (simp add: supervised_inv_def Let_def split: if_splits)

lemma gens_stop_single: "stop_single_node m grace df = Inr df' \<Longrightarrow> gens df' n = gens df n"
  by (auto simp: stop_single_node_def update_node_def gens_map_entry split: option.splits) (auto simp: gens_of_def)

lemma gens_restart_single: "restart_single_node m grace df = Inr df' \<Longrightarrow> gens df' n = gens df n"
  by (auto simp: restart_single_node_def update_node_def gens_map_entry split: option.splits if_splits)
    (auto simp: gens_of_def)

lemma gens_escalate [simp]: "gens (fold escalate ns df) n = gens df n"
  by (induction ns arbitrary: df) (simp_all add: escalate_effect gens_map_entry, auto simp: gens_of_def)

lemma gens_check_stragglers: "gens (check_finish_stragglers setting now now_millis df) n = gens df n"
  by (simp add: check_finish_stragglers_def split: option.split)

lemma gens_check_health: "gens (check_node_health now_millis df) n = gens df n"
  using health_fold(4) [of now_millis "running_nodes df" df n]
  by (cases "map_of (running_nodes df) n") (auto simp: check_node_health_def gens_of_def)

lemma gens_replaced:
  "gens (handle_process_replaced m previous new h df) n =
     (if n = m \<and> map_option fst (gens df n) = Some previous then map_option (\<lambda>(e, c). (new, c)) (gens df n) else gens df n)"
  by (cases "map_of (running_nodes df) m")
    (auto simp: handle_process_replaced_def replace_process_handle_def matches_generation_def update_node_def gens_of_def
      map_of_map_entry)

text \<open>The three outcomes of an exit, and what they leave of the generations.\<close>

lemma exit_outcomes:
  assumes "handle_spawned_node_result ts m g status restart link now df = (res, df')"
  obtains (stale) "map_option fst (gens df m) \<noteq> Some g" "running_nodes df' = running_nodes df"
  | (restarting) "map_option fst (gens df m) = Some g" restart "running_nodes df' = running_nodes df"
  | (ended) r where "map_option fst (gens df m) = Some g" "\<not> restart" "res = Stopped (fst (exit_result ts m g status df)) r"
proof (cases "map_option fst (gens df m) = Some g")
  case False
  then have "\<not> (case map_of (running_nodes df) m of None \<Rightarrow> False | Some node \<Rightarrow> matches_generation node g)"
    by (auto simp: gens_of_def matches_generation_def split: option.splits)
  with assms have "running_nodes df' = running_nodes df" by (auto simp: handle_spawned_node_result_def)
  with False show thesis by (rule stale)
next
  case True
  then have match: "case map_of (running_nodes df) m of None \<Rightarrow> False | Some node \<Rightarrow> matches_generation node g"
    by (auto simp: gens_of_def matches_generation_def split: option.splits)
  show thesis
  proof (cases restart)
    case True': True
    let ?df = "reset_incarnation_state m g (snd (exit_result ts m g status df))"
    have "df' = snd (fold (notify_restarted m) (downstream_of m (edge_mappings ?df)) ([], ?df))"
      using assms match True' by (auto simp: handle_spawned_node_result_def Let_def split_beta)
    then have "running_nodes df' = running_nodes df" by (simp add: running_notify)
    with True True' show thesis by (rule restarting)
  next
    case False
    have "\<exists>r. res = Stopped (fst (exit_result ts m g status df)) r"
      using assms match False by (auto simp: handle_spawned_node_result_def Let_def split_beta)
    with True False show thesis using ended by blast
  qed
qed

lemma gens_ended:
  assumes "handle_spawned_node_result ts m g status restart link now df = (Stopped res r, df')"
  shows "n \<noteq> m \<Longrightarrow> gens df' n = gens df n" and "r = Inr x \<Longrightarrow> gens df' m = None"
proof -
  obtain df1 where same: "running_nodes df1 = running_nodes df"
    and stop: "handle_node_stop_inner m (res = Inr ()) link now df1 = (r, df')"
    by (rule stopped_cases [OF assms]) blast
  show "gens df' n = gens df n" if "n \<noteq> m"
    using gens_node_stop [of m "res = Inr ()" link now df1 n] that stop same by simp
  show "gens df' m = None" if "r = Inr x"
    using node_stop_report(1) [of m "res = Inr ()" link now df1 _ _ _ df'] stop that
    by (cases x) (simp add: gens_of_def)
qed

lemma gens_handled_exit:
  assumes "handle_spawned_node_result ts n g status restart link now df = (res, df')" and "\<forall>r e. res \<noteq> Stopped r (Inl e)"
  shows "gens df' n = (if map_option fst (gens df n) = Some g \<and> \<not> restart then None else gens df n)"
proof (rule exit_outcomes [OF assms(1)])
  fix r assume "map_option fst (gens df n) = Some g" "\<not> restart" "res = Stopped (fst (exit_result ts n g status df)) r"
  with assms show ?thesis using gens_ended(2) [of ts n g status restart link now df] by (cases r) auto
qed auto

lemma gens_other_exit:
  assumes "m \<noteq> n"
  shows "gens (snd (handle_spawned_node_result ts m g status restart link now df)) n = gens df n"
proof -
  obtain res df' where run: "handle_spawned_node_result ts m g status restart link now df = (res, df')" by fastforce
  show ?thesis
  proof (rule exit_outcomes [OF run])
    fix r assume "res = Stopped (fst (exit_result ts m g status df)) r"
    with gens_ended(1) [of ts m g status restart link now df] assms run show ?thesis by auto
  qed (use run in auto)
qed

lemma gens_close_outputs: "gens (snd (handle_close_outputs m outputs now df)) = gens df"
  by (simp add: handle_close_outputs_def)

lemma supervised_step: "supervise_step cfg n s s' \<Longrightarrow> supervised_inv n s \<Longrightarrow> supervised_inv n s'"
proof (induction rule: supervise_step.induct)
  case (exits s node now status e ph st)
  have "gens (note_exit n h (sv_df s)) n = gens (sv_df s) n" for h
    by (simp add: note_exit_def update_node_def gens_map_entry) (simp add: gens_of_def)
  moreover have "lp_generation (snd (check_limits cfg now (sv_loop s))) = lp_generation (sv_loop s)"
    by (simp add: check_limits_def Let_def split: option.split)
  ultimately show ?case using exits
    by (auto simp: supervised_inv_def loop_exit_def Let_def split: prod.splits if_splits)
next
  case (respawns s status node g k result e ph st now_millis)
  have "gens (note_respawn n (disable_restart node) g result now_millis (sv_df s)) n =
      (if disable_restart node then gens (sv_df s) n else Some (generation node, g))"
    using respawns(2)
    by (simp add: note_respawn_def note_spawn_def update_node_def Let_def gens_of_def map_of_map_entry split: spawn_result.split)
  with respawns show ?case
    by (auto simp: supervised_inv_def loop_respawn_def send_terminal_exit_def Let_def gens_of_def
        split: prod.splits if_splits spawn_result.splits)
next
  case (handles_exit s g status restart es ts link now res df)
  from gens_handled_exit [OF handles_exit(2,3)] handles_exit(1,4) show ?case
    by (auto simp: supervised_inv_def Let_def split: if_splits)
next
  case (handles_replacement s previous new h es)
  then show ?case
    by (cases "gens (sv_df s) n") (auto simp: supervised_inv_def Let_def gens_replaced split: if_splits)
next
  case (other_exit m s ts g status restart link now)
  then show ?case by (intro supervised_frame) (simp_all add: gens_other_exit)
next
  case (other_replacement m s previous new h)
  then show ?case by (intro supervised_frame) (simp_all add: gens_replaced)
qed (simp_all add: supervised_frame gens_stop_single gens_restart_single gens_stop_all gens_close_outputs
    gens_check_stragglers gens_check_health)



section \<open>Restarts are bounded\<close>

text \<open>The verdicts of the limit check on exits at the given times.\<close>

fun verdicts :: "RestartConfig \<Rightarrow> nat list \<Rightarrow> loop_state \<Rightarrow> bool list" where
  "verdicts cfg [] st = []"
| "verdicts cfg (now # later) st =
     (case check_limits cfg now st of (restart, st) \<Rightarrow> restart # verdicts cfg later st)"

definition in_window :: "RestartConfig \<Rightarrow> nat \<Rightarrow> nat \<Rightarrow> bool" where
  "in_window cfg since now = (case restart_window cfg of None \<Rightarrow> True | Some window \<Rightarrow> now - since \<le> window)"

lemma verdicts_in_window:
  assumes "list_all (in_window cfg (window_start st)) ts"
    and "unat (window_count st) + length ts < 2 ^ 32" and "0 < max_restarts cfg"
  shows "verdicts cfg ts st = map (\<lambda>i. unat (window_count st) + i < unat (max_restarts cfg)) [0..<length ts]"
  using assms
proof (induction ts arbitrary: st)
  case (Cons now later)
  let ?st = "st\<lparr>window_count := window_count st + 1\<rparr>"
  have c: "unat (window_count st + 1) = unat (window_count st) + 1"
    using Cons.prems(2) by (simp add: unat_word_ariths(1))
  have "check_limits cfg now st = (unat (window_count st) < unat (max_restarts cfg), ?st)"
    using Cons.prems(1,3) c
    by (auto simp: check_limits_def Let_def in_window_def word_less_nat_alt split: option.splits)
  moreover have "verdicts cfg later ?st = map (\<lambda>i. unat (window_count st) + Suc i < unat (max_restarts cfg)) [0..<length later]"
    using Cons.IH [of ?st] Cons.prems c by simp
  ultimately show ?case
    by (simp add: upt_conv_Cons map_Suc_upt [symmetric] del: upt_Suc)
qed simp



end
