(* ===== verification/Type_System.thy ===== *)
theory Type_System
  imports Dora_Prelude "HOL-Library.List_Lexorder" "HOL-Library.Char_ord"
begin

text \<open>
  The types of inputs and outputs: \<open>libraries/core/src/types.rs\<close>. Type names (\<open>parse_urn\<close>,
  \<open>types_match\<close>, \<open>urn_short_name\<close>), implicit conversions (\<open>CompatibilityGraph\<close>), the registry with the
  resolution of field types to Arrow types, the compatibility of schemas.

  Of the Arrow library the model has the types that the source builds. The built-in packages are YAML files
  that are parsed when a registry is created; a registry is an argument here. Reading user types from a
  directory and the suggestion of similar names are left out.
\<close>

section \<open>Type names\<close>

record ParsedUrn =
  base :: string
  urn_params :: "(string \<times> string) list"

fun parse_params :: "string list \<Rightarrow> (string \<times> string) list \<Rightarrow> (string \<times> string) list option" where
  "parse_params [] params = Some params"
| "parse_params (part # parts) params =
     (case split_once (CHR ''='') (str_trim part) of
        None \<Rightarrow> None
      | Some (k, v) \<Rightarrow>
          if str_trim k = [] \<or> str_trim v = [] then None
          else parse_params parts (bm_insert (str_trim k) (str_trim v) params))"

definition parse_urn :: "string \<Rightarrow> ParsedUrn option" where
  "parse_urn urn =
     (if urn = [] then None
      else (case split_once (CHR ''['') urn of
              None \<Rightarrow> Some \<lparr> base = urn, urn_params = [] \<rparr>
            | Some (b, rest) \<Rightarrow>
                if last urn \<noteq> CHR '']'' then None
                else if b = [] then None
                else if butlast rest = [] then None
                else map_option (\<lambda>ps. \<lparr> base = b, urn_params = ps \<rparr>)
                       (parse_params (str_split (CHR '','') (butlast rest)) [])))"

definition params_agree :: "(string \<times> string) list \<Rightarrow> (string \<times> string) list \<Rightarrow> bool" where
  "params_agree a b \<longleftrightarrow>
     a = [] \<or> b = [] \<or>
     list_all (\<lambda>(k, va). (case map_of b k of None \<Rightarrow> True | Some vb \<Rightarrow> vb = va)) a"

definition types_match :: "string \<Rightarrow> string \<Rightarrow> bool" where
  "types_match a b =
     (case parse_urn a of
        None \<Rightarrow> a = b
      | Some pa \<Rightarrow>
          (case parse_urn b of
             None \<Rightarrow> a = b
           | Some pb \<Rightarrow> base pa = base pb \<and> params_agree (urn_params pa) (urn_params pb)))"

definition urn_short_name :: "string \<Rightarrow> string" where
  "urn_short_name urn = last (str_split (CHR ''/'') (hd (str_split (CHR ''['') urn)))"

section \<open>Implicit conversions\<close>

record TypeRule =
  rule_from :: string
  rule_to :: string

type_synonym CompatibilityGraph = "(string \<times> string list) list"

definition builtins :: "(string \<times> string) list" where
  "builtins =
     [(''std/core/v1/UInt8'', ''std/core/v1/UInt32''), (''std/core/v1/UInt32'', ''std/core/v1/UInt64''),
      (''std/core/v1/Int32'', ''std/core/v1/Int64''), (''std/core/v1/Float32'', ''std/core/v1/Float64'')]"

definition compatibility_graph :: "TypeRule list \<Rightarrow> CompatibilityGraph" where
  "compatibility_graph user_rules =
     fold (\<lambda>rule. bm_entry (rule_from rule) [] (\<lambda>tos. tos @ [rule_to rule])) user_rules
       (fold (\<lambda>(a, b). bm_entry a [] (\<lambda>tos. tos @ [b])) builtins [])"

definition neighbors :: "CompatibilityGraph \<Rightarrow> string \<Rightarrow> string list" where
  "neighbors edges current = (case map_of edges current of None \<Rightarrow> [] | Some ns \<Rightarrow> ns)"

definition base_of :: "string \<Rightarrow> string" where
  "base_of urn = (case parse_urn urn of None \<Rightarrow> urn | Some p \<Rightarrow> base p)"

text \<open>The visit of the neighbours of one type; \<open>None\<close> when the target is among them.\<close>

fun visit_neighbors ::
  "string \<Rightarrow> nat \<Rightarrow> string list \<Rightarrow> (string \<times> nat) list \<times> string set \<Rightarrow> ((string \<times> nat) list \<times> string set) option" where
  "visit_neighbors to_base depth [] s = Some s"
| "visit_neighbors to_base depth (nxt # ns) (queue, visited) =
     (if nxt = to_base then None
      else visit_neighbors to_base depth ns
             (if nxt \<in> visited then (queue, visited)
              else (queue @ [(nxt, depth + 1)], insert nxt visited)))"

definition graph_types :: "CompatibilityGraph \<Rightarrow> string set" where
  "graph_types edges = set (concat (map snd edges))"

lemma visit_neighbors_found: "visit_neighbors t d ns s = None \<longleftrightarrow> t \<in> set ns"
  by (induction t d ns s rule: visit_neighbors.induct) auto

lemma visit_neighbors_new:
  "visit_neighbors t d ns (queue, visited) = Some (queue', visited') \<Longrightarrow>
   \<exists>new. queue' = queue @ map (\<lambda>n. (n, d + 1)) new \<and> visited' = visited \<union> set new \<and>
         set new = set ns - visited \<and> distinct new"
proof (induction t d ns "(queue, visited)" arbitrary: queue visited rule: visit_neighbors.induct)
  case (2 t d nxt ns queue visited)
  show ?case
  proof (cases "nxt \<in> visited")
    case True
    with 2 show ?thesis by (auto split: if_splits)
  next
    case False
    with 2 obtain new where "queue' = (queue @ [(nxt, d + 1)]) @ map (\<lambda>n. (n, d + 1)) new"
      "visited' = insert nxt visited \<union> set new" "set new = set ns - insert nxt visited" "distinct new"
      by (auto split: if_splits)
    with False show ?thesis by (intro exI [of _ "nxt # new"]) auto
  qed
qed simp

lemma neighbors_types: "set (neighbors edges v) \<subseteq> graph_types edges"
  by (cases "map_of edges v") (auto simp: neighbors_def graph_types_def dest!: map_of_SomeD)

text \<open>The breadth-first search; a type enters the queue at most once.\<close>

function compat_search :: "CompatibilityGraph \<Rightarrow> string \<Rightarrow> (string \<times> nat) list \<times> string set \<Rightarrow> bool" where
  "compat_search edges to_base ([], visited) = False"
| "compat_search edges to_base ((current, depth) # queue, visited) =
     (if 3 \<le> depth then compat_search edges to_base (queue, visited)
      else (case visit_neighbors to_base depth (neighbors edges current) (queue, visited) of
              None \<Rightarrow> True
            | Some s \<Rightarrow> compat_search edges to_base s))"
  by pat_completeness auto
termination
proof (relation "inv_image (less_than <*lex*> less_than)
    (\<lambda>(edges, t, queue, visited). (card (graph_types edges - visited), length queue))", goal_cases)
  case (3 edges t current depth queue visited s)
  obtain queue' visited' where s: "s = (queue', visited')" by fastforce
  from visit_neighbors_new [OF 3(2) [unfolded s]] obtain new where
    new: "queue' = queue @ map (\<lambda>n. (n, depth + 1)) new" "visited' = visited \<union> set new"
      "set new = set (neighbors edges current) - visited" by blast
  show ?case
  proof (cases new)
    case Nil
    with new s show ?thesis by simp
  next
    case (Cons n ns)
    then have "graph_types edges - visited' \<subset> graph_types edges - visited"
      using new neighbors_types [of edges current] by auto
    then have "card (graph_types edges - visited') < card (graph_types edges - visited)"
      by (intro psubset_card_mono) (simp_all add: graph_types_def)
    with s show ?thesis by simp
  qed
qed auto

definition is_compatible :: "CompatibilityGraph \<Rightarrow> string \<Rightarrow> string \<Rightarrow> bool" where
  "is_compatible edges a b =
     (if b = ''std/core/v1/Bytes'' then True
      else if base_of a = base_of b then
        (case (parse_urn a, parse_urn b) of
           (Some fp, Some tp) \<Rightarrow> params_agree (urn_params fp) (urn_params tp)
         | _ \<Rightarrow> True)
      else compat_search edges (base_of b) ([(base_of a, 0)], {base_of a}))"

subsection \<open>The search finds exactly the short chains\<close>

abbreviation converts :: "CompatibilityGraph \<Rightarrow> string \<Rightarrow> string \<Rightarrow> bool" where
  "converts edges a b \<equiv> b \<in> set (neighbors edges a)"

text \<open>\<open>depth_of\<close> is the depth at which a type was first seen.\<close>

definition search_ok ::
  "CompatibilityGraph \<Rightarrow> string \<Rightarrow> string \<Rightarrow> (string \<Rightarrow> nat) \<Rightarrow> (string \<times> nat) list \<Rightarrow> string set \<Rightarrow> bool" where
  "search_ok edges a t depth_of queue visited \<longleftrightarrow>
     a \<in> visited \<and> depth_of a = 0 \<and> (\<forall>v\<in>visited. (converts edges ^^ depth_of v) a v) \<and>
     (\<forall>(v, d)\<in>set queue. v \<in> visited \<and> depth_of v = d \<and> (\<forall>u\<in>visited. depth_of u \<le> d + 1)) \<and>
     sorted (map snd queue) \<and> distinct (map fst queue) \<and>
     (\<forall>v\<in>visited. v \<notin> fst ` set queue \<and> depth_of v < 3 \<longrightarrow>
        (\<forall>w. converts edges v w \<longrightarrow> w \<in> visited \<and> depth_of w \<le> depth_of v + 1 \<and> w \<noteq> t))"

lemma search_ok_skip:
  "search_ok edges a t dp ((v, d) # queue) visited \<Longrightarrow> 3 \<le> d \<Longrightarrow> search_ok edges a t dp queue visited"
  unfolding search_ok_def
proof (elim conjE, intro conjI, goal_cases)
  case 7
  show ?case
  proof (intro ballI impI)
    fix w assume "w \<in> visited" "w \<notin> fst ` set queue \<and> dp w < 3"
    moreover have "w \<noteq> v" using 7(1,5) \<open>w \<notin> fst ` set queue \<and> dp w < 3\<close> by auto
    ultimately show "\<forall>x. converts edges w x \<longrightarrow> x \<in> visited \<and> dp x \<le> dp w + 1 \<and> x \<noteq> t" using 7(8) by simp
  qed
qed simp_all

lemma search_ok_visit:
  assumes ok: "search_ok edges a t dp ((v, d) # queue) visited" and "\<not> 3 \<le> d"
    and vis: "visit_neighbors t d (neighbors edges v) (queue, visited) = Some (queue', visited')"
  shows "\<exists>dp'. search_ok edges a t dp' queue' visited'"
proof -
  obtain new where new: "queue' = queue @ map (\<lambda>n. (n, d + 1)) new" "visited' = visited \<union> set new"
    "set new = set (neighbors edges v) - visited" "distinct new"
    using visit_neighbors_new [OF vis] by blast
  have t: "t \<notin> set (neighbors edges v)" using vis visit_neighbors_found [of t d "neighbors edges v" "(queue, visited)"] by simp
  define dp' where "dp' = (\<lambda>w. if w \<in> set new then d + 1 else dp w)"
  have old: "dp' w = dp w" if "w \<in> visited" for w using that new(3) by (simp add: dp'_def)
  have v: "v \<in> visited" "dp v = d" "\<forall>u\<in>visited. dp u \<le> d + 1" "\<forall>w\<in>visited. (converts edges ^^ dp w) a w"
    "sorted (d # map snd queue)" "a \<in> visited" "dp a = 0" "distinct (v # map fst queue)"
    "\<forall>(w, e)\<in>set queue. w \<in> visited \<and> dp w = e"
    "\<forall>w\<in>visited. w \<notin> insert v (fst ` set queue) \<and> dp w < 3 \<longrightarrow>
        (\<forall>x. converts edges w x \<longrightarrow> x \<in> visited \<and> dp x \<le> dp w + 1 \<and> x \<noteq> t)"
    using ok unfolding search_ok_def by auto
  have le: "e \<le> d + 1" "d \<le> e" if "(w, e) \<in> set queue" for w e using v(3,5,9) that by force+
  have bound: "dp' u \<le> d + 1" if "u \<in> visited'" for u using that v(3) new(2) old by (auto simp: dp'_def)
  have "search_ok edges a t dp' queue' visited'"
    unfolding search_ok_def
  proof (intro conjI)
    show "a \<in> visited'" using v(6) new(2) by simp
    show "dp' a = 0" using v(6,7) old by simp
    have "(converts edges ^^ Suc d) a w" if "w \<in> set new" for w
      using that new(3) v(1,2,4) by (auto intro: relcomppI)
    then show "\<forall>w\<in>visited'. (converts edges ^^ dp' w) a w" using v(4) new(2) old by (auto simp: dp'_def)
    show "\<forall>(w, e)\<in>set queue'. w \<in> visited' \<and> dp' w = e \<and> (\<forall>u\<in>visited'. dp' u \<le> e + 1)"
    proof clarify
      fix w e assume "(w, e) \<in> set queue'"
      then consider "(w, e) \<in> set queue" | "w \<in> set new" "e = d + 1" using new(1) by auto
      then show "w \<in> visited' \<and> dp' w = e \<and> (\<forall>u\<in>visited'. dp' u \<le> e + 1)"
      proof cases
        case 1
        then have "w \<in> visited" "dp w = e" using v(9) by auto
        moreover have "dp' u \<le> e + 1" if "u \<in> visited'" for u using bound [OF that] le(2) [OF 1] by simp
        ultimately show ?thesis using new(2) old by simp
      next
        case 2
        moreover have "dp' u \<le> e + 1" if "u \<in> visited'" for u using bound [OF that] 2(2) by simp
        ultimately show ?thesis using new(2) by (simp add: dp'_def)
      qed
    qed
    show "sorted (map snd queue')" using v(5) le new(1) by (auto simp: sorted_append comp_def map_replicate_const)
    show "distinct (map fst queue')" using v(8,9) new by (auto simp: comp_def)
    show "\<forall>w\<in>visited'. w \<notin> fst ` set queue' \<and> dp' w < 3 \<longrightarrow>
        (\<forall>x. converts edges w x \<longrightarrow> x \<in> visited' \<and> dp' x \<le> dp' w + 1 \<and> x \<noteq> t)"
    proof clarify
      fix w x assume w: "w \<in> visited'" "w \<notin> fst ` set queue'" "dp' w < 3" "converts edges w x"
      then have w': "w \<in> visited" "w \<notin> fst ` set queue" using new(1,2) by (auto simp: image_Un image_image)
      show "x \<in> visited' \<and> dp' x \<le> dp' w + 1 \<and> x \<noteq> t"
      proof (cases "w = v")
        case True
        then show ?thesis using w w' t bound new(2,3) v(2) old by auto
      next
        case False
        then show ?thesis using w w' v(10) old new(2) by auto
      qed
    qed
  qed
  then show ?thesis by blast
qed

lemma search_closed:
  assumes "search_ok edges a t dp [] visited" and "(converts edges ^^ k) a v" and "k \<le> 3"
  shows "v \<in> visited \<and> dp v \<le> k \<and> (0 < k \<longrightarrow> v \<noteq> t)"
  using assms(2,3)
proof (induction k arbitrary: v)
  case 0
  then show ?case using assms(1) by (auto simp: search_ok_def)
next
  case (Suc k)
  then obtain u where u: "(converts edges ^^ k) a u" "converts edges u v" by auto
  from Suc.IH [OF u(1)] Suc.prems(2) have "u \<in> visited" "dp u \<le> k" "dp u < 3" by simp_all
  moreover have "\<forall>w\<in>visited. dp w < 3 \<longrightarrow> (\<forall>x. converts edges w x \<longrightarrow> x \<in> visited \<and> dp x \<le> dp w + 1 \<and> x \<noteq> t)"
    using assms(1) by (simp add: search_ok_def)
  ultimately show ?case using u(2) by force
qed

lemma compat_search_iff:
  "search_ok edges a t dp (fst s) (snd s) \<Longrightarrow>
   compat_search edges t s \<longleftrightarrow> (\<exists>k\<in>{1..3}. (converts edges ^^ k) a t)"
proof (induction edges t s arbitrary: dp rule: compat_search.induct)
  case (1 edges t visited)
  then show ?case using search_closed [of edges a t dp visited _ t] by fastforce
next
  case (2 edges t v d queue visited)
  show ?case
  proof (cases "3 \<le> d")
    case True
    with 2 search_ok_skip [of edges a t dp v d queue visited] show ?thesis by simp
  next
    case False
    show ?thesis
    proof (cases "visit_neighbors t d (neighbors edges v) (queue, visited)")
      case None
      then have "converts edges v t" by (simp add: visit_neighbors_found)
      moreover have "(converts edges ^^ d) a v" using 2(3) by (auto simp: search_ok_def)
      ultimately have "(converts edges ^^ Suc d) a t" by auto
      then have "\<exists>k\<in>{1..3}. (converts edges ^^ k) a t" using False by (intro bexI [of _ "Suc d"]) auto
      then show ?thesis using None False by simp
    next
      case (Some s)
      with 2(2) [OF False Some] search_ok_visit [of edges a t dp v d queue visited "fst s" "snd s"] 2(3) False
      show ?thesis by auto
    qed
  qed
qed

subsection \<open>Names that parse\<close>

lemma parse_urn_base: "parse_urn urn = Some p \<Longrightarrow> base p \<noteq> [] \<and> CHR ''['' \<notin> set (base p)"
  by (auto simp: parse_urn_def split_once_None_iff split_once_Some_iff split: if_splits option.splits)

lemma parse_urn_fails: "parse_urn urn = None \<Longrightarrow> urn = [] \<or> CHR ''['' \<in> set urn"
  by (auto simp: parse_urn_def split_once_None_iff split_once_Some_iff split: if_splits option.splits)

lemma parse_urn_keys: "parse_urn urn = Some p \<Longrightarrow> distinct (map fst (urn_params p))"
proof -
  have "parse_params parts ps = Some qs \<Longrightarrow> bm_inv ps \<Longrightarrow> bm_inv qs" for parts ps qs
    by (induction parts arbitrary: ps) (auto simp: bm_inv_insert split: option.splits if_splits)
  then show "parse_urn urn = Some p \<Longrightarrow> ?thesis"
    by (auto simp: parse_urn_def bm_inv_distinct bm.invar_empty split: if_splits option.splits)
qed

lemma same_base_parses: "base_of a = base_of b \<Longrightarrow> parse_urn a = None \<longleftrightarrow> parse_urn b = None"
  by (cases "parse_urn a"; cases "parse_urn b")
    (auto simp: base_of_def dest: parse_urn_base parse_urn_fails)

lemma same_base_match: "base_of a = base_of b \<Longrightarrow> types_match a b \<longleftrightarrow>
    (case (parse_urn a, parse_urn b) of (Some fp, Some tp) \<Rightarrow> params_agree (urn_params fp) (urn_params tp) | _ \<Rightarrow> True)"
  using same_base_parses [of a b] by (cases "parse_urn a"; cases "parse_urn b") (auto simp: types_match_def base_of_def)

lemma match_same_base: "types_match a b \<Longrightarrow> base_of a = base_of b"
  by (auto simp: types_match_def base_of_def split: option.splits)

text \<open>C36: The type check of an edge. A type converts implicitly to another exactly if the target is the
  universal type of bytes, or the names match (equal bases and no shared parameter with two values), or the bases
  differ and a chain of at most three conversion rules leads from one to the other.\<close>

theorem is_compatible_exact:
  "is_compatible edges a b \<longleftrightarrow>
     b = ''std/core/v1/Bytes'' \<or> types_match a b \<or>
     base_of a \<noteq> base_of b \<and> (\<exists>k\<in>{1..3}. (converts edges ^^ k) (base_of a) (base_of b))"
proof (cases "base_of a = base_of b")
  case True
  then show ?thesis using same_base_match [of a b] by (simp add: is_compatible_def)
next
  case False
  have "search_ok edges (base_of a) (base_of b) (\<lambda>_. 0) [(base_of a, 0)] {base_of a}"
    by (simp add: search_ok_def)
  from compat_search_iff [of edges "base_of a" "base_of b" "\<lambda>_. 0" "([(base_of a, 0)], {base_of a})"] this False match_same_base [of a b]
  show ?thesis by (auto simp: is_compatible_def)
qed

theorem is_compatible_exact_witness:
  "is_compatible (compatibility_graph []) ''std/core/v1/UInt8'' ''std/core/v1/UInt64''"
proof -
  let ?g = "compatibility_graph []"
  have "neighbors ?g ''std/core/v1/UInt8'' = [''std/core/v1/UInt32'']" "neighbors ?g ''std/core/v1/UInt32'' = [''std/core/v1/UInt64'']"
    by code_simp+
  then have "(converts ?g ^^ 2) ''std/core/v1/UInt8'' ''std/core/v1/UInt64''"
    by (auto simp: numeral_2_eq_2 intro!: relcomppI)
  moreover have "base_of ''std/core/v1/UInt8'' = ''std/core/v1/UInt8''" "base_of ''std/core/v1/UInt64'' = ''std/core/v1/UInt64''"
    by code_simp+
  ultimately show ?thesis unfolding is_compatible_exact by force
qed

section \<open>The registry\<close>

text \<open>Arrow types, as far as the source builds them.\<close>

datatype DataType =
    Float32 | Float64 | Int8 | Int16 | Int32 | Int64 | UInt8 | UInt16 | UInt32 | UInt64
  | Utf8 | LargeBinary | Boolean
  | LargeList Field
  | Struct "Field list"
and Field = Field string DataType bool

record FieldDef =
  fd_name :: string
  fd_type :: string
  fd_nullable :: bool

record TypeDef =
  td_arrow :: string
  td_fields :: "FieldDef list"

type_synonym TypeRegistry = "(string \<times> TypeDef) list"

definition arrow_type_from_name :: "string \<Rightarrow> DataType option" where
  "arrow_type_from_name name =
     map_of [(''Float32'', Float32), (''Float64'', Float64), (''Int8'', Int8), (''Int16'', Int16), (''Int32'', Int32),
             (''Int64'', Int64), (''UInt8'', UInt8), (''UInt16'', UInt16), (''UInt32'', UInt32), (''UInt64'', UInt64),
             (''Utf8'', Utf8), (''LargeBinary'', LargeBinary), (''Boolean'', Boolean)] name"

definition is_known_arrow_type :: "string \<Rightarrow> bool" where
  "is_known_arrow_type name \<longleftrightarrow> arrow_type_from_name name \<noteq> None \<or> name = ''Struct''"

definition MAX_TYPE_DEPTH :: nat where "MAX_TYPE_DEPTH = 8"

definition resolve :: "TypeRegistry \<Rightarrow> string \<Rightarrow> TypeDef option" where
  "resolve reg urn =
     (case map_of reg urn of
        Some def \<Rightarrow> Some def
      | None \<Rightarrow>
          (case parse_urn urn of
             Some p \<Rightarrow> if base p \<noteq> urn then map_of reg (base p) else None
           | None \<Rightarrow> None))"

definition resolve_arrow_type :: "TypeRegistry \<Rightarrow> string \<Rightarrow> DataType option" where
  "resolve_arrow_type reg urn =
     (case resolve reg urn of None \<Rightarrow> None | Some def \<Rightarrow> arrow_type_from_name (td_arrow def))"

fun find_suffix :: "string \<Rightarrow> TypeRegistry \<Rightarrow> TypeDef option \<Rightarrow> TypeDef option" where
  "find_suffix suf [] found = found"
| "find_suffix suf ((urn, def) # reg) found =
     (if strip_suffix suf urn \<noteq> None
      then (if found \<noteq> None then None else find_suffix suf reg (Some def))
      else find_suffix suf reg found)"

definition resolve_short_name :: "TypeRegistry \<Rightarrow> string \<Rightarrow> TypeDef option" where
  "resolve_short_name reg name = find_suffix (''/'' @ name) reg None"

definition list_inner :: "string \<Rightarrow> string option" where
  "list_inner t = (case strip_prefix ''List<'' t of None \<Rightarrow> None | Some s \<Rightarrow> strip_suffix ''>'' s)"

function field_type_resolves_depth :: "TypeRegistry \<Rightarrow> string \<Rightarrow> nat \<Rightarrow> bool" where
  "field_type_resolves_depth reg type_str depth =
     (if MAX_TYPE_DEPTH < depth then False
      else (let t = str_trim type_str in
            if arrow_type_from_name t \<noteq> None then True
            else (case list_inner t of
                    Some inner \<Rightarrow> field_type_resolves_depth reg inner (depth + 1)
                  | None \<Rightarrow> resolve reg t \<noteq> None \<or> resolve_short_name reg t \<noteq> None)))"
  by pat_completeness auto
termination
  by (relation "measure (\<lambda>(reg, t, depth). Suc MAX_TYPE_DEPTH - depth)") auto

declare field_type_resolves_depth.simps [simp del]

definition field_type_resolves :: "TypeRegistry \<Rightarrow> string \<Rightarrow> bool" where
  "field_type_resolves reg type_str = field_type_resolves_depth reg type_str 0"

function resolve_field_type :: "string \<Rightarrow> TypeRegistry \<Rightarrow> nat \<Rightarrow> DataType option" where
  "resolve_field_type type_str reg depth =
     (if MAX_TYPE_DEPTH < depth then None
      else (let t = str_trim type_str in
            case arrow_type_from_name t of
              Some dt \<Rightarrow> Some dt
            | None \<Rightarrow>
                (case map_option str_trim (list_inner t) of
                   Some inner \<Rightarrow>
                     map_option (\<lambda>dt. LargeList (Field ''item'' dt True)) (resolve_field_type inner reg (depth + 1))
                 | None \<Rightarrow>
                     (case (case resolve reg t of Some def \<Rightarrow> Some def | None \<Rightarrow> resolve_short_name reg t) of
                        None \<Rightarrow> None
                      | Some def \<Rightarrow>
                          if td_fields def = [] then None
                          else map_option Struct
                                 (those (map (\<lambda>f. map_option (\<lambda>dt. Field (fd_name f) dt (fd_nullable f))
                                                    (resolve_field_type (fd_type f) reg (depth + 1)))
                                           (td_fields def)))))))"
  by pat_completeness auto
termination
  by (relation "measure (\<lambda>(t, reg, depth). Suc MAX_TYPE_DEPTH - depth)") auto

declare resolve_field_type.simps [simp del]

definition to_arrow_schema_with_registry :: "TypeDef \<Rightarrow> TypeRegistry \<Rightarrow> Field list option" where
  "to_arrow_schema_with_registry def reg =
     (if td_fields def = [] then None
      else those (map (\<lambda>f. map_option (\<lambda>dt. Field (fd_name f) dt (fd_nullable f)) (resolve_field_type (fd_type f) reg 0))
                    (td_fields def)))"

definition add_user_type :: "string \<Rightarrow> TypeDef \<Rightarrow> TypeRegistry \<Rightarrow> TypeRegistry option" where
  "add_user_type urn def reg =
     (if strip_prefix ''std/'' urn \<noteq> None \<or> urn = ''std'' then None
      else if urn = [] \<or> \<not> list_all (\<lambda>c. is_ascii_alphanumeric c \<or> c \<in> {CHR ''_'', CHR ''-'', CHR ''.'', CHR ''/''}) urn then None
      else Some (bm_insert urn def reg))"

subsection \<open>What resolves passes the gate\<close>

lemma dropWhile_dropWhile [simp]: "dropWhile P (dropWhile P xs) = dropWhile P xs"
  by (induction xs) auto

lemma trim_dropWhile: "dropWhile P (rev (dropWhile P (rev (dropWhile P s)))) = rev (dropWhile P (rev (dropWhile P s)))"
proof (cases "dropWhile P s")
  case Nil
  show ?thesis unfolding Nil by simp
next
  case (Cons x xs)
  then have "\<not> P x" by (metis hd_dropWhile list.distinct(1) list.sel(1))
  with Cons show ?thesis by (simp add: dropWhile_append)
qed

lemma str_trim_trim [simp]: "str_trim (str_trim s) = str_trim s"
  by (simp add: str_trim_def trim_dropWhile)

lemma admitted_trim: "field_type_resolves_depth reg (str_trim t) depth = field_type_resolves_depth reg t depth"
  by (simp add: field_type_resolves_depth.simps [of reg t depth] field_type_resolves_depth.simps [of reg "str_trim t" depth])

text \<open>C37: Admission of a field type and its translation to an Arrow type agree: a field type that can be translated is
  accepted by the check that manifests are put to, at every nesting depth, with or without surrounding white space.\<close>

theorem materialized_types_are_admitted:
  "resolve_field_type t reg depth \<noteq> None \<longrightarrow> field_type_resolves_depth reg t depth"
proof (induction t reg depth rule: resolve_field_type.induct)
  case (1 t reg depth)
  show ?case
  proof (cases "MAX_TYPE_DEPTH < depth \<or> arrow_type_from_name (str_trim t) \<noteq> None")
    case True
    then show ?thesis
      by (auto simp: resolve_field_type.simps [of t reg depth] field_type_resolves_depth.simps [of reg t depth] Let_def)
  next
    case False
    show ?thesis
    proof (cases "list_inner (str_trim t)")
      case None
      with False show ?thesis
        by (auto simp: resolve_field_type.simps [of t reg depth] field_type_resolves_depth.simps [of reg t depth] Let_def
            split: option.splits)
    next
      case (Some inner)
      with 1(2) [of "str_trim t" "str_trim inner"] False
      have "resolve_field_type (str_trim inner) reg (depth + 1) \<noteq> None \<Longrightarrow> field_type_resolves_depth reg inner (depth + 1)"
        by (simp add: admitted_trim)
      with Some False show ?thesis
        by (auto simp: resolve_field_type.simps [of t reg depth] field_type_resolves_depth.simps [of reg t depth] Let_def)
    qed
  qed
qed

theorem materialized_types_are_admitted_witness: "field_type_resolves_depth [] ''List< Float32 >'' 0"
proof -
  have "resolve_field_type ''List< Float32 >'' [] 0 \<noteq> None" by code_simp
  then show ?thesis using materialized_types_are_admitted by blast
qed

section \<open>Schemas\<close>

datatype SchemaError = MissingField string | TypeMismatch string DataType DataType

fun field_with_name :: "Field list \<Rightarrow> string \<Rightarrow> DataType option" where
  "field_with_name [] name = None"
| "field_with_name (Field n dt nullable # fs) name = (if n = name then Some dt else field_with_name fs name)"

fun schema_compatible :: "Field list \<Rightarrow> Field list \<Rightarrow> SchemaError + unit" where
  "schema_compatible [] actual = Inr ()"
| "schema_compatible (Field name expected nullable # fs) actual =
     (case field_with_name actual name of
        Some dt \<Rightarrow> if dt \<noteq> expected then Inl (TypeMismatch name expected dt) else schema_compatible fs actual
      | None \<Rightarrow> Inl (MissingField name))"

definition pattern_metadata_keys :: "string \<Rightarrow> string list option" where
  "pattern_metadata_keys pattern =
     (if pattern = ''service-server'' \<or> pattern = ''service-client'' then Some [''request_id'']
      else if pattern = ''action-server'' then Some [''goal_id'', ''goal_status'']
      else if pattern = ''action-client'' then Some [''goal_id'']
      else None)"

lemma schema_compatible_iff:
  "schema_compatible expected actual = Inr () \<longleftrightarrow>
     (\<forall>name dt nullable. Field name dt nullable \<in> set expected \<longrightarrow> field_with_name actual name = Some dt)"
  by (induction expected actual rule: schema_compatible.induct) (auto split: option.splits)

end
