(* ===== verification/Edit_Distance.thy ===== *)
theory Edit_Distance
  imports Dora_Prelude
begin

text \<open>
  The edit distance behind suggestions for mistyped names: \<open>edit_distance\<close> of
  \<open>libraries/core/src/types.rs\<close>, a dynamic program over a matrix. It is shown to compute the least number of
  edits. A string is the list of its characters.
\<close>

section \<open>Edit distance\<close>

definition cell :: "nat list list \<Rightarrow> nat \<Rightarrow> nat \<Rightarrow> nat" where
  "cell dp i j = dp ! i ! j"

definition set_cell :: "nat list list \<Rightarrow> nat \<Rightarrow> nat \<Rightarrow> nat \<Rightarrow> nat list list" where
  "set_cell dp i j v = dp[i := (dp ! i)[j := v]]"

text \<open>The matrix with its first column and row, the inner loop body, and the two loops.\<close>

definition init_matrix :: "nat \<Rightarrow> nat \<Rightarrow> nat list list" where
  "init_matrix m n =
     fold (\<lambda>j dp. set_cell dp 0 j j) [0..<Suc n]
       (fold (\<lambda>i dp. set_cell dp i 0 i) [0..<Suc m] (replicate (Suc m) (replicate (Suc n) 0)))"

definition fill_cell :: "'a list \<Rightarrow> 'a list \<Rightarrow> nat \<Rightarrow> nat \<Rightarrow> nat list list \<Rightarrow> nat list list" where
  "fill_cell a b i j dp =
     (let cost = (if a ! (i - 1) = b ! (j - 1) then 0 else 1)
      in set_cell dp i j
           (min (min (cell dp (i - 1) j + 1) (cell dp i (j - 1) + 1)) (cell dp (i - 1) (j - 1) + cost)))"

definition fill_matrix :: "'a list \<Rightarrow> 'a list \<Rightarrow> nat list list" where
  "fill_matrix a b =
     fold (\<lambda>i. fold (\<lambda>j. fill_cell a b i j) [1..<Suc (length b)]) [1..<Suc (length a)]
       (init_matrix (length a) (length b))"

definition edit_distance :: "'a list \<Rightarrow> 'a list \<Rightarrow> nat" where
  "edit_distance a b =
     (if 256 < length (take 257 a) \<or> 256 < length (take 257 b) then usize_max
      else cell (fill_matrix a b) (length a) (length b))"

section \<open>The least number of edits\<close>

text \<open>\<open>edits k xs ys\<close>: \<open>k\<close> insertions, deletions and replacements of single characters, besides characters that are
  kept, turn \<open>xs\<close> into \<open>ys\<close>.\<close>

inductive edits :: "nat \<Rightarrow> 'a list \<Rightarrow> 'a list \<Rightarrow> bool" where
  empty: "edits 0 [] []"
| keep: "edits k xs ys \<Longrightarrow> edits k (xs @ [x]) (ys @ [x])"
| replace: "edits k xs ys \<Longrightarrow> edits (Suc k) (xs @ [x]) (ys @ [y])"
| ins: "edits k xs ys \<Longrightarrow> edits (Suc k) xs (ys @ [y])"
| del: "edits k xs ys \<Longrightarrow> edits (Suc k) (xs @ [x]) ys"

text \<open>The recurrence of the matrix over prefixes of the two strings.\<close>

fun lev :: "'a list \<Rightarrow> 'a list \<Rightarrow> nat \<Rightarrow> nat \<Rightarrow> nat" where
  "lev a b 0 j = j"
| "lev a b (Suc i) 0 = Suc i"
| "lev a b (Suc i) (Suc j) =
     min (min (lev a b i (Suc j) + 1) (lev a b (Suc i) j + 1)) (lev a b i j + (if a ! i = b ! j then 0 else 1))"

lemma lev_0 [simp]: "lev a b i 0 = i"
  by (cases i) simp_all

lemma lev_grows: "lev a b i (Suc j) \<le> lev a b i j + 1" "lev a b (Suc i) j \<le> lev a b i j + 1"
proof -
  show "lev a b i (Suc j) \<le> lev a b i j + 1" by (cases i) (simp_all add: min_le_iff_disj)
  show "lev a b (Suc i) j \<le> lev a b i j + 1" by (cases j) (simp_all add: min_le_iff_disj)
qed

lemma take_snoc: "i \<le> length a \<Longrightarrow> take i a = xs @ [x] \<Longrightarrow> \<exists>i'. i = Suc i' \<and> take i' a = xs \<and> a ! i' = x"
  by (cases i) (auto simp: take_Suc_conv_app_nth)

lemma lev_attained: "i \<le> length a \<Longrightarrow> j \<le> length b \<Longrightarrow> edits (lev a b i j) (take i a) (take j b)"
proof (induction a b i j rule: lev.induct)
  case (1 a b j)
  then show ?case by (induction j) (auto simp: take_Suc_conv_app_nth intro: edits.intros)
next
  case (2 a b i)
  have "edits i (take i a) []" if "i \<le> length a" for i
    using that by (induction i) (auto simp: take_Suc_conv_app_nth intro: edits.intros)
  from this [OF 2(1)] show ?case by simp
next
  case (3 a b i j)
  then show ?case
    by (auto simp: take_Suc_conv_app_nth min_def intro: edits.intros)
qed

lemma lev_least:
  "edits k xs ys \<Longrightarrow> take i a = xs \<Longrightarrow> take j b = ys \<Longrightarrow> i \<le> length a \<Longrightarrow> j \<le> length b \<Longrightarrow> lev a b i j \<le> k"
proof (induction arbitrary: i j rule: edits.induct)
  case (keep k xs ys x)
  then obtain i' j' where "i = Suc i'" "take i' a = xs" "a ! i' = x" "j = Suc j'" "take j' b = ys" "b ! j' = x"
    using take_snoc by metis
  with keep keep.IH [of i' j'] show ?case by (simp add: min_le_iff_disj)
next
  case (replace k xs ys x y)
  then obtain i' j' where "i = Suc i'" "take i' a = xs" "j = Suc j'" "take j' b = ys"
    using take_snoc by metis
  with replace.IH [of i' j'] replace.prems have "lev a b i' j' \<le> k" by simp
  with \<open>i = Suc i'\<close> \<open>j = Suc j'\<close> show ?case by (auto simp: min_le_iff_disj)
next
  case (ins k xs ys y)
  then obtain j' where "j = Suc j'" "take j' b = ys" using take_snoc by metis
  with ins.IH [of i j'] ins.prems have "lev a b i j' \<le> k" by simp
  with lev_grows(1) [of a b i j'] \<open>j = Suc j'\<close> show ?case by simp
next
  case (del k xs ys x)
  then obtain i' where "i = Suc i'" "take i' a = xs" using take_snoc by metis
  with del.IH [of i' j] del.prems have "lev a b i' j \<le> k" by simp
  with lev_grows(2) [of a b i' j] \<open>i = Suc i'\<close> show ?case by simp
qed auto

section \<open>The matrix holds the recurrence\<close>

definition shape :: "nat \<Rightarrow> nat \<Rightarrow> nat list list \<Rightarrow> bool" where
  "shape m n dp \<longleftrightarrow> length dp = Suc m \<and> (\<forall>i\<le>m. length (dp ! i) = Suc n)"

lemma shape_set_cell [simp]: "shape m n dp \<Longrightarrow> shape m n (set_cell dp i j v)"
  by (cases "i < length dp") (auto simp: shape_def set_cell_def nth_list_update)

lemma cell_set_cell [simp]:
  "shape m n dp \<Longrightarrow> i \<le> m \<Longrightarrow> j \<le> n \<Longrightarrow> i' \<le> m \<Longrightarrow>
   cell (set_cell dp i j v) i' j' = (if i' = i \<and> j' = j then v else cell dp i' j')"
  by (auto simp: shape_def cell_def set_cell_def nth_list_update)

text \<open>Rows before \<open>i\<close>, cells before \<open>j\<close> in row \<open>i\<close>, and the borders are final.\<close>

definition filled :: "'a list \<Rightarrow> 'a list \<Rightarrow> nat \<Rightarrow> nat \<Rightarrow> nat list list \<Rightarrow> bool" where
  "filled a b i j dp \<longleftrightarrow> shape (length a) (length b) dp \<and>
     (\<forall>i'\<le>length a. \<forall>j'\<le>length b. i' < i \<or> i' = i \<and> j' < j \<or> i' = 0 \<or> j' = 0 \<longrightarrow> cell dp i' j' = lev a b i' j')"

lemma filledD:
  "filled a b i j dp \<Longrightarrow> i' \<le> length a \<Longrightarrow> j' \<le> length b \<Longrightarrow> i' < i \<or> i' = i \<and> j' < j \<or> i' = 0 \<or> j' = 0 \<Longrightarrow>
   cell dp i' j' = lev a b i' j'"
  unfolding filled_def by blast

lemma filled_init: "filled a b 1 1 (init_matrix (length a) (length b))"
proof -
  let ?m = "length a" and ?n = "length b"
  have col: "shape ?m ?n (fold (\<lambda>i dp. set_cell dp i 0 i) [0..<k] dp) \<and>
      (\<forall>i\<le>?m. cell (fold (\<lambda>i dp. set_cell dp i 0 i) [0..<k] dp) i 0 = (if i < k then i else cell dp i 0))"
    if "shape ?m ?n dp" "k \<le> Suc ?m" for k dp
    using that by (induction k) auto
  have row: "shape ?m ?n (fold (\<lambda>j dp. set_cell dp 0 j j) [0..<k] dp) \<and>
      (\<forall>i\<le>?m. \<forall>j\<le>?n. cell (fold (\<lambda>j dp. set_cell dp 0 j j) [0..<k] dp) i j = (if i = 0 \<and> j < k then j else cell dp i j))"
    if "shape ?m ?n dp" "k \<le> Suc ?n" for k dp
    using that by (induction k) auto
  have "shape ?m ?n (replicate (Suc ?m) (replicate (Suc ?n) 0))" by (simp add: shape_def del: replicate_Suc)
  note c = col [OF this, of "Suc ?m"]
  note r = row [OF c [THEN conjunct1], of "Suc ?n"]
  show ?thesis using c r unfolding filled_def init_matrix_def by (auto simp del: upt_Suc)
qed

lemma filled_cell:
  assumes "filled a b i j dp" and "1 \<le> i" "i \<le> length a" "1 \<le> j" "j \<le> length b"
  shows "filled a b i (Suc j) (fill_cell a b i j dp)"
proof -
  obtain i' j' where ij: "i = Suc i'" "j = Suc j'" using assms(2,4) by (metis Suc_le_D One_nat_def)
  have "cell dp i' (Suc j') = lev a b i' (Suc j')" "cell dp (Suc i') j' = lev a b (Suc i') j'" "cell dp i' j' = lev a b i' j'"
    using assms ij unfolding filled_def by auto
  then have "fill_cell a b i j dp = set_cell dp i j (lev a b i j)" by (simp add: fill_cell_def ij Let_def)
  then have "cell (fill_cell a b i j dp) i' j' = lev a b i' j'"
    if "i' \<le> length a" "j' \<le> length b" "i' < i \<or> i' = i \<and> j' < Suc j \<or> i' = 0 \<or> j' = 0" for i' j'
    using that assms(1,3,5) filledD [OF assms(1), of i' j'] by (auto simp: less_Suc_eq filled_def)
  then show ?thesis using assms(1) \<open>fill_cell a b i j dp = _\<close> by (simp add: filled_def)
qed

lemma filled_row:
  assumes "filled a b i 1 dp" and "1 \<le> i" "i \<le> length a"
  shows "k \<le> length b \<Longrightarrow> filled a b i (Suc k) (fold (\<lambda>j. fill_cell a b i j) [1..<Suc k] dp)"
proof (induction k)
  case 0
  then show ?case using assms(1) by simp
next
  case (Suc k)
  then show ?case using filled_cell [of a b i "Suc k"] assms(2,3) by simp
qed

lemma filled_next_row: "filled a b i (Suc (length b)) dp \<Longrightarrow> filled a b (Suc i) 1 dp"
  unfolding filled_def [of a b "Suc i"]
proof (intro conjI allI impI)
  assume f: "filled a b i (Suc (length b)) dp"
  then show "shape (length a) (length b) dp" by (simp add: filled_def)
  fix i' j' assume "i' \<le> length a" "j' \<le> length b" "i' < Suc i \<or> i' = Suc i \<and> j' < 1 \<or> i' = 0 \<or> j' = 0"
  then show "cell dp i' j' = lev a b i' j'" by (intro filledD [OF f]) auto
qed

lemma filled_rows:
  "k \<le> length a \<Longrightarrow> filled a b (Suc k) 1
     (fold (\<lambda>i. fold (\<lambda>j. fill_cell a b i j) [1..<Suc (length b)]) [1..<Suc k] (init_matrix (length a) (length b)))"
proof (induction k)
  case 0
  then show ?case using filled_init by simp
next
  case (Suc k)
  then show ?case
    using filled_next_row [OF filled_row [of a b "Suc k" _ "length b"]] by simp
qed

lemma fill_matrix_lev: "cell (fill_matrix a b) (length a) (length b) = lev a b (length a) (length b)"
  using filled_rows [of "length a" a b] unfolding filled_def fill_matrix_def by auto

text \<open>C38: For strings of at most 256 characters the distance is the least number of insertions, deletions and replacements of single
  characters that turn one string into the other; for longer strings it is the largest \<open>usize\<close>.\<close>

theorem edit_distance_least:
  "(length a \<le> 256 \<and> length b \<le> 256 \<longrightarrow>
      edits (edit_distance a b) a b \<and> (\<forall>k. edits k a b \<longrightarrow> edit_distance a b \<le> k)) \<and>
   (256 < length a \<or> 256 < length b \<longrightarrow> edit_distance a b = usize_max)"
proof -
  have "edit_distance a b = lev a b (length a) (length b)" if "length a \<le> 256 \<and> length b \<le> 256"
    using that by (simp add: edit_distance_def fill_matrix_lev)
  moreover have "edit_distance a b = usize_max" if "256 < length a \<or> 256 < length b"
    using that by (auto simp: edit_distance_def)
  ultimately show ?thesis
    using lev_attained [of "length a" a "length b" b] lev_least [of _ a b "length a" a "length b" b] by auto
qed

theorem edit_distance_least_witness: "edit_distance ''ab'' ''b'' \<le> 1"
proof -
  have "edits (Suc 0) ([] @ [CHR ''a'']) []" by (intro edits.intros)
  then have "edits (Suc 0) (([] @ [CHR ''a'']) @ [CHR ''b'']) ([] @ [CHR ''b''])" by (rule edits.keep)
  then have "edits 1 ''ab'' ''b''" by simp
  then show ?thesis using edit_distance_least [of "''ab''" "''b''"] by simp
qed

end
