(* ===== verification/Coordinator_Store.thy ===== *)
theory Coordinator_Store
  imports Message_Common "HOL-Library.Sublist" "HOL-Library.Option_ord"
begin

text \<open>
  The state that the coordinator persists: \<open>libraries/coordinator-store/src\<close>. The records and the limits of
  \<open>lib.rs\<close>, the in-memory backend of \<open>in_memory.rs\<close> and the database backend of \<open>redb_store.rs\<close>; the database
  backend refines the in-memory one.

  The database library, the binary codec and the \<open>uuid\<close> crate are arguments, gathered in the record
  \<open>lib\<close>: \<open>lib_ok\<close> states what the source relies on. A byte string is a list of characters. A transaction of
  the database can fail; then its changes are discarded. The locks of the in-memory backend are never poisoned,
  since no operation panics while it holds one. Opening the database file is left out but for the check of the
  schema version.
\<close>

section \<open>Records and limits\<close>

instantiation DaemonId :: (linorder) linorder
begin
definition less_eq_DaemonId :: "'a DaemonId \<Rightarrow> 'a DaemonId \<Rightarrow> bool" where
  "less_eq_DaemonId a b \<longleftrightarrow> (machine_id a, daemon_uuid a) \<le> (machine_id b, daemon_uuid b)"
definition less_DaemonId :: "'a DaemonId \<Rightarrow> 'a DaemonId \<Rightarrow> bool" where
  "less_DaemonId a b \<longleftrightarrow> (machine_id a, daemon_uuid a) < (machine_id b, daemon_uuid b)"
instance
  by standard (auto simp: less_eq_DaemonId_def less_DaemonId_def DaemonId.expand)
end

record 'u DaemonInfo =
  di_daemon_id :: "'u DaemonId"
  di_machine_id :: "string option"
  di_labels :: "(string \<times> string) list"

datatype StoreDataflowStatus =
    Pending
  | Running
  | Recovering
  | Stopping
  | Succeeded
  | Failed (failed_error: string) (failed_terminal: bool)

record 'u DataflowRecord =
  rec_uuid :: 'u
  rec_name :: "string option"
  descriptor_json :: string
  rec_status :: StoreDataflowStatus
  rec_daemon_ids :: "'u DaemonId list"
  rec_node_to_daemon :: "(string \<times> string) list"
  rec_uv :: bool
  rec_ready_barrier_released :: bool
  barrier_exited_before_subscribe :: "string list"
  rec_generation :: nat
  rec_created_at :: nat
  rec_updated_at :: nat

datatype BuildStatus = BuildPending | BuildSucceeded | BuildFailed

record 'u BuildRecord =
  build_id :: 'u
  build_status :: BuildStatus
  build_errors :: "string list"
  build_created_at :: nat
  build_updated_at :: nat

datatype store_error =
    ParamKeyTooLong
  | ParamKeyNull
  | ParamValueTooLarge
  | NodeIdNull
  | EncodeFailed
  | RecordTooLarge
  | DecodeFailed
  | StorageFailed
  | SchemaMismatch nat

definition MAX_PARAM_KEY_BYTES :: nat where "MAX_PARAM_KEY_BYTES = 256"
definition MAX_PARAM_VALUE_BYTES :: nat where "MAX_PARAM_VALUE_BYTES = 65536"

abbreviation NUL :: char where "NUL \<equiv> CHR 0x00"

definition validate_param_limits :: "string \<Rightarrow> string \<Rightarrow> store_error + unit" where
  "validate_param_limits key value =
     (if MAX_PARAM_KEY_BYTES < length key then Inl ParamKeyTooLong
      else if NUL \<in> set key then Inl ParamKeyNull
      else if MAX_PARAM_VALUE_BYTES < length value then Inl ParamValueTooLarge
      else Inr ())"

section \<open>The in-memory backend\<close>

type_synonym 'u ParamKey = "'u \<times> NodeId \<times> string"

record 'u InMemoryStore =
  mem_daemons :: "('u DaemonId \<times> 'u DaemonInfo) list"
  mem_dataflows :: "('u \<times> 'u DataflowRecord) list"
  mem_builds :: "('u \<times> 'u BuildRecord) list"
  mem_params :: "('u ParamKey \<times> string) list"

definition mem_new :: "'u InMemoryStore" where
  "mem_new = \<lparr> mem_daemons = [], mem_dataflows = [], mem_builds = [], mem_params = [] \<rparr>"

definition mem_register_daemon :: "'u::linorder DaemonInfo \<Rightarrow> 'u InMemoryStore \<Rightarrow> 'u InMemoryStore" where
  "mem_register_daemon info s =
     s\<lparr> mem_daemons := bm_insert (di_daemon_id info) info (mem_daemons s) \<rparr>"

definition mem_unregister_daemon :: "'u DaemonId \<Rightarrow> 'u InMemoryStore \<Rightarrow> 'u InMemoryStore" where
  "mem_unregister_daemon d s = s\<lparr> mem_daemons := AList.delete d (mem_daemons s) \<rparr>"

definition mem_list_daemons :: "'u InMemoryStore \<Rightarrow> 'u DaemonInfo list" where
  "mem_list_daemons s = map snd (mem_daemons s)"

definition mem_get_daemon :: "'u DaemonId \<Rightarrow> 'u InMemoryStore \<Rightarrow> 'u DaemonInfo option" where
  "mem_get_daemon d s = map_of (mem_daemons s) d"

definition mem_get_daemon_by_machine :: "string \<Rightarrow> 'u InMemoryStore \<Rightarrow> 'u DaemonId option" where
  "mem_get_daemon_by_machine m s = find (\<lambda>d. matches_machine_id d m) (map fst (mem_daemons s))"

definition mem_put_dataflow :: "'u::linorder DataflowRecord \<Rightarrow> 'u InMemoryStore \<Rightarrow> 'u InMemoryStore" where
  "mem_put_dataflow r s = s\<lparr> mem_dataflows := bm_insert (rec_uuid r) r (mem_dataflows s) \<rparr>"

definition mem_get_dataflow :: "'u \<Rightarrow> 'u InMemoryStore \<Rightarrow> 'u DataflowRecord option" where
  "mem_get_dataflow u s = map_of (mem_dataflows s) u"

definition mem_list_dataflows :: "'u InMemoryStore \<Rightarrow> 'u DataflowRecord list" where
  "mem_list_dataflows s = map snd (mem_dataflows s)"

definition mem_delete_dataflow :: "'u \<Rightarrow> 'u InMemoryStore \<Rightarrow> 'u InMemoryStore" where
  "mem_delete_dataflow u s =
     s\<lparr> mem_dataflows := AList.delete u (mem_dataflows s),
        mem_params := filter (\<lambda>((df, _, _), _). df \<noteq> u) (mem_params s) \<rparr>"

definition mem_put_build :: "'u::linorder BuildRecord \<Rightarrow> 'u InMemoryStore \<Rightarrow> 'u InMemoryStore" where
  "mem_put_build r s = s\<lparr> mem_builds := bm_insert (build_id r) r (mem_builds s) \<rparr>"

definition mem_get_build :: "'u \<Rightarrow> 'u InMemoryStore \<Rightarrow> 'u BuildRecord option" where
  "mem_get_build u s = map_of (mem_builds s) u"

definition mem_list_builds :: "'u InMemoryStore \<Rightarrow> 'u BuildRecord list" where
  "mem_list_builds s = map snd (mem_builds s)"

definition mem_delete_build :: "'u \<Rightarrow> 'u InMemoryStore \<Rightarrow> 'u InMemoryStore" where
  "mem_delete_build u s = s\<lparr> mem_builds := AList.delete u (mem_builds s) \<rparr>"

definition mem_put_node_param ::
  "'u::linorder \<Rightarrow> NodeId \<Rightarrow> string \<Rightarrow> string \<Rightarrow> 'u InMemoryStore \<Rightarrow> 'u InMemoryStore \<times> (store_error + unit)" where
  "mem_put_node_param u n key value s =
     (case validate_param_limits key value of
        Inl e \<Rightarrow> (s, Inl e)
      | Inr _ \<Rightarrow> (s\<lparr> mem_params := bm_insert (u, n, key) value (mem_params s) \<rparr>, Inr ()))"

definition mem_get_node_param ::
  "'u \<Rightarrow> NodeId \<Rightarrow> string \<Rightarrow> 'u InMemoryStore \<Rightarrow> store_error + string option" where
  "mem_get_node_param u n key s = Inr (map_of (mem_params s) (u, n, key))"

definition mem_list_node_params ::
  "'u::linorder \<Rightarrow> NodeId \<Rightarrow> 'u InMemoryStore \<Rightarrow> store_error + (string \<times> string) list" where
  "mem_list_node_params u n s =
     Inr (map (\<lambda>((_, _, key), value). (key, value))
       (takeWhile (\<lambda>((df, nid, _), _). df = u \<and> nid = n)
          (filter (\<lambda>(k, _). (u, n, []) \<le> k) (mem_params s))))"

definition mem_delete_node_param ::
  "'u \<Rightarrow> NodeId \<Rightarrow> string \<Rightarrow> 'u InMemoryStore \<Rightarrow> 'u InMemoryStore \<times> (store_error + unit)" where
  "mem_delete_node_param u n key s =
     (s\<lparr> mem_params := AList.delete (u, n, key) (mem_params s) \<rparr>, Inr ())"

section \<open>The database backend\<close>

text \<open>The third-party code: tables of byte strings, the codec of the records, identifiers as bytes and as text.
  \<open>all_rows\<close> lists the rows of a table, \<open>rows_from\<close> those from a key on; a \<open>take\<close> function decodes a value and returns the rest.\<close>

record ('t, 'u) lib =
  new_table :: 't
  insert_row :: "string \<Rightarrow> string \<Rightarrow> 't \<Rightarrow> 't"
  remove_row :: "string \<Rightarrow> 't \<Rightarrow> 't"
  get_row :: "'t \<Rightarrow> string \<Rightarrow> string option"
  all_rows :: "'t \<Rightarrow> (string \<times> string) list"
  rows_from :: "'t \<Rightarrow> string \<Rightarrow> (string \<times> string) list"
  retain_from :: "string \<Rightarrow> (string \<Rightarrow> string \<Rightarrow> bool) \<Rightarrow> 't \<Rightarrow> 't"
  put_daemon_id :: "'u DaemonId \<Rightarrow> string option"
  put_daemon :: "'u DaemonInfo \<Rightarrow> string option"
  take_daemon :: "string \<Rightarrow> ('u DaemonInfo \<times> string) option"
  put_record :: "'u DataflowRecord \<Rightarrow> string option"
  take_record :: "string \<Rightarrow> ('u DataflowRecord \<times> string) option"
  put_build :: "'u BuildRecord \<Rightarrow> string option"
  take_build :: "string \<Rightarrow> ('u BuildRecord \<times> string) option"
  uuid_bytes :: "'u \<Rightarrow> string"
  uuid_text :: "'u \<Rightarrow> string"

definition STORE_MAX_RECORD_BYTES :: nat where "STORE_MAX_RECORD_BYTES = 64 * 1024 * 1024"
definition SCHEMA_VERSION :: nat where "SCHEMA_VERSION = 5"

definition check_schema :: "nat option \<Rightarrow> store_error + nat" where
  "check_schema stored =
     (case stored of
        Some v \<Rightarrow> if v \<noteq> SCHEMA_VERSION then Inl (SchemaMismatch v) else Inr v
      | None \<Rightarrow> Inr SCHEMA_VERSION)"

definition message_decode :: "(string \<Rightarrow> ('a \<times> string) option) \<Rightarrow> string \<Rightarrow> 'a option" where
  "message_decode take_value bytes =
     (case take_value bytes of
        None \<Rightarrow> None
      | Some (value, rest) \<Rightarrow> if rest \<noteq> [] then None else Some value)"

definition check_record_size :: "nat \<Rightarrow> bool" where
  "check_record_size len \<longleftrightarrow> len \<le> STORE_MAX_RECORD_BYTES"

definition encode :: "('a \<Rightarrow> string option) \<Rightarrow> 'a \<Rightarrow> store_error + string" where
  "encode put_value x =
     (case put_value x of
        None \<Rightarrow> Inl EncodeFailed
      | Some bytes \<Rightarrow> if check_record_size (length bytes) then Inr bytes else Inl RecordTooLarge)"

definition decode :: "(string \<Rightarrow> ('a \<times> string) option) \<Rightarrow> string \<Rightarrow> store_error + 'a" where
  "decode take_value bytes =
     (if check_record_size (length bytes) then
        (case message_decode take_value bytes of None \<Rightarrow> Inl DecodeFailed | Some x \<Rightarrow> Inr x)
      else Inl DecodeFailed)"

record 't RedbStore =
  tab_daemons :: 't
  tab_dataflows :: 't
  tab_builds :: 't
  tab_params :: 't

definition redb_new :: "('t, 'u) lib \<Rightarrow> 't RedbStore" where
  "redb_new L = \<lparr> tab_daemons = new_table L, tab_dataflows = new_table L, tab_builds = new_table L,
     tab_params = new_table L \<rparr>"

text \<open>\<open>io\<close> says whether the operations of the transaction succeed.\<close>

definition commit :: "bool \<Rightarrow> 's \<Rightarrow> 's \<Rightarrow> 's \<times> (store_error + unit)" where
  "commit io s s' = (if io then (s', Inr ()) else (s, Inl StorageFailed))"

definition read_txn :: "bool \<Rightarrow> store_error + 'a \<Rightarrow> store_error + 'a" where
  "read_txn io result = (if io then result else Inl StorageFailed)"

text \<open>Rows that do not decode are skipped.\<close>

definition decode_rows :: "(string \<Rightarrow> ('a \<times> string) option) \<Rightarrow> (string \<times> string) list \<Rightarrow> 'a list" where
  "decode_rows take_value rows =
     List.map_filter (\<lambda>(_, bytes). case decode take_value bytes of Inl _ \<Rightarrow> None | Inr x \<Rightarrow> Some x) rows"

definition decode_found :: "(string \<Rightarrow> ('a \<times> string) option) \<Rightarrow> string option \<Rightarrow> store_error + 'a option" where
  "decode_found take_value row =
     (case row of
        None \<Rightarrow> Inr None
      | Some bytes \<Rightarrow> (case decode take_value bytes of Inl e \<Rightarrow> Inl e | Inr x \<Rightarrow> Inr (Some x)))"

definition redb_register_daemon ::
  "('t, 'u) lib \<Rightarrow> bool \<Rightarrow> 'u DaemonInfo \<Rightarrow> 't RedbStore \<Rightarrow> 't RedbStore \<times> (store_error + unit)" where
  "redb_register_daemon L io info s =
     (case encode (put_daemon_id L) (di_daemon_id info) of
        Inl e \<Rightarrow> (s, Inl e)
      | Inr key \<Rightarrow>
          (case encode (put_daemon L) info of
             Inl e \<Rightarrow> (s, Inl e)
           | Inr value \<Rightarrow> commit io s (s\<lparr> tab_daemons := insert_row L key value (tab_daemons s) \<rparr>)))"

definition redb_unregister_daemon ::
  "('t, 'u) lib \<Rightarrow> bool \<Rightarrow> 'u DaemonId \<Rightarrow> 't RedbStore \<Rightarrow> 't RedbStore \<times> (store_error + unit)" where
  "redb_unregister_daemon L io d s =
     (case encode (put_daemon_id L) d of
        Inl e \<Rightarrow> (s, Inl e)
      | Inr key \<Rightarrow> commit io s (s\<lparr> tab_daemons := remove_row L key (tab_daemons s) \<rparr>))"

definition redb_list_daemons :: "('t, 'u) lib \<Rightarrow> bool \<Rightarrow> 't RedbStore \<Rightarrow> store_error + 'u DaemonInfo list" where
  "redb_list_daemons L io s = read_txn io (Inr (decode_rows (take_daemon L) (all_rows L (tab_daemons s))))"

definition redb_get_daemon ::
  "('t, 'u) lib \<Rightarrow> bool \<Rightarrow> 'u DaemonId \<Rightarrow> 't RedbStore \<Rightarrow> store_error + 'u DaemonInfo option" where
  "redb_get_daemon L io d s =
     (case encode (put_daemon_id L) d of
        Inl e \<Rightarrow> Inl e
      | Inr key \<Rightarrow> read_txn io (decode_found (take_daemon L) (get_row L (tab_daemons s) key)))"

definition redb_get_daemon_by_machine ::
  "('t, 'u) lib \<Rightarrow> bool \<Rightarrow> string \<Rightarrow> 't RedbStore \<Rightarrow> store_error + 'u DaemonId option" where
  "redb_get_daemon_by_machine L io m s =
     map_sum (\<lambda>e. e)
       (\<lambda>daemons. map_option di_daemon_id (find (\<lambda>info. matches_machine_id (di_daemon_id info) m) daemons))
       (redb_list_daemons L io s)"

definition redb_put_dataflow ::
  "('t, 'u) lib \<Rightarrow> bool \<Rightarrow> 'u DataflowRecord \<Rightarrow> 't RedbStore \<Rightarrow> 't RedbStore \<times> (store_error + unit)" where
  "redb_put_dataflow L io r s =
     (case encode (put_record L) r of
        Inl e \<Rightarrow> (s, Inl e)
      | Inr value \<Rightarrow>
          commit io s (s\<lparr> tab_dataflows := insert_row L (uuid_bytes L (rec_uuid r)) value (tab_dataflows s) \<rparr>))"

definition redb_get_dataflow ::
  "('t, 'u) lib \<Rightarrow> bool \<Rightarrow> 'u \<Rightarrow> 't RedbStore \<Rightarrow> store_error + 'u DataflowRecord option" where
  "redb_get_dataflow L io u s =
     read_txn io (decode_found (take_record L) (get_row L (tab_dataflows s) (uuid_bytes L u)))"

definition redb_list_dataflows :: "('t, 'u) lib \<Rightarrow> bool \<Rightarrow> 't RedbStore \<Rightarrow> store_error + 'u DataflowRecord list" where
  "redb_list_dataflows L io s =
     read_txn io (Inr (decode_rows (take_record L) (all_rows L (tab_dataflows s))))"

definition key_starts_with :: "string \<Rightarrow> string \<Rightarrow> bool" where
  "key_starts_with p s \<longleftrightarrow> strip_prefix p s \<noteq> None"

definition redb_delete_dataflow ::
  "('t, 'u) lib \<Rightarrow> bool \<Rightarrow> 'u \<Rightarrow> 't RedbStore \<Rightarrow> 't RedbStore \<times> (store_error + unit)" where
  "redb_delete_dataflow L io u s =
     (let param_prefix = uuid_text L u @ [NUL] in
      commit io s
        (s\<lparr> tab_dataflows := remove_row L (uuid_bytes L u) (tab_dataflows s),
            tab_params := retain_from L param_prefix (\<lambda>k _. \<not> key_starts_with param_prefix k) (tab_params s) \<rparr>))"

definition redb_put_build ::
  "('t, 'u) lib \<Rightarrow> bool \<Rightarrow> 'u BuildRecord \<Rightarrow> 't RedbStore \<Rightarrow> 't RedbStore \<times> (store_error + unit)" where
  "redb_put_build L io r s =
     (case encode (put_build L) r of
        Inl e \<Rightarrow> (s, Inl e)
      | Inr value \<Rightarrow>
          commit io s (s\<lparr> tab_builds := insert_row L (uuid_bytes L (build_id r)) value (tab_builds s) \<rparr>))"

definition redb_get_build ::
  "('t, 'u) lib \<Rightarrow> bool \<Rightarrow> 'u \<Rightarrow> 't RedbStore \<Rightarrow> store_error + 'u BuildRecord option" where
  "redb_get_build L io u s =
     read_txn io (decode_found (take_build L) (get_row L (tab_builds s) (uuid_bytes L u)))"

definition redb_list_builds :: "('t, 'u) lib \<Rightarrow> bool \<Rightarrow> 't RedbStore \<Rightarrow> store_error + 'u BuildRecord list" where
  "redb_list_builds L io s = read_txn io (Inr (decode_rows (take_build L) (all_rows L (tab_builds s))))"

definition redb_delete_build ::
  "('t, 'u) lib \<Rightarrow> bool \<Rightarrow> 'u \<Rightarrow> 't RedbStore \<Rightarrow> 't RedbStore \<times> (store_error + unit)" where
  "redb_delete_build L io u s =
     commit io s (s\<lparr> tab_builds := remove_row L (uuid_bytes L u) (tab_builds s) \<rparr>)"

subsection \<open>Parameters under composite keys\<close>

definition make_param_key :: "('t, 'u) lib \<Rightarrow> 'u \<Rightarrow> NodeId \<Rightarrow> string \<Rightarrow> store_error + string" where
  "make_param_key L u n key =
     (if NUL \<in> set (node_str n) then Inl NodeIdNull
      else if NUL \<in> set key then Inl ParamKeyNull
      else Inr (uuid_text L u @ NUL # node_str n @ NUL # key))"

definition make_param_prefix :: "('t, 'u) lib \<Rightarrow> 'u \<Rightarrow> NodeId \<Rightarrow> store_error + string" where
  "make_param_prefix L u n =
     (if NUL \<in> set (node_str n) then Inl NodeIdNull
      else Inr (uuid_text L u @ NUL # node_str n @ [NUL]))"

definition redb_put_node_param ::
  "('t, 'u) lib \<Rightarrow> bool \<Rightarrow> 'u \<Rightarrow> NodeId \<Rightarrow> string \<Rightarrow> string \<Rightarrow> 't RedbStore \<Rightarrow> 't RedbStore \<times> (store_error + unit)" where
  "redb_put_node_param L io u n key value s =
     (case validate_param_limits key value of
        Inl e \<Rightarrow> (s, Inl e)
      | Inr _ \<Rightarrow>
          (case make_param_key L u n key of
             Inl e \<Rightarrow> (s, Inl e)
           | Inr param_key \<Rightarrow> commit io s (s\<lparr> tab_params := insert_row L param_key value (tab_params s) \<rparr>)))"

definition redb_get_node_param ::
  "('t, 'u) lib \<Rightarrow> bool \<Rightarrow> 'u \<Rightarrow> NodeId \<Rightarrow> string \<Rightarrow> 't RedbStore \<Rightarrow> store_error + string option" where
  "redb_get_node_param L io u n key s =
     (case make_param_key L u n key of
        Inl e \<Rightarrow> Inl e
      | Inr param_key \<Rightarrow> read_txn io (Inr (get_row L (tab_params s) param_key)))"

fun scan_prefix :: "string \<Rightarrow> (string \<times> string) list \<Rightarrow> (string \<times> string) list" where
  "scan_prefix p [] = []"
| "scan_prefix p ((k, value) # rows) =
     (case strip_prefix p k of
        Some param_key \<Rightarrow> (param_key, value) # scan_prefix p rows
      | None \<Rightarrow> [])"

definition redb_list_node_params ::
  "('t, 'u) lib \<Rightarrow> bool \<Rightarrow> 'u \<Rightarrow> NodeId \<Rightarrow> 't RedbStore \<Rightarrow> store_error + (string \<times> string) list" where
  "redb_list_node_params L io u n s =
     (case make_param_prefix L u n of
        Inl e \<Rightarrow> Inl e
      | Inr p \<Rightarrow> read_txn io (Inr (scan_prefix p (rows_from L (tab_params s) p))))"

definition redb_delete_node_param ::
  "('t, 'u) lib \<Rightarrow> bool \<Rightarrow> 'u \<Rightarrow> NodeId \<Rightarrow> string \<Rightarrow> 't RedbStore \<Rightarrow> 't RedbStore \<times> (store_error + unit)" where
  "redb_delete_node_param L io u n key s =
     (case make_param_key L u n key of
        Inl e \<Rightarrow> (s, Inl e)
      | Inr param_key \<Rightarrow> commit io s (s\<lparr> tab_params := remove_row L param_key (tab_params s) \<rparr>))"

section \<open>What the source relies on\<close>

text \<open>A table maps byte strings to byte strings and is iterated in the order of its keys.\<close>

definition table_ok :: "('t, 'u) lib \<Rightarrow> bool" where
  "table_ok L \<longleftrightarrow>
     all_rows L (new_table L) = [] \<and>
     (\<forall>t. bm_inv (all_rows L t)) \<and>
     (\<forall>t k. get_row L t k = map_of (all_rows L t) k) \<and>
     (\<forall>t k. rows_from L t k = filter (\<lambda>(k', _). k \<le> k') (all_rows L t)) \<and>
     (\<forall>t k v. map_of (all_rows L (insert_row L k v t)) = (map_of (all_rows L t))(k \<mapsto> v)) \<and>
     (\<forall>t k. map_of (all_rows L (remove_row L k t)) = (map_of (all_rows L t))(k := None)) \<and>
     (\<forall>t k P. all_rows L (retain_from L k P t) = filter (\<lambda>(k', v). k \<le> k' \<longrightarrow> P k' v) (all_rows L t))"

lemma table_okD:
  assumes "table_ok L"
  shows "all_rows L (new_table L) = []" "bm_inv (all_rows L t)" "get_row L t k = map_of (all_rows L t) k"
    "rows_from L t k = filter (\<lambda>(k', _). k \<le> k') (all_rows L t)"
    "map_of (all_rows L (insert_row L k v t)) = (map_of (all_rows L t))(k \<mapsto> v)"
    "map_of (all_rows L (remove_row L k t)) = (map_of (all_rows L t))(k := None)"
    "all_rows L (retain_from L k P t) = filter (\<lambda>(k', v). k \<le> k' \<longrightarrow> P k' v) (all_rows L t)"
  using assms by (simp_all add: table_ok_def)

text \<open>Decoding an encoded value gives the value and nothing is left over.\<close>

definition codec_ok :: "('a \<Rightarrow> string option) \<Rightarrow> (string \<Rightarrow> ('a \<times> string) option) \<Rightarrow> bool" where
  "codec_ok put_value take_value \<longleftrightarrow> (\<forall>x bytes. put_value x = Some bytes \<longrightarrow> take_value bytes = Some (x, []))"

text \<open>Identifiers are compared by their bytes; the text of an identifier names it and has no null byte.\<close>

definition uuid_ok :: "('t, 'u::linorder) lib \<Rightarrow> bool" where
  "uuid_ok L \<longleftrightarrow>
     (\<forall>u v. u < v \<longleftrightarrow> uuid_bytes L u < uuid_bytes L v) \<and> inj (uuid_text L) \<and> (\<forall>u. NUL \<notin> set (uuid_text L u))"

definition lib_ok :: "('t, 'u::linorder) lib \<Rightarrow> bool" where
  "lib_ok L \<longleftrightarrow>
     table_ok L \<and> uuid_ok L \<and>
     (\<forall>d d' bytes. put_daemon_id L d = Some bytes \<and> put_daemon_id L d' = Some bytes \<longrightarrow> d = d') \<and>
     codec_ok (put_daemon L) (take_daemon L) \<and> codec_ok (put_record L) (take_record L) \<and>
     codec_ok (put_build L) (take_build L)"

section \<open>Ordered tables\<close>

lemma bm_inv_map_of_eq:
  assumes "bm_inv r" "bm_inv r'" "map_of r = map_of r'"
  shows "r = r'"
proof (rule map_sorted_distinct_set_unique [where f = fst])
  have *: "set r = set r'"
    using assms by (metis bm_inv_distinct map_of_eq_Some_iff set_eqI surj_pair)
  show "inj_on fst (set r \<union> set r')"
    using assms(1) by (auto simp: * [symmetric] dest!: bm_inv_distinct simp: distinct_map)
  show "sorted (map fst r)" "distinct (map fst r)" "sorted (map fst r')" "distinct (map fst r')"
    using assms by (simp_all add: bm_inv_def strict_sorted_iff)
  show "set r = set r'" by (fact *)
qed

lemma bm_inv_mapped:
  assumes "bm_inv r" and "\<And>x y. x \<in> set r \<Longrightarrow> y \<in> set r \<Longrightarrow> fst x < fst y \<Longrightarrow> fst (f x) < fst (f y)"
  shows "bm_inv (map f r)"
  using assms unfolding bm_inv_def by (induction r) auto

text \<open>A range scan that stops at the first key without the property finds all keys with it, if they lie
  together and none is below the key where the scan starts.\<close>

lemma range_scan:
  assumes "bm_inv r" and start: "\<And>k. P k \<Longrightarrow> a \<le> k"
    and together: "\<And>k k'. a \<le> k \<Longrightarrow> \<not> P k \<Longrightarrow> k < k' \<Longrightarrow> \<not> P k'"
  shows "takeWhile (P \<circ> fst) (filter (\<lambda>(k, _). a \<le> k) r) = filter (P \<circ> fst) r"
  using assms(1)
proof (induction r)
  case (Cons x r)
  have above: "fst x < k" if "(k, v) \<in> set r" for k v
    using Cons.prems that by (force simp: bm_inv_def)
  consider "P (fst x)" | "\<not> P (fst x)" "a \<le> fst x" | "\<not> P (fst x)" "\<not> a \<le> fst x" by blast
  then show ?case
  proof cases
    case 2
    then have "\<not> P k" if "(k, v) \<in> set r" for k v using together above that by blast
    then have "filter (\<lambda>y. P (fst y)) r = []" by (auto simp: filter_empty_conv)
    with 2 show ?thesis by (cases x) (simp add: comp_def)
  qed (use Cons start in \<open>auto simp: bm_inv_def case_prod_beta\<close>)
qed simp

lemma prefix_le: "strip_prefix p k = Some r \<Longrightarrow> p \<le> (k :: string)"
proof (induction p k rule: strip_prefix.induct)
qed (auto split: if_splits)

lemma prefixes_together:
  "p \<le> (k :: string) \<Longrightarrow> strip_prefix p k = None \<Longrightarrow> k < k' \<Longrightarrow> strip_prefix p k' = None"
proof (induction p k arbitrary: k' rule: strip_prefix.induct)
  case (3 c p d s)
  then show ?case by (cases k') (auto split: if_splits)
qed auto

lemma strip_prefix_append [simp]: "strip_prefix p (p @ r) = Some r"
  by (simp add: strip_prefix_Some_iff)

lemma append_less_iff [simp]: "p @ a < p @ b \<longleftrightarrow> a < (b :: string)"
  by (induction p) auto

lemma scan_prefix_filter:
  "scan_prefix p rows =
     map (\<lambda>(k, v). (the (strip_prefix p k), v)) (takeWhile ((\<lambda>k. strip_prefix p k \<noteq> None) \<circ> fst) rows)"
  by (induction p rows rule: scan_prefix.induct) (auto split: option.splits)

section \<open>A table of the database and a map of the in-memory store\<close>

definition tab_rel ::
  "('k \<Rightarrow> string option) \<Rightarrow> ('v \<Rightarrow> string option) \<Rightarrow> (string \<times> string) list \<Rightarrow> ('k \<times> 'v) list \<Rightarrow> bool" where
  "tab_rel kenc venc rows m \<longleftrightarrow>
     (\<forall>k v. map_of m k = Some v \<longrightarrow> (\<exists>b w. kenc k = Some b \<and> venc v = Some w \<and> map_of rows b = Some w)) \<and>
     (\<forall>b w. map_of rows b = Some w \<longrightarrow> (\<exists>k v. kenc k = Some b \<and> map_of m k = Some v))"

definition key_inj :: "('k \<Rightarrow> string option) \<Rightarrow> bool" where
  "key_inj kenc \<longleftrightarrow> (\<forall>k k' b. kenc k = Some b \<and> kenc k' = Some b \<longrightarrow> k = k')"

lemma tab_rel_empty: "tab_rel kenc venc [] []"
  by (simp add: tab_rel_def)

lemma tab_relD:
  "tab_rel kenc venc rows m \<Longrightarrow> map_of m k = Some v \<Longrightarrow>
     \<exists>b w. kenc k = Some b \<and> venc v = Some w \<and> map_of rows b = Some w"
  "tab_rel kenc venc rows m \<Longrightarrow> map_of rows b = Some w \<Longrightarrow> \<exists>k v. kenc k = Some b \<and> map_of m k = Some v"
  unfolding tab_rel_def by blast+

lemma key_injD: "key_inj kenc \<Longrightarrow> kenc k = Some b \<Longrightarrow> kenc k' = Some b \<Longrightarrow> k = k'"
  unfolding key_inj_def by blast

lemma tab_rel_insert:
  assumes rel: "tab_rel kenc venc rows m" and inj: "key_inj kenc" and k: "kenc k = Some b" "venc v = Some w"
    and upd: "map_of rows' = (map_of rows)(b \<mapsto> w)" "map_of m' = (map_of m)(k \<mapsto> v)"
  shows "tab_rel kenc venc rows' m'"
  unfolding tab_rel_def
proof (intro conjI allI impI)
  fix k' v' assume "map_of m' k' = Some v'"
  then consider "k' = k" "v' = v" | "k' \<noteq> k" "map_of m k' = Some v'" by (auto simp: upd split: if_splits)
  then show "\<exists>b w. kenc k' = Some b \<and> venc v' = Some w \<and> map_of rows' b = Some w"
  proof cases
    case 2
    with tab_relD(1) [OF rel] obtain b' w' where
      "kenc k' = Some b'" "venc v' = Some w'" "map_of rows b' = Some w'" by blast
    moreover from this 2(1) k(1) key_injD [OF inj] have "b' \<noteq> b" by blast
    ultimately show ?thesis by (simp add: upd)
  qed (simp add: k upd)
next
  fix b' w' assume "map_of rows' b' = Some w'"
  then consider "b' = b" | "b' \<noteq> b" "map_of rows b' = Some w'" by (auto simp: upd split: if_splits)
  then show "\<exists>k v. kenc k = Some b' \<and> map_of m' k = Some v"
  proof cases
    case 2
    with tab_relD(2) [OF rel] obtain k' v' where "kenc k' = Some b'" "map_of m k' = Some v'" by blast
    moreover from this 2(1) k(1) have "k' \<noteq> k" by auto
    ultimately show ?thesis by (metis upd(2) fun_upd_other)
  qed (use k upd in auto)
qed

lemma tab_rel_remove:
  assumes rel: "tab_rel kenc venc rows m" and inj: "key_inj kenc" and k: "kenc k = Some b"
    and upd: "map_of rows' = (map_of rows)(b := None)" "map_of m' = (map_of m)(k := None)"
  shows "tab_rel kenc venc rows' m'"
  unfolding tab_rel_def
proof (intro conjI allI impI)
  fix k' v' assume "map_of m' k' = Some v'"
  then have "k' \<noteq> k" "map_of m k' = Some v'" by (auto simp: upd split: if_splits)
  moreover from this tab_relD(1) [OF rel] obtain b' w' where
    "kenc k' = Some b'" "venc v' = Some w'" "map_of rows b' = Some w'" by blast
  moreover from this calculation(1) k key_injD [OF inj] have "b' \<noteq> b" by blast
  ultimately show "\<exists>b w. kenc k' = Some b \<and> venc v' = Some w \<and> map_of rows' b = Some w" by (simp add: upd)
next
  fix b' w' assume "map_of rows' b' = Some w'"
  then have "b' \<noteq> b" "map_of rows b' = Some w'" by (auto simp: upd split: if_splits)
  moreover from this tab_relD(2) [OF rel] obtain k' v' where "kenc k' = Some b'" "map_of m k' = Some v'" by blast
  moreover from this calculation(1) k have "k' \<noteq> k" by auto
  ultimately show "\<exists>k v. kenc k = Some b' \<and> map_of m' k = Some v" by (metis upd(2) fun_upd_other)
qed

lemma tab_rel_get:
  assumes "tab_rel kenc venc rows m" "key_inj kenc" "kenc k = Some b"
  shows "map_of rows b = (case map_of m k of None \<Rightarrow> None | Some v \<Rightarrow> venc v)"
proof (cases "map_of m k")
  case None
  then have "map_of rows b = None"
    using assms unfolding tab_rel_def key_inj_def by (metis not_Some_eq)
  with None show ?thesis by simp
next
  case (Some v)
  with assms(1) obtain b' w where "kenc k = Some b'" "venc v = Some w" "map_of rows b' = Some w"
    unfolding tab_rel_def by blast
  with assms(3) Some show ?thesis by simp
qed

lemma map_of_filter_keys: "map_of (filter (\<lambda>(k, v). P k) m) k = (if P k then map_of m k else None)"
  by (induction m) auto

lemma tab_rel_filter:
  assumes rel: "tab_rel kenc venc rows m" and same: "\<And>k b. kenc k = Some b \<Longrightarrow> Q b \<longleftrightarrow> P k"
  shows "tab_rel kenc venc (filter (\<lambda>(b, _). Q b) rows) (filter (\<lambda>(k, _). P k) m)"
  unfolding tab_rel_def map_of_filter_keys
proof (intro conjI allI impI)
  fix k v assume "(if P k then map_of m k else None) = Some v"
  then have "P k" "map_of m k = Some v" by (auto split: if_splits)
  with tab_relD(1) [OF rel] same
  show "\<exists>b w. kenc k = Some b \<and> venc v = Some w \<and> (if Q b then map_of rows b else None) = Some w" by fastforce
next
  fix b w assume "(if Q b then map_of rows b else None) = Some w"
  then have "Q b" "map_of rows b = Some w" by (auto split: if_splits)
  with tab_relD(2) [OF rel] same
  show "\<exists>k v. kenc k = Some b \<and> (if P k then map_of m k else None) = Some v" by fastforce
qed

text \<open>Everything in a table decodes to what was put there.\<close>

lemma tab_rel_row:
  assumes "tab_rel kenc venc rows m" "key_inj kenc" "(b, w) \<in> set rows" "distinct (map fst rows)"
  shows "\<exists>k v. kenc k = Some b \<and> venc v = Some w \<and> map_of m k = Some v"
proof -
  from assms(3,4) have "map_of rows b = Some w" by simp
  with assms(1) obtain k v where kv: "kenc k = Some b" "map_of m k = Some v" unfolding tab_rel_def by blast
  with assms(1) obtain b' w' where "kenc k = Some b'" "venc v = Some w'" "map_of rows b' = Some w'"
    unfolding tab_rel_def by blast
  with kv \<open>map_of rows b = Some w\<close> show ?thesis by auto
qed

abbreviation encoded :: "('a \<Rightarrow> string option) \<Rightarrow> 'a \<Rightarrow> string option" where
  "encoded put_value x \<equiv> (case encode put_value x of Inl _ \<Rightarrow> None | Inr bytes \<Rightarrow> Some bytes)"

lemma decode_encoded:
  "codec_ok put_value take_value \<Longrightarrow> encoded put_value x = Some bytes \<Longrightarrow> decode take_value bytes = Inr x"
  by (auto simp: encode_def decode_def message_decode_def codec_ok_def split: option.splits if_splits sum.splits)

lemma decode_found_get:
  assumes "tab_rel kenc (encoded put_value) rows m" "key_inj kenc" "kenc k = Some b" "codec_ok put_value take_value"
  shows "decode_found take_value (map_of rows b) = Inr (map_of m k)"
proof (cases "map_of m k")
  case None
  then show ?thesis using tab_rel_get [OF assms(1-3)] by (simp add: decode_found_def)
next
  case (Some v)
  with assms(1,3) obtain w where "encoded put_value v = Some w" "map_of rows b = Some w"
    unfolding tab_rel_def by fastforce
  with decode_encoded [OF assms(4)] Some show ?thesis by (simp add: decode_found_def)
qed

lemma decode_rows_set:
  assumes rel: "tab_rel kenc (encoded put_value) rows m" "key_inj kenc" and "codec_ok put_value take_value"
    and "distinct (map fst rows)" "distinct (map fst m)"
  shows "set (decode_rows take_value rows) = snd ` set m"
proof (intro equalityI subsetI)
  fix x assume "x \<in> set (decode_rows take_value rows)"
  then obtain b w where "(b, w) \<in> set rows" "decode take_value w = Inr x"
    by (fastforce simp: decode_rows_def map_filter_def split: sum.splits)
  with tab_rel_row [OF rel \<open>(b, w) \<in> set rows\<close> assms(4)] decode_encoded [OF assms(3)]
  obtain k where "map_of m k = Some x" by fastforce
  then show "x \<in> snd ` set m" by (force dest: map_of_SomeD)
next
  fix x assume "x \<in> snd ` set m"
  then obtain k where "map_of m k = Some x" using assms(5) by (force simp: map_of_eq_Some_iff)
  with rel(1) obtain b w where w: "encoded put_value x = Some w" "map_of rows b = Some w"
    unfolding tab_rel_def by blast
  then show "x \<in> set (decode_rows take_value rows)"
    using decode_encoded [OF assms(3) w(1)] map_of_SomeD [OF w(2)]
    by (force simp: decode_rows_def map_filter_def)
qed

lemma decode_rows_ordered:
  assumes rel: "tab_rel (\<lambda>u. Some (key u)) (encoded put_value) rows m" and "codec_ok put_value take_value"
    and inv: "bm_inv rows" "bm_inv m" and mono: "\<And>u v. u < v \<longleftrightarrow> key u < key v"
  shows "decode_rows take_value rows = map snd m"
proof -
  let ?f = "\<lambda>(u, x). (key u, the (encoded put_value x))"
  have inj: "key u = key v \<longleftrightarrow> u = v" for u v using mono [of u v] mono [of v u] by (metis neq_iff)
  have enc: "encoded put_value x \<noteq> None" if "(u, x) \<in> set m" for u x
    using rel bm_inv_distinct [OF inv(2)] that unfolding tab_rel_def by (force simp: map_of_eq_Some_iff)
  have on: "map_of (map ?f m) (key u) = map_of rows (key u)" for u
  proof -
    have "map_of (map ?f m) (key u) = map_option (\<lambda>x. the (encoded put_value x)) (map_of m u)"
      by (induction m) (auto simp: inj)
    moreover have "map_of rows (key u) = (case map_of m u of None \<Rightarrow> None | Some v \<Rightarrow> encoded put_value v)"
      by (rule tab_rel_get [OF rel]) (auto simp: key_inj_def inj)
    moreover have "encoded put_value v \<noteq> None" if "map_of m u = Some v" for v
      using enc map_of_SomeD [OF that] by blast
    ultimately show ?thesis by (auto split: option.splits)
  qed
  have off: "map_of (map ?f m) b = None \<and> map_of rows b = None" if "b \<notin> range key" for b
  proof
    show "map_of (map ?f m) b = None" using that by (auto simp: map_of_eq_None_iff)
    show "map_of rows b = None" using rel that unfolding tab_rel_def by (cases "map_of rows b") auto
  qed
  have "map_of (map ?f m) = map_of rows"
  proof
    show "map_of (map ?f m) b = map_of rows b" for b using on off [of b] by (cases "b \<in> range key") auto
  qed
  moreover have "bm_inv (map ?f m)" by (rule bm_inv_mapped [OF inv(2)]) (auto simp: mono)
  ultimately have "rows = map ?f m" using bm_inv_map_of_eq [OF inv(1)] by simp
  moreover have "decode_rows take_value (map ?f xs) = map snd xs" if "set xs \<subseteq> set m" for xs
    using that
  proof (induction xs)
    case (Cons x xs)
    then obtain w where "encoded put_value (snd x) = Some w" using enc [of "fst x" "snd x"] by auto
    with Cons decode_encoded [OF assms(2)] show ?case
      by (auto simp: decode_rows_def map_filter_def split_beta)
  qed (simp add: decode_rows_def map_filter_def)
  ultimately show ?thesis by simp
qed

section \<open>Composite keys\<close>

definition param_key :: "('t, 'u) lib \<Rightarrow> 'u ParamKey \<Rightarrow> string option" where
  "param_key L = (\<lambda>(u, n, k). case make_param_key L u n k of Inl _ \<Rightarrow> None | Inr b \<Rightarrow> Some b)"

lemma param_key_Some_iff:
  "param_key L (u, n, k) = Some b \<longleftrightarrow>
     NUL \<notin> set (node_str n) \<and> NUL \<notin> set k \<and> b = uuid_text L u @ NUL # node_str n @ NUL # k"
  by (auto simp: param_key_def make_param_key_def)

lemma first_part: "(c :: char) \<notin> set a \<Longrightarrow> c \<notin> set a' \<Longrightarrow> a @ c # b = a' @ c # b' \<longleftrightarrow> a = a' \<and> b = b'"
  by (metis option.inject prod.inject split_once_append)

lemma key_inj_param: "lib_ok L \<Longrightarrow> key_inj (param_key L)"
  by (auto simp: key_inj_def param_key_Some_iff first_part lib_ok_def uuid_ok_def NodeId.expand dest: injD)

lemma key_prefix_uuid:
  assumes "lib_ok L" "param_key L (v, n, k) = Some b"
  shows "key_starts_with (uuid_text L u @ [NUL]) b \<longleftrightarrow> v = u"
proof -
  have "key_starts_with (uuid_text L u @ [NUL]) b \<longleftrightarrow> (\<exists>r. b = uuid_text L u @ NUL # r)"
    by (auto simp: key_starts_with_def strip_prefix_Some_iff)
  with assms show ?thesis
    by (auto simp: param_key_Some_iff first_part lib_ok_def uuid_ok_def dest: injD)
qed

text \<open>Both backends list the parameters of a node in the order of their names.\<close>

lemma mem_list_exact:
  assumes "bm_inv (mem_params s)"
  shows "\<exists>ps. mem_list_node_params u n s = Inr ps \<and> bm_inv ps \<and>
    map_of ps = (\<lambda>k. map_of (mem_params s) (u, n, k))"
proof (intro exI conjI)
  let ?P = "\<lambda>(df, nid, _ :: string). df = u \<and> nid = n"
  let ?ps = "map (\<lambda>((_, _, key), value). (key, value)) (filter (?P \<circ> fst) (mem_params s))"
  have "takeWhile (?P \<circ> fst) (filter (\<lambda>(k, _). (u, n, []) \<le> k) (mem_params s)) = filter (?P \<circ> fst) (mem_params s)"
    by (rule range_scan [OF assms]) (auto simp: less_eq_prod_def less_prod_def)
  moreover have "(\<lambda>((df, nid, _), _). df = u \<and> nid = n) = ?P \<circ> fst" by auto
  ultimately show "mem_list_node_params u n s = Inr ?ps"
    unfolding mem_list_node_params_def by metis
  show "bm_inv ?ps"
    by (rule bm_inv_mapped [OF bm_inv_filter [OF assms]]) (auto simp: less_prod_def)
  have "map_of (map (\<lambda>((_, _, key), value). (key, value)) (filter (?P \<circ> fst) m)) k = map_of m (u, n, k)" for m k
    by (induction m) auto
  then show "map_of ?ps = (\<lambda>k. map_of (mem_params s) (u, n, k))" by blast
qed

lemma redb_list_exact:
  assumes "table_ok L" "make_param_prefix L u n = Inr p"
  shows "\<exists>ps. redb_list_node_params L True u n s = Inr ps \<and> bm_inv ps \<and>
    map_of ps = (\<lambda>k. map_of (all_rows L (tab_params s)) (p @ k))"
proof (intro exI conjI)
  let ?r = "all_rows L (tab_params s)"
  let ?P = "\<lambda>k. strip_prefix p k \<noteq> None"
  let ?ps = "map (\<lambda>(k, v). (the (strip_prefix p k), v)) (filter (?P \<circ> fst) ?r)"
  have inv: "bm_inv ?r" by (rule table_okD(2) [OF assms(1)])
  have "takeWhile (?P \<circ> fst) (filter (\<lambda>(k, _). p \<le> k) ?r) = filter (?P \<circ> fst) ?r"
  proof (rule range_scan [OF inv])
    show "p \<le> k" if "?P k" for k using that prefix_le [of p k] by fast
    show "\<not> ?P k'" if "p \<le> k" "\<not> ?P k" "k < k'" for k k' using prefixes_together [of p k k'] that by simp
  qed
  then show "redb_list_node_params L True u n s = Inr ?ps"
    by (simp add: redb_list_node_params_def read_txn_def scan_prefix_filter assms(2) table_okD(4) [OF assms(1)])
  show "bm_inv ?ps"
  proof (rule bm_inv_mapped [OF bm_inv_filter [OF inv]])
    fix x y assume "x \<in> set (filter (?P \<circ> fst) ?r)" "y \<in> set (filter (?P \<circ> fst) ?r)" "fst x < fst y"
    then obtain a b where "strip_prefix p (fst x) = Some a" "strip_prefix p (fst y) = Some b" by auto
    moreover from this have "fst x = p @ a" "fst y = p @ b" by (simp_all only: strip_prefix_Some_iff)
    ultimately show "fst (case x of (k, v) \<Rightarrow> (the (strip_prefix p k), v)) <
        fst (case y of (k, v) \<Rightarrow> (the (strip_prefix p k), v))"
      using \<open>fst x < fst y\<close> by (simp add: split_beta)
  qed
  have "map_of (map (\<lambda>(k, v). (the (strip_prefix p k), v)) (filter (?P \<circ> fst) m)) k = map_of m (p @ k)" for m k
  proof (induction m)
    case (Cons x m)
    show ?case
    proof (cases "strip_prefix p (fst x)")
      case None
      then have "fst x \<noteq> p @ k" by (metis option.distinct(1) strip_prefix_append)
      with None Cons show ?thesis by (cases x) simp
    next
      case (Some a)
      then have "fst x = p @ a" by (simp only: strip_prefix_Some_iff)
      with Some Cons show ?thesis by (cases x) simp
    qed
  qed simp
  then show "map_of ?ps = (\<lambda>k. map_of ?r (p @ k))" by blast
qed

lemma list_params_agree:
  assumes "lib_ok L" "tab_rel (param_key L) Some (all_rows L (tab_params r)) (mem_params m)" "bm_inv (mem_params m)"
    and "NUL \<notin> set (node_str n)"
  shows "redb_list_node_params L True u n r = mem_list_node_params u n m"
proof -
  let ?p = "uuid_text L u @ NUL # node_str n @ [NUL]"
  from assms(4) have p: "make_param_prefix L u n = Inr ?p" by (simp add: make_param_prefix_def)
  from assms(1) have "table_ok L" by (simp add: lib_ok_def)
  from redb_list_exact [OF this p, of r] obtain ps where ps: "redb_list_node_params L True u n r = Inr ps" "bm_inv ps"
    "map_of ps = (\<lambda>k. map_of (all_rows L (tab_params r)) (?p @ k))" by blast
  from mem_list_exact [OF assms(3), of u n] obtain qs where qs: "mem_list_node_params u n m = Inr qs" "bm_inv qs"
    "map_of qs = (\<lambda>k. map_of (mem_params m) (u, n, k))" by blast
  have "map_of (all_rows L (tab_params r)) (?p @ k) = map_of (mem_params m) (u, n, k)" for k
  proof (cases "NUL \<in> set k")
    case False
    with assms(4) have "param_key L (u, n, k) = Some (?p @ k)" by (simp add: param_key_Some_iff)
    from tab_rel_get [OF assms(2) key_inj_param [OF assms(1)] this] show ?thesis by (simp split: option.splits)
  next
    case True
    have "map_of (mem_params m) (u, n, k) = None"
      using tab_relD(1) [OF assms(2), of "(u, n, k)"] True by (cases "map_of (mem_params m) (u, n, k)") (auto simp: param_key_Some_iff)
    moreover have "map_of (all_rows L (tab_params r)) (?p @ k) = None"
    proof (rule ccontr)
      assume "\<not> ?thesis"
      then obtain w where "map_of (all_rows L (tab_params r)) (?p @ k) = Some w" by blast
      from tab_relD(2) [OF assms(2) this] obtain v n' k' where "param_key L (v, n', k') = Some (?p @ k)" by auto
      with assms(1,4) True show False
        by (auto simp: param_key_Some_iff lib_ok_def uuid_ok_def first_part)
    qed
    ultimately show ?thesis by simp
  qed
  with ps qs have "ps = qs" by (intro bm_inv_map_of_eq) auto
  with ps qs show ?thesis by simp
qed

section \<open>The database refines the in-memory store\<close>

datatype 'u store_op =
    RegisterDaemon "'u DaemonInfo"
  | UnregisterDaemon "'u DaemonId"
  | ListDaemons
  | GetDaemon "'u DaemonId"
  | GetDaemonByMachine string
  | PutDataflow "'u DataflowRecord"
  | GetDataflow 'u
  | ListDataflows
  | DeleteDataflow 'u
  | PutBuild "'u BuildRecord"
  | GetBuild 'u
  | ListBuilds
  | DeleteBuild 'u
  | PutNodeParam 'u NodeId string string
  | GetNodeParam 'u NodeId string
  | ListNodeParams 'u NodeId
  | DeleteNodeParam 'u NodeId string

datatype 'u store_reply =
    Done
  | DaemonsReply "'u DaemonInfo list"
  | DaemonReply "'u DaemonInfo option"
  | DaemonIdReply "'u DaemonId option"
  | DataflowReply "'u DataflowRecord option"
  | DataflowsReply "'u DataflowRecord list"
  | BuildReply "'u BuildRecord option"
  | BuildsReply "'u BuildRecord list"
  | ParamReply "string option"
  | ParamsReply "(string \<times> string) list"

abbreviation reply :: "('a \<Rightarrow> 'u store_reply) \<Rightarrow> store_error + 'a \<Rightarrow> store_error + 'u store_reply" where
  "reply f \<equiv> map_sum (\<lambda>e. e) f"

fun mem_exec :: "'u::linorder store_op \<Rightarrow> 'u InMemoryStore \<Rightarrow> 'u InMemoryStore \<times> (store_error + 'u store_reply)" where
  "mem_exec (RegisterDaemon info) s = (mem_register_daemon info s, Inr Done)"
| "mem_exec (UnregisterDaemon d) s = (mem_unregister_daemon d s, Inr Done)"
| "mem_exec ListDaemons s = (s, Inr (DaemonsReply (mem_list_daemons s)))"
| "mem_exec (GetDaemon d) s = (s, Inr (DaemonReply (mem_get_daemon d s)))"
| "mem_exec (GetDaemonByMachine m) s = (s, Inr (DaemonIdReply (mem_get_daemon_by_machine m s)))"
| "mem_exec (PutDataflow r) s = (mem_put_dataflow r s, Inr Done)"
| "mem_exec (GetDataflow u) s = (s, Inr (DataflowReply (mem_get_dataflow u s)))"
| "mem_exec ListDataflows s = (s, Inr (DataflowsReply (mem_list_dataflows s)))"
| "mem_exec (DeleteDataflow u) s = (mem_delete_dataflow u s, Inr Done)"
| "mem_exec (PutBuild r) s = (mem_put_build r s, Inr Done)"
| "mem_exec (GetBuild u) s = (s, Inr (BuildReply (mem_get_build u s)))"
| "mem_exec ListBuilds s = (s, Inr (BuildsReply (mem_list_builds s)))"
| "mem_exec (DeleteBuild u) s = (mem_delete_build u s, Inr Done)"
| "mem_exec (PutNodeParam u n k v) s = apsnd (reply (\<lambda>_. Done)) (mem_put_node_param u n k v s)"
| "mem_exec (GetNodeParam u n k) s = (s, reply ParamReply (mem_get_node_param u n k s))"
| "mem_exec (ListNodeParams u n) s = (s, reply ParamsReply (mem_list_node_params u n s))"
| "mem_exec (DeleteNodeParam u n k) s = apsnd (reply (\<lambda>_. Done)) (mem_delete_node_param u n k s)"

fun redb_exec ::
  "('t, 'u) lib \<Rightarrow> bool \<Rightarrow> 'u store_op \<Rightarrow> 't RedbStore \<Rightarrow> 't RedbStore \<times> (store_error + 'u store_reply)" where
  "redb_exec L io (RegisterDaemon info) s = apsnd (reply (\<lambda>_. Done)) (redb_register_daemon L io info s)"
| "redb_exec L io (UnregisterDaemon d) s = apsnd (reply (\<lambda>_. Done)) (redb_unregister_daemon L io d s)"
| "redb_exec L io ListDaemons s = (s, reply DaemonsReply (redb_list_daemons L io s))"
| "redb_exec L io (GetDaemon d) s = (s, reply DaemonReply (redb_get_daemon L io d s))"
| "redb_exec L io (GetDaemonByMachine m) s = (s, reply DaemonIdReply (redb_get_daemon_by_machine L io m s))"
| "redb_exec L io (PutDataflow r) s = apsnd (reply (\<lambda>_. Done)) (redb_put_dataflow L io r s)"
| "redb_exec L io (GetDataflow u) s = (s, reply DataflowReply (redb_get_dataflow L io u s))"
| "redb_exec L io ListDataflows s = (s, reply DataflowsReply (redb_list_dataflows L io s))"
| "redb_exec L io (DeleteDataflow u) s = apsnd (reply (\<lambda>_. Done)) (redb_delete_dataflow L io u s)"
| "redb_exec L io (PutBuild r) s = apsnd (reply (\<lambda>_. Done)) (redb_put_build L io r s)"
| "redb_exec L io (GetBuild u) s = (s, reply BuildReply (redb_get_build L io u s))"
| "redb_exec L io ListBuilds s = (s, reply BuildsReply (redb_list_builds L io s))"
| "redb_exec L io (DeleteBuild u) s = apsnd (reply (\<lambda>_. Done)) (redb_delete_build L io u s)"
| "redb_exec L io (PutNodeParam u n k v) s = apsnd (reply (\<lambda>_. Done)) (redb_put_node_param L io u n k v s)"
| "redb_exec L io (GetNodeParam u n k) s = (s, reply ParamReply (redb_get_node_param L io u n k s))"
| "redb_exec L io (ListNodeParams u n) s = (s, reply ParamsReply (redb_list_node_params L io u n s))"
| "redb_exec L io (DeleteNodeParam u n k) s = apsnd (reply (\<lambda>_. Done)) (redb_delete_node_param L io u n k s)"

text \<open>Replies agree up to the order in which daemons are listed.\<close>

fun same_reply :: "'u store_reply \<Rightarrow> 'u store_reply \<Rightarrow> bool" where
  "same_reply (DaemonsReply a) (DaemonsReply b) \<longleftrightarrow> set a = set b"
| "same_reply (DaemonIdReply a) (DaemonIdReply b) \<longleftrightarrow>
     (case (a, b) of
        (None, None) \<Rightarrow> True
      | (Some d, Some d') \<Rightarrow> machine_id d = machine_id d'
      | _ \<Rightarrow> False)"
| "same_reply a b \<longleftrightarrow> a = b"

text \<open>What only the database refuses: a record that is too large or cannot be encoded, and a null byte in a part
  of a composite key.\<close>

fun redb_rejects :: "('t, 'u) lib \<Rightarrow> 'u store_op \<Rightarrow> store_error \<Rightarrow> bool" where
  "redb_rejects L (RegisterDaemon info) e \<longleftrightarrow>
     encode (put_daemon_id L) (di_daemon_id info) = Inl e \<or> encode (put_daemon L) info = Inl e"
| "redb_rejects L (UnregisterDaemon d) e \<longleftrightarrow> encode (put_daemon_id L) d = Inl e"
| "redb_rejects L (GetDaemon d) e \<longleftrightarrow> encode (put_daemon_id L) d = Inl e"
| "redb_rejects L (PutDataflow r) e \<longleftrightarrow> encode (put_record L) r = Inl e"
| "redb_rejects L (PutBuild r) e \<longleftrightarrow> encode (put_build L) r = Inl e"
| "redb_rejects L (PutNodeParam u n k v) e \<longleftrightarrow> NUL \<in> set (node_str n) \<and> e = NodeIdNull"
| "redb_rejects L (GetNodeParam u n k) e \<longleftrightarrow>
     NUL \<in> set (node_str n) \<and> e = NodeIdNull \<or> NUL \<in> set k \<and> e = ParamKeyNull"
| "redb_rejects L (ListNodeParams u n) e \<longleftrightarrow> NUL \<in> set (node_str n) \<and> e = NodeIdNull"
| "redb_rejects L (DeleteNodeParam u n k) e \<longleftrightarrow>
     NUL \<in> set (node_str n) \<and> e = NodeIdNull \<or> NUL \<in> set k \<and> e = ParamKeyNull"
| "redb_rejects L _ e \<longleftrightarrow> False"

definition store_rel :: "('t, 'u::linorder) lib \<Rightarrow> 't RedbStore \<Rightarrow> 'u InMemoryStore \<Rightarrow> bool" where
  "store_rel L r m \<longleftrightarrow>
     tab_rel (encoded (put_daemon_id L)) (encoded (put_daemon L)) (all_rows L (tab_daemons r)) (mem_daemons m) \<and>
     tab_rel (\<lambda>u. Some (uuid_bytes L u)) (encoded (put_record L)) (all_rows L (tab_dataflows r)) (mem_dataflows m) \<and>
     tab_rel (\<lambda>u. Some (uuid_bytes L u)) (encoded (put_build L)) (all_rows L (tab_builds r)) (mem_builds m) \<and>
     tab_rel (param_key L) Some (all_rows L (tab_params r)) (mem_params m) \<and>
     bm_inv (mem_daemons m) \<and> bm_inv (mem_dataflows m) \<and> bm_inv (mem_builds m) \<and> bm_inv (mem_params m) \<and>
     (\<forall>(d, info)\<in>set (mem_daemons m). di_daemon_id info = d)"

text \<open>One operation: an error leaves the database as it was and is one of its own or the one of the in-memory
  store; otherwise the replies agree and the states remain related.\<close>

definition step_ok :: "('t, 'u::linorder) lib \<Rightarrow> bool \<Rightarrow> 'u store_op \<Rightarrow> 't RedbStore \<Rightarrow> 'u InMemoryStore \<Rightarrow> bool" where
  "step_ok L io oper r m \<longleftrightarrow>
     (case redb_exec L io oper r of
        (r', Inl e) \<Rightarrow>
          r' = r \<and> (\<not> io \<and> e = StorageFailed \<or> redb_rejects L oper e \<or> snd (mem_exec oper m) = Inl e)
      | (r', Inr y) \<Rightarrow>
          (case mem_exec oper m of
             (m', Inl _) \<Rightarrow> False
           | (m', Inr y') \<Rightarrow> same_reply y y' \<and> store_rel L r' m'))"

lemma store_rel_new: "lib_ok L \<Longrightarrow> store_rel L (redb_new L) mem_new"
  by (simp add: store_rel_def redb_new_def mem_new_def lib_ok_def table_okD tab_rel_empty bm_inv_def)

lemma set_bm_insert_subset: "set (bm_insert k v m) \<subseteq> insert (k, v) (set m)"
  by (induction k v m rule: bm_insert.induct) auto

lemma key_inj_uuid: "lib_ok L \<Longrightarrow> key_inj (\<lambda>u. Some (uuid_bytes L u))"
  unfolding key_inj_def lib_ok_def uuid_ok_def by (metis neq_iff option.inject)

lemma encoded_Some_iff: "encoded put_value x = Some b \<longleftrightarrow> encode put_value x = Inr b"
  by (simp split: sum.splits)

lemma encode_Inr: "encode put_value x = Inr b \<Longrightarrow> put_value x = Some b"
  by (simp add: encode_def split: option.splits if_splits)

lemma key_inj_daemon: "lib_ok L \<Longrightarrow> key_inj (encoded (put_daemon_id L))"
  unfolding key_inj_def lib_ok_def encoded_Some_iff by (blast dest: encode_Inr)

lemma lib_okD:
  assumes "lib_ok L"
  shows "table_ok L" "codec_ok (put_daemon L) (take_daemon L)" "codec_ok (put_record L) (take_record L)"
    "codec_ok (put_build L) (take_build L)" "u < v \<longleftrightarrow> uuid_bytes L u < uuid_bytes L v"
  using assms by (auto simp: lib_ok_def uuid_ok_def)

lemma store_relD:
  assumes "store_rel L r m"
  shows "tab_rel (encoded (put_daemon_id L)) (encoded (put_daemon L)) (all_rows L (tab_daemons r)) (mem_daemons m)"
    "tab_rel (\<lambda>u. Some (uuid_bytes L u)) (encoded (put_record L)) (all_rows L (tab_dataflows r)) (mem_dataflows m)"
    "tab_rel (\<lambda>u. Some (uuid_bytes L u)) (encoded (put_build L)) (all_rows L (tab_builds r)) (mem_builds m)"
    "tab_rel (param_key L) Some (all_rows L (tab_params r)) (mem_params m)"
    "bm_inv (mem_daemons m)" "bm_inv (mem_dataflows m)" "bm_inv (mem_builds m)" "bm_inv (mem_params m)"
    "\<forall>(d, info)\<in>set (mem_daemons m). di_daemon_id info = d"
  using assms unfolding store_rel_def by simp_all

lemma register_step:
  assumes lib: "lib_ok L" and rel: "store_rel L r m"
  shows "step_ok L io (RegisterDaemon info) r m"
proof (cases "encode (put_daemon_id L) (di_daemon_id info)")
  case key: (Inr key)
  show ?thesis
  proof (cases "encode (put_daemon L) info")
    case bytes: (Inr bytes)
    have "tab_rel (encoded (put_daemon_id L)) (encoded (put_daemon L))
        (all_rows L (insert_row L key bytes (tab_daemons r))) (bm_insert (di_daemon_id info) info (mem_daemons m))"
      by (rule tab_rel_insert [OF store_relD(1) [OF rel] key_inj_daemon [OF lib]])
        (simp_all add: key bytes table_okD(5) [OF lib_okD(1) [OF lib]] map_of_bm_insert)
    moreover have "\<forall>(d, i)\<in>set (bm_insert (di_daemon_id info) info (mem_daemons m)). di_daemon_id i = d"
      using store_relD(9) [OF rel] set_bm_insert_subset [of "di_daemon_id info" info "mem_daemons m"] by auto
    ultimately show ?thesis
      using rel by (simp add: step_ok_def redb_register_daemon_def commit_def key bytes mem_register_daemon_def
          store_rel_def bm_inv_insert)
  qed (simp add: step_ok_def redb_register_daemon_def key)
qed (simp add: step_ok_def redb_register_daemon_def)

lemma unregister_step:
  assumes lib: "lib_ok L" and rel: "store_rel L r m"
  shows "step_ok L io (UnregisterDaemon d) r m"
proof (cases "encode (put_daemon_id L) d")
  case key: (Inr key)
  have "tab_rel (encoded (put_daemon_id L)) (encoded (put_daemon L))
      (all_rows L (remove_row L key (tab_daemons r))) (AList.delete d (mem_daemons m))"
    by (rule tab_rel_remove [OF store_relD(1) [OF rel] key_inj_daemon [OF lib]])
      (simp_all add: key table_okD(6) [OF lib_okD(1) [OF lib]] delete_conv')
  moreover have "\<forall>(d, i)\<in>set (AList.delete d (mem_daemons m)). di_daemon_id i = d"
    using store_relD(9) [OF rel] by (auto simp: AList.delete_eq)
  ultimately show ?thesis
    using rel by (simp add: step_ok_def redb_unregister_daemon_def commit_def key mem_unregister_daemon_def
        store_rel_def bm_inv_delete)
qed (simp add: step_ok_def redb_unregister_daemon_def)

lemma list_daemons_agree:
  assumes lib: "lib_ok L" and rel: "store_rel L r m"
  shows "set (decode_rows (take_daemon L) (all_rows L (tab_daemons r))) = snd ` set (mem_daemons m)"
  by (rule decode_rows_set [OF store_relD(1) [OF rel] key_inj_daemon [OF lib] lib_okD(2) [OF lib]])
    (simp_all add: bm_inv_distinct table_okD(2) [OF lib_okD(1) [OF lib]] store_relD(5) [OF rel])

lemma by_machine_step:
  assumes lib: "lib_ok L" and rel: "store_rel L r m"
  shows "step_ok L io (GetDaemonByMachine mach) r m"
proof -
  let ?infos = "decode_rows (take_daemon L) (all_rows L (tab_daemons r))"
  let ?a = "find (\<lambda>i. matches_machine_id (di_daemon_id i) mach) ?infos"
  let ?b = "find (\<lambda>d. matches_machine_id d mach) (map fst (mem_daemons m))"
  have infos: "info \<in> set ?infos \<longleftrightarrow> (di_daemon_id info, info) \<in> set (mem_daemons m)" for info
    using list_daemons_agree [OF lib rel] store_relD(9) [OF rel] by force
  have none: "?a = None \<longleftrightarrow> ?b = None"
    using infos store_relD(9) [OF rel] by (fastforce simp: find_None_iff)
  have a: "machine_id (di_daemon_id i) = Some mach" if "?a = Some i" for i
    using that by (auto simp: find_Some_iff matches_machine_id_def split: option.splits)
  have b: "machine_id d = Some mach" if "?b = Some d" for d
    using that by (auto simp: find_Some_iff matches_machine_id_def split: option.splits)
  have "same_reply (DaemonIdReply (map_option di_daemon_id ?a)) (DaemonIdReply ?b)"
    using none a b by (cases ?a; cases ?b) auto
  then show ?thesis
    using rel by (simp add: step_ok_def redb_get_daemon_by_machine_def redb_list_daemons_def read_txn_def
        mem_get_daemon_by_machine_def)
qed

lemma daemon_query_steps:
  assumes lib: "lib_ok L" and rel: "store_rel L r m"
  shows "step_ok L io ListDaemons r m" "step_ok L io (GetDaemon d) r m"
proof -
  show "step_ok L io ListDaemons r m"
    using list_daemons_agree [OF lib rel] rel
    by (simp add: step_ok_def redb_list_daemons_def read_txn_def mem_list_daemons_def)
  show "step_ok L io (GetDaemon d) r m"
  proof (cases "encode (put_daemon_id L) d")
    case key: (Inr key)
    have "decode_found (take_daemon L) (map_of (all_rows L (tab_daemons r)) key) = Inr (map_of (mem_daemons m) d)"
      by (rule decode_found_get [OF store_relD(1) [OF rel] key_inj_daemon [OF lib] _ lib_okD(2) [OF lib]])
        (simp add: key)
    with rel show ?thesis
      by (simp add: step_ok_def redb_get_daemon_def read_txn_def key mem_get_daemon_def table_okD(3) [OF lib_okD(1) [OF lib]])
  qed (simp add: step_ok_def redb_get_daemon_def)
qed

text \<open>Dataflows and builds are stored alike, under the bytes of an identifier.\<close>

lemma uuid_table:
  assumes lib: "lib_ok L" and rel: "tab_rel (\<lambda>u. Some (uuid_bytes L u)) (encoded put_value) (all_rows L t) m"
    and codec: "codec_ok put_value take_value" and inv: "bm_inv m"
  shows "decode_found take_value (get_row L t (uuid_bytes L u)) = Inr (map_of m u)"
    and "decode_rows take_value (all_rows L t) = map snd m"
    and "tab_rel (\<lambda>u. Some (uuid_bytes L u)) (encoded put_value) (all_rows L (remove_row L (uuid_bytes L u) t)) (AList.delete u m)"
    and "encode put_value x = Inr bytes \<Longrightarrow>
      tab_rel (\<lambda>u. Some (uuid_bytes L u)) (encoded put_value) (all_rows L (insert_row L (uuid_bytes L u) bytes t)) (bm_insert u x m)"
proof -
  note tab = table_okD [OF lib_okD(1) [OF lib]]
  show "decode_found take_value (get_row L t (uuid_bytes L u)) = Inr (map_of m u)"
    unfolding tab(3) by (rule decode_found_get [OF rel key_inj_uuid [OF lib] _ codec]) simp
  show "decode_rows take_value (all_rows L t) = map snd m"
    by (rule decode_rows_ordered [OF rel codec tab(2) inv lib_okD(5) [OF lib]])
  show "tab_rel (\<lambda>u. Some (uuid_bytes L u)) (encoded put_value) (all_rows L (remove_row L (uuid_bytes L u) t)) (AList.delete u m)"
    by (rule tab_rel_remove [OF rel key_inj_uuid [OF lib]]) (simp_all add: tab(6) delete_conv')
  show "tab_rel (\<lambda>u. Some (uuid_bytes L u)) (encoded put_value) (all_rows L (insert_row L (uuid_bytes L u) bytes t)) (bm_insert u x m)"
    if "encode put_value x = Inr bytes"
    by (rule tab_rel_insert [OF rel key_inj_uuid [OF lib]]) (simp_all add: that tab(5) map_of_bm_insert)
qed

lemma build_steps:
  assumes lib: "lib_ok L" and rel: "store_rel L r m"
  shows "step_ok L io (PutBuild b) r m" "step_ok L io (GetBuild u) r m" "step_ok L io ListBuilds r m"
    "step_ok L io (DeleteBuild u) r m"
proof -
  note tabs = uuid_table [OF lib store_relD(3) [OF rel] lib_okD(4) [OF lib] store_relD(7) [OF rel]]
  show "step_ok L io (PutBuild b) r m"
    using rel tabs(4) [of b _ "build_id b"]
    by (cases "encode (put_build L) b") (simp_all add: step_ok_def redb_put_build_def commit_def mem_put_build_def
        store_rel_def bm_inv_insert)
  show "step_ok L io (GetBuild u) r m" "step_ok L io ListBuilds r m"
    using rel by (simp_all add: step_ok_def redb_get_build_def redb_list_builds_def read_txn_def tabs(1,2)
        mem_get_build_def mem_list_builds_def)
  show "step_ok L io (DeleteBuild u) r m"
    using rel tabs(3) by (simp add: step_ok_def redb_delete_build_def commit_def mem_delete_build_def store_rel_def bm_inv_delete)
qed

text \<open>Deleting a dataflow removes the parameters under its prefix and no others.\<close>

lemma delete_params_agree:
  fixes L :: "('t, 'u::linorder) lib" and u :: 'u
  assumes lib: "lib_ok L" and rel: "store_rel L r m"
  defines "p \<equiv> uuid_text L u @ [NUL]"
  shows "tab_rel (param_key L) Some (all_rows L (retain_from L p (\<lambda>k _. \<not> key_starts_with p k) (tab_params r)))
    (filter (\<lambda>((df, _, _), _). df \<noteq> u) (mem_params m))"
proof -
  have keep: "(p \<le> k \<longrightarrow> \<not> key_starts_with p k) \<longleftrightarrow> \<not> key_starts_with p k" for k
    by (cases "strip_prefix p k") (auto simp: key_starts_with_def dest: prefix_le)
  have "tab_rel (param_key L) Some (filter (\<lambda>(k, _). \<not> key_starts_with p k) (all_rows L (tab_params r)))
      (filter (\<lambda>(key, _). fst key \<noteq> u) (mem_params m))"
    using key_prefix_uuid [OF lib] by (intro tab_rel_filter [OF store_relD(4) [OF rel]]) (auto simp: p_def)
  moreover have "(\<lambda>(key :: 'u ParamKey, _ :: string). fst key \<noteq> u) = (\<lambda>((df, _, _), _). df \<noteq> u)" by auto
  ultimately show ?thesis
    unfolding table_okD(7) [OF lib_okD(1) [OF lib]] keep by simp
qed

lemma dataflow_steps:
  assumes lib: "lib_ok L" and rel: "store_rel L r m"
  shows "step_ok L io (PutDataflow d) r m" "step_ok L io (GetDataflow u) r m" "step_ok L io ListDataflows r m"
    "step_ok L io (DeleteDataflow u) r m"
proof -
  note tabs = uuid_table [OF lib store_relD(2) [OF rel] lib_okD(3) [OF lib] store_relD(6) [OF rel]]
  show "step_ok L io (PutDataflow d) r m"
    using rel tabs(4) [of d _ "rec_uuid d"]
    by (cases "encode (put_record L) d") (simp_all add: step_ok_def redb_put_dataflow_def commit_def mem_put_dataflow_def
        store_rel_def bm_inv_insert)
  show "step_ok L io (GetDataflow u) r m" "step_ok L io ListDataflows r m"
    using rel by (simp_all add: step_ok_def redb_get_dataflow_def redb_list_dataflows_def read_txn_def tabs(1,2)
        mem_get_dataflow_def mem_list_dataflows_def)
  show "step_ok L io (DeleteDataflow u) r m"
    using rel tabs(3) [of u] delete_params_agree [OF lib rel, of u]
    by (simp add: step_ok_def redb_delete_dataflow_def Let_def commit_def mem_delete_dataflow_def store_rel_def
        bm_inv_delete bm_inv_filter)
qed

lemma param_steps:
  assumes lib: "lib_ok L" and rel: "store_rel L r m"
  shows "step_ok L io (PutNodeParam u n k v) r m" "step_ok L io (GetNodeParam u n k) r m"
    "step_ok L io (ListNodeParams u n) r m" "step_ok L io (DeleteNodeParam u n k) r m"
proof -
  note tab = table_okD [OF lib_okD(1) [OF lib]] and prel = store_relD(4) [OF rel] and inj = key_inj_param [OF lib]
  have key: "param_key L (u, n, k) = Some key" if "make_param_key L u n k = Inr key" for key
    using that by (simp add: param_key_def)
  have err: "make_param_key L u n k = Inl e \<Longrightarrow>
      NUL \<in> set (node_str n) \<and> e = NodeIdNull \<or> NUL \<notin> set (node_str n) \<and> NUL \<in> set k \<and> e = ParamKeyNull" for e
    by (auto simp: make_param_key_def split: if_splits)
  have valid: "validate_param_limits k v = Inr () \<Longrightarrow> NUL \<notin> set k"
    by (simp add: validate_param_limits_def split: if_splits)
  show "step_ok L io (PutNodeParam u n k v) r m"
  proof (cases "make_param_key L u n k")
    case (Inr key)
    have "tab_rel (param_key L) Some (all_rows L (insert_row L key v (tab_params r))) (bm_insert (u, n, k) v (mem_params m))"
      by (rule tab_rel_insert [OF prel inj key [OF Inr]]) (simp_all add: tab(5) map_of_bm_insert)
    with Inr rel show ?thesis
      by (cases "validate_param_limits k v") (simp_all add: step_ok_def redb_put_node_param_def commit_def
          mem_put_node_param_def store_rel_def bm_inv_insert)
  next
    case (Inl e)
    with err [OF Inl] valid show ?thesis
      by (cases "validate_param_limits k v") (auto simp: step_ok_def redb_put_node_param_def mem_put_node_param_def)
  qed
  show "step_ok L io (GetNodeParam u n k) r m"
  proof (cases "make_param_key L u n k")
    case (Inr key)
    from tab_rel_get [OF prel inj key [OF Inr]] Inr rel show ?thesis
      by (simp add: step_ok_def redb_get_node_param_def read_txn_def mem_get_node_param_def tab(3) split: option.splits)
  qed (use err in \<open>auto simp: step_ok_def redb_get_node_param_def\<close>)
  show "step_ok L io (DeleteNodeParam u n k) r m"
  proof (cases "make_param_key L u n k")
    case (Inr key)
    have "tab_rel (param_key L) Some (all_rows L (remove_row L key (tab_params r))) (AList.delete (u, n, k) (mem_params m))"
      by (rule tab_rel_remove [OF prel inj key [OF Inr]]) (simp_all add: tab(6) delete_conv')
    with Inr rel show ?thesis
      by (simp add: step_ok_def redb_delete_node_param_def commit_def mem_delete_node_param_def store_rel_def bm_inv_delete)
  qed (use err in \<open>auto simp: step_ok_def redb_delete_node_param_def\<close>)
  show "step_ok L io (ListNodeParams u n) r m"
  proof (cases "NUL \<in> set (node_str n)")
    case True
    then show ?thesis by (simp add: step_ok_def redb_list_node_params_def make_param_prefix_def)
  next
    case False
    have "redb_list_node_params L io u n r = (if io then mem_list_node_params u n m else Inl StorageFailed)"
      using list_params_agree [OF lib prel store_relD(8) [OF rel] False] False
      by (simp add: redb_list_node_params_def make_param_prefix_def read_txn_def)
    with rel show ?thesis by (auto simp: step_ok_def mem_list_node_params_def)
  qed
qed

lemma every_step: "lib_ok L \<Longrightarrow> store_rel L r m \<Longrightarrow> step_ok L io oper r m"
  by (cases oper) (simp_all add: register_step unregister_step by_machine_step daemon_query_steps build_steps
      dataflow_steps param_steps)

text \<open>A run of the database, in which transactions may fail, beside the in-memory store that gets the accepted
  operations only.\<close>

fun agrees ::
  "('t, 'u::linorder) lib \<Rightarrow> ('u store_op \<times> bool) list \<Rightarrow> 't RedbStore \<Rightarrow> 'u InMemoryStore \<Rightarrow> bool" where
  "agrees L [] r m = True"
| "agrees L ((oper, io) # trace) r m =
     (case redb_exec L io oper r of
        (r', Inl e) \<Rightarrow>
          r' = r \<and> (\<not> io \<and> e = StorageFailed \<or> redb_rejects L oper e \<or> snd (mem_exec oper m) = Inl e) \<and>
          agrees L trace r m
      | (r', Inr y) \<Rightarrow>
          (case mem_exec oper m of
             (m', Inl _) \<Rightarrow> False
           | (m', Inr y') \<Rightarrow> same_reply y y' \<and> agrees L trace r' m'))"

lemma agrees_related: "lib_ok L \<Longrightarrow> store_rel L r m \<Longrightarrow> agrees L trace r m"
proof (induction L trace r m rule: agrees.induct)
  case (2 L oper io trace r m)
  from every_step [OF 2(3,4), of io oper]
  show ?case
    using 2 by (auto simp: step_ok_def split: prod.splits sum.splits)
qed simp

subsection \<open>A library that satisfies the laws\<close>

text \<open>Lists of insertions as tables, canonical identifiers, and a codec for records that are determined by their
  identifier.\<close>

instantiation Uuid :: linorder
begin
definition less_eq_Uuid :: "Uuid \<Rightarrow> Uuid \<Rightarrow> bool" where
  "less_eq_Uuid a b \<longleftrightarrow> uuid_to_string a \<le> uuid_to_string b"
definition less_Uuid :: "Uuid \<Rightarrow> Uuid \<Rightarrow> bool" where
  "less_Uuid a b \<longleftrightarrow> uuid_to_string a < uuid_to_string b"
instance
  by standard (auto simp: less_eq_Uuid_def less_Uuid_def uuid_to_string_def less_le_not_le Rep_Uuid_inject)
end

definition plain_daemon :: "Uuid \<Rightarrow> Uuid DaemonInfo" where
  "plain_daemon u = \<lparr> di_daemon_id = DaemonId None u, di_machine_id = None, di_labels = [] \<rparr>"

definition plain_record :: "Uuid \<Rightarrow> Uuid DataflowRecord" where
  "plain_record u = \<lparr> rec_uuid = u, rec_name = None, descriptor_json = ''{}'', rec_status = Running,
     rec_daemon_ids = [], rec_node_to_daemon = [], rec_uv = False, rec_ready_barrier_released = False,
     barrier_exited_before_subscribe = [], rec_generation = 1, rec_created_at = 0, rec_updated_at = 0 \<rparr>"

definition plain_build :: "Uuid \<Rightarrow> Uuid BuildRecord" where
  "plain_build u = \<lparr> build_id = u, build_status = BuildPending, build_errors = [], build_created_at = 0,
     build_updated_at = 0 \<rparr>"

definition put_plain :: "(Uuid \<Rightarrow> 'a) \<Rightarrow> ('a \<Rightarrow> Uuid) \<Rightarrow> 'a \<Rightarrow> string option" where
  "put_plain mk key x = (if x = mk (key x) then Some (uuid_to_string (key x)) else None)"

definition take_plain :: "(Uuid \<Rightarrow> 'a) \<Rightarrow> string \<Rightarrow> ('a \<times> string) option" where
  "take_plain mk bytes = map_option (\<lambda>u. (mk u, [])) (uuid_parse_str bytes)"

definition list_lib :: "((string \<times> string) list, Uuid) lib" where
  "list_lib = \<lparr> new_table = [], insert_row = (\<lambda>k v t. t @ [(k, v)]), remove_row = AList.delete,
     get_row = (\<lambda>t. map_of (bm_from t)), all_rows = bm_from,
     rows_from = (\<lambda>t k. filter (\<lambda>(k', _). k \<le> k') (bm_from t)),
     retain_from = (\<lambda>k P t. filter (\<lambda>(k', v). k \<le> k' \<longrightarrow> P k' v) (bm_from t)),
     put_daemon_id = put_plain (DaemonId None) daemon_uuid,
     put_daemon = put_plain plain_daemon (daemon_uuid \<circ> di_daemon_id), take_daemon = take_plain plain_daemon,
     put_record = put_plain plain_record rec_uuid, take_record = take_plain plain_record,
     put_build = put_plain plain_build build_id, take_build = take_plain plain_build,
     uuid_bytes = uuid_to_string, uuid_text = uuid_to_string \<rparr>"

lemma codec_ok_plain: "codec_ok (put_plain mk key) (take_plain mk)"
  by (auto simp: codec_ok_def put_plain_def take_plain_def canon.parse_show split: if_splits)

lemma bm_from_sorted: "bm_inv t \<Longrightarrow> bm_from t = t"
  using bm_inv_map_of_eq [of "bm_from t" t]
  by (simp add: bm_inv_from map_of_bm_from map_of_inject_set bm_inv_distinct flip: rev_map)

lemma lib_ok_list_lib: "lib_ok list_lib"
proof -
  have "map_of (bm_from (AList.delete k t)) = (map_of (bm_from t))(k := None)" for k :: string and t :: "(string \<times> string) list"
    by (metis AList.delete_eq rev_filter delete_conv' map_of_bm_from)
  moreover have "bm_from [] = ([] :: (string \<times> string) list)" by (simp add: bm_from_def)
  ultimately have "table_ok list_lib"
    by (simp add: table_ok_def list_lib_def bm_inv_from bm_from_sorted bm_inv_filter map_of_bm_from)
  moreover have "uuid_ok list_lib"
  proof -
    have "NUL \<notin> set (uuid_to_string u)" for u
      using canon.show_chars [of NUL u] by (auto simp: ascii_defs)
    then show ?thesis
      by (auto simp: uuid_ok_def list_lib_def less_Uuid_def uuid_to_string_def inj_def Rep_Uuid_inject)
  qed
  moreover have "put_daemon_id list_lib d = Some b \<Longrightarrow> put_daemon_id list_lib d' = Some b \<Longrightarrow> d = d'" for d d' b
    by (auto simp: list_lib_def put_plain_def uuid_to_string_def Rep_Uuid_inject split: if_splits)
  ultimately show ?thesis
    by (simp add: lib_ok_def) (simp add: list_lib_def codec_ok_plain)
qed

section \<open>The contract of the parameters\<close>

text \<open>What the coordinator relies on when it keeps parameters: a lookup after a put and after a delete, and that the
  list of a node agrees with the lookups.\<close>

abbreviation key_free :: "NodeId \<Rightarrow> string \<Rightarrow> bool" where
  "key_free n k \<equiv> NUL \<notin> set (node_str n) \<and> NUL \<notin> set k"

locale param_store =
  fixes sinv :: "'s \<Rightarrow> bool"
    and put_param :: "'u \<Rightarrow> NodeId \<Rightarrow> string \<Rightarrow> string \<Rightarrow> 's \<Rightarrow> 's \<times> (store_error + unit)"
    and get_param :: "'u \<Rightarrow> NodeId \<Rightarrow> string \<Rightarrow> 's \<Rightarrow> store_error + string option"
    and list_params :: "'u \<Rightarrow> NodeId \<Rightarrow> 's \<Rightarrow> store_error + (string \<times> string) list"
    and delete_param :: "'u \<Rightarrow> NodeId \<Rightarrow> string \<Rightarrow> 's \<Rightarrow> 's \<times> (store_error + unit)"
  assumes put_accepts: "sinv s \<Longrightarrow> NUL \<notin> set (node_str n) \<Longrightarrow> validate_param_limits k v = Inr () \<Longrightarrow>
      \<exists>s'. put_param u n k v s = (s', Inr ()) \<and> sinv s' \<and>
        (\<forall>u' n' k'. key_free n' k' \<longrightarrow>
           get_param u' n' k' s' = (if (u', n', k') = (u, n, k) then Inr (Some v) else get_param u' n' k' s))"
    and put_rejects: "validate_param_limits k v = Inl e \<Longrightarrow> put_param u n k v s = (s, Inl e)"
    and delete_accepts: "sinv s \<Longrightarrow> key_free n k \<Longrightarrow>
      \<exists>s'. delete_param u n k s = (s', Inr ()) \<and> sinv s' \<and>
        (\<forall>u' n' k'. key_free n' k' \<longrightarrow>
           get_param u' n' k' s' = (if (u', n', k') = (u, n, k) then Inr None else get_param u' n' k' s))"
    and list_lookup: "sinv s \<Longrightarrow> NUL \<notin> set (node_str n) \<Longrightarrow>
      \<exists>ps. list_params u n s = Inr ps \<and> bm_inv ps \<and> (\<forall>k. NUL \<notin> set k \<longrightarrow> get_param u n k s = Inr (map_of ps k))"
begin

lemma put_fst: "sinv s \<Longrightarrow> NUL \<notin> set (node_str n) \<Longrightarrow> sinv (fst (put_param u n k v s))"
  using put_accepts [of s n k v u] put_rejects [of k v _ u n s]
  by (cases "validate_param_limits k v") fastforce+

lemma get_listed:
  "sinv s \<Longrightarrow> key_free n k \<Longrightarrow> list_params u n s = Inr ps \<Longrightarrow> get_param u n k s = Inr (map_of ps k)"
  using list_lookup [of s n u] by force

end

interpretation mem_store: param_store "\<lambda>s. bm_inv (mem_params s)" mem_put_node_param mem_get_node_param
  mem_list_node_params mem_delete_node_param
proof
  fix s :: "'u::linorder InMemoryStore" and u n k v e
  assume "bm_inv (mem_params s)"
  then show "validate_param_limits k v = Inr () \<Longrightarrow>
      \<exists>s'. mem_put_node_param u n k v s = (s', Inr ()) \<and> bm_inv (mem_params s') \<and>
        (\<forall>u' n' k'. key_free n' k' \<longrightarrow>
           mem_get_node_param u' n' k' s' = (if (u', n', k') = (u, n, k) then Inr (Some v) else mem_get_node_param u' n' k' s))"
    "\<exists>s'. mem_delete_node_param u n k s = (s', Inr ()) \<and> bm_inv (mem_params s') \<and>
        (\<forall>u' n' k'. key_free n' k' \<longrightarrow>
           mem_get_node_param u' n' k' s' = (if (u', n', k') = (u, n, k) then Inr None else mem_get_node_param u' n' k' s))"
    by (auto simp: mem_put_node_param_def mem_delete_node_param_def mem_get_node_param_def map_of_bm_insert bm_inv_insert
        bm_inv_delete delete_conv')
  from \<open>bm_inv (mem_params s)\<close> mem_list_exact [of s u n]
  show "\<exists>ps. mem_list_node_params u n s = Inr ps \<and> bm_inv ps \<and>
      (\<forall>k. NUL \<notin> set k \<longrightarrow> mem_get_node_param u n k s = Inr (map_of ps k))"
    by (auto simp: mem_get_node_param_def)
qed (simp add: mem_put_node_param_def)

text \<open>The database gives the same contract, as long as its transactions succeed.\<close>

locale redb_library =
  fixes L :: "('t, 'u::linorder) lib"
  assumes laws: "lib_ok L"

sublocale redb_library \<subseteq> redb_store: param_store "\<lambda>_. True" "redb_put_node_param L True" "redb_get_node_param L True"
  "redb_list_node_params L True" "redb_delete_node_param L True"
proof
  note tab = table_okD [OF lib_okD(1) [OF laws]]
  fix s :: "'t RedbStore" and u n k v
  have free: "make_param_key L u n k = Inr (uuid_text L u @ NUL # node_str n @ NUL # k)" if "key_free n k" for u n k
    using that by (simp add: make_param_key_def)
  have same: "uuid_text L u @ NUL # node_str n @ NUL # k = uuid_text L u' @ NUL # node_str n' @ NUL # k' \<longleftrightarrow>
      (u, n, k) = (u', n', k')" if "key_free n k" "key_free n' k'" for u n k u' n' k'
    using laws that by (auto simp: lib_ok_def uuid_ok_def first_part NodeId.expand dest: injD)
  show "\<exists>s'. redb_put_node_param L True u n k v s = (s', Inr ()) \<and> True \<and>
      (\<forall>u' n' k'. key_free n' k' \<longrightarrow> redb_get_node_param L True u' n' k' s' =
         (if (u', n', k') = (u, n, k) then Inr (Some v) else redb_get_node_param L True u' n' k' s))"
    if "NUL \<notin> set (node_str n)" "validate_param_limits k v = Inr ()"
  proof -
    from that have kf: "key_free n k" by (simp add: validate_param_limits_def split: if_splits)
    with that show ?thesis
      by (auto simp: redb_put_node_param_def commit_def redb_get_node_param_def read_txn_def free same tab)
  qed
  show "\<exists>s'. redb_delete_node_param L True u n k s = (s', Inr ()) \<and> True \<and>
      (\<forall>u' n' k'. key_free n' k' \<longrightarrow> redb_get_node_param L True u' n' k' s' =
         (if (u', n', k') = (u, n, k) then Inr None else redb_get_node_param L True u' n' k' s))" if "key_free n k"
    using that by (auto simp: redb_delete_node_param_def commit_def redb_get_node_param_def read_txn_def free same tab)
  show "\<exists>ps. redb_list_node_params L True u n s = Inr ps \<and> bm_inv ps \<and>
      (\<forall>k. NUL \<notin> set k \<longrightarrow> redb_get_node_param L True u n k s = Inr (map_of ps k))" if "NUL \<notin> set (node_str n)"
  proof -
    from that have "make_param_prefix L u n = Inr (uuid_text L u @ NUL # node_str n @ [NUL])"
      by (simp add: make_param_prefix_def)
    from redb_list_exact [OF lib_okD(1) [OF laws] this, of s] that show ?thesis
      by (auto simp: redb_get_node_param_def read_txn_def free tab)
  qed
qed (simp add: redb_put_node_param_def)

interpretation list_store: redb_library list_lib
  by unfold_locales (rule lib_ok_list_lib)

section \<open>Properties\<close>

text \<open>C39: The database behaves like the in-memory store. Over any sequence of operations in which transactions may
  fail, every operation that the database refuses leaves it unchanged, and it is refused because of a failed
  transaction, because the in-memory store refuses it with the same error, because a record cannot be encoded within
  the size limit or because a node identifier or the name of a looked up parameter contains a null byte. All other
  replies are those of an in-memory store that has seen the accepted operations, except for the order in which daemons
  are listed. So a record that was accepted can be read back, range scans over composite keys find exactly
  the parameters of a node, and deleting a dataflow deletes exactly its parameters.\<close>

theorem redb_refines_in_memory: "lib_ok L \<Longrightarrow> agrees L trace (redb_new L) mem_new"
  by (rule agrees_related [OF _ store_rel_new])

theorem redb_refines_in_memory_witness:
  "agrees list_lib
     (let u = Abs_Uuid ''00000000-0000-0000-0000-000000000000'' in
      [(PutDataflow (plain_record u), True), (PutNodeParam u (NodeId ''cam'') ''rate'' ''30'', True),
       (PutNodeParam u (NodeId ''cam'') ''gain'' ''2'', False), (ListNodeParams u (NodeId ''cam''), True),
       (DeleteDataflow u, True), (GetNodeParam u (NodeId ''cam'') ''rate'', True)])
     (redb_new list_lib) mem_new"
  by (rule redb_refines_in_memory [OF lib_ok_list_lib])

end
