(* ===== verification/Coordinator_State.thy ===== *)
theory Coordinator_State
  imports Coordinator_Store
begin

text \<open>
  The state of the coordinator: \<open>binaries/coordinator/src/state.rs\<close> with the start of a dataflow in
  \<open>run/mod.rs\<close> and the types of \<open>lib.rs\<close>.

  A reply channel is a natural number, the identity of the client that waits on it. What a handler sends is a
  list of effects. Whether a message can be put into the channel of a connected daemon is an argument \<open>net\<close>,
  and so is the answer to a request that waits for one. The store is the in-memory backend, which the database
  backend refines. Parsing, printing and resolving descriptors, printing identifiers and the validity of JSON are
  arguments, gathered in the record \<open>deps\<close>. A value of a parameter is its JSON text. Log subscribers, topic
  subscribers, fault statistics and network metrics are left out.
\<close>

section \<open>Replies, requests to daemons, effects\<close>

record Deploy =
  deploy_machine :: "string option"
  deploy_labels :: "(string \<times> string) list"

record ('u, 'd) deps =
  to_json :: "'d \<Rightarrow> string"
  from_json :: "string \<Rightarrow> 'd option"
  resolve_nodes :: "'d \<Rightarrow> (NodeId \<times> Deploy option) list option"
  descriptor_nodes :: "'d \<Rightarrow> NodeId list"
  show_uuid :: "'u \<Rightarrow> string"
  json_valid :: "string \<Rightarrow> bool"

datatype coord_error =
    NoRunningDataflow
  | UnknownDataflowError
  | UnknownBuild
  | NameTaken
  | ResolveFailed
  | NoMatchingDaemon
  | SpawnRejected nat
  | StopFailed nat nat
  | AlreadyRestarting
  | RestartDisconnected
  | RestartStopped
  | RestartSpawnFailed string
  | RestartStartFailed
  | SpawnError string
  | BuildTimedOut nat nat
  | ParamNodeNotFound
  | ParamDataflowNotFound
  | DescriptorInvalid
  | StoreRejected store_error
  | DaemonNotConnected
  | ForwardFailed
  | DaemonRejected
  | NameUnknown
  | NameAmbiguous
  | HubUnsupported

type_synonym 'x node_results = "(NodeId \<times> 'x NodeError option) list"

datatype ('u, 'x) ControlRequestReply =
    DataflowBuildTriggered 'u
  | DataflowBuildFinished 'u "string option"
  | DataflowStartTriggered 'u
  | DataflowSpawned 'u
  | DataflowStopped 'u "'x node_results"
  | DataflowRestarted 'u 'u
  | ParamSet
  | ParamDeletedReply
  | CleanResult "('u \<times> string option \<times> bool) list"
  | DestroyOk

type_synonym ('u, 'x) control_result = "coord_error + ('u, 'x) ControlRequestReply"

datatype StateCatchUpOperation =
    SetParam (op_node: NodeId) (op_key: string) (op_value: string)
  | DeleteParam (op_node: NodeId) (op_key: string)

record StateCatchUpEntry =
  entry_sequence :: nat
  entry_operation :: StateCatchUpOperation

datatype 'u DaemonCoordinatorEvent =
    AllNodesReadyEvent 'u "NodeId list"
  | StopDataflow 'u "nat option" bool
  | SpawnNodes 'u "NodeId list"
  | StateCatchUp 'u "StateCatchUpEntry list"
  | SetParamEvent 'u NodeId string string
  | DeleteParamEvent 'u NodeId string
  | PeerDaemonDisconnected "'u DaemonId"

text \<open>An effect is a message put into the channel of a daemon, an answer to a client, or a task that replays the
  stored parameters of some nodes to a daemon.\<close>

datatype ('u, 'x) effect =
    Sent "'u DaemonId" "'u DaemonCoordinatorEvent"
  | Answer nat "('u, 'x) control_result"
  | ReplayParams 'u "'u DaemonId" "NodeId list"

section \<open>Cached results\<close>

datatype ('u, 'x) CachedResult =
    PendingResult (result_senders: "nat list")
  | Cached (cached_result: "('u, 'x) control_result")

definition cr_register :: "nat \<Rightarrow> ('u, 'x) CachedResult \<Rightarrow> ('u, 'x) CachedResult \<times> ('u, 'x) effect list" where
  "cr_register w c = (case c of
      PendingResult ws \<Rightarrow> (PendingResult (ws @ [w]), [])
    | Cached r \<Rightarrow> (c, [Answer w r]))"

definition set_result ::
  "('u, 'x) control_result \<Rightarrow> ('u, 'x) CachedResult \<Rightarrow> ('u, 'x) CachedResult \<times> ('u, 'x) effect list" where
  "set_result r c = (case c of
      PendingResult ws \<Rightarrow> (Cached r, map (\<lambda>w. Answer w r) ws)
    | Cached _ \<Rightarrow> (c, []))"

definition cr_is_pending :: "('u, 'x) CachedResult \<Rightarrow> bool" where
  "cr_is_pending c = (case c of PendingResult _ \<Rightarrow> True | Cached _ \<Rightarrow> False)"

definition is_terminal_error :: "('u, 'x) CachedResult \<Rightarrow> bool" where
  "is_terminal_error c = (case c of PendingResult _ \<Rightarrow> False | Cached r \<Rightarrow> isl r)"

definition is_cached_ok :: "('u, 'x) CachedResult \<Rightarrow> bool" where
  "is_cached_ok c = (case c of PendingResult _ \<Rightarrow> False | Cached r \<Rightarrow> \<not> isl r)"

section \<open>Daemon connections\<close>

record 'u DaemonConnection =
  peer_is_local :: bool
  last_heartbeat :: nat
  conn_labels :: "(string \<times> string) list"
  conn_supports_hub_sources :: bool
  connection_id :: 'u
  zenoh_listen_endpoint :: "string option"
  consecutive_heartbeat_send_timeouts :: nat

type_synonym 'u DaemonConnections = "('u DaemonId \<times> 'u DaemonConnection) list"

definition get_matching_daemon_id :: "string \<Rightarrow> 'u DaemonConnections \<Rightarrow> 'u DaemonId option" where
  "get_matching_daemon_id m cs = find (\<lambda>d. matches_machine_id d m) (map fst cs)"

definition supports_hub_sources :: "'u DaemonId \<Rightarrow> 'u DaemonConnections \<Rightarrow> bool" where
  "supports_hub_sources d cs =
     (case map_of cs d of None \<Rightarrow> False | Some c \<Rightarrow> conn_supports_hub_sources c)"

definition connection_id_of :: "'u DaemonId \<Rightarrow> 'u DaemonConnections \<Rightarrow> 'u option" where
  "connection_id_of d cs = map_option connection_id (map_of cs d)"

text \<open>Whether an endpoint is on the loopback interface is decided by the parsers of \<open>zenoh\<close> and of the standard
  library's addresses, the argument \<open>is_loopback\<close>.\<close>

definition zenoh_endpoints_for ::
  "(string \<Rightarrow> bool) \<Rightarrow> 'u DaemonId \<Rightarrow> bool \<Rightarrow> 'u DaemonConnections \<Rightarrow> string list" where
  "zenoh_endpoints_for is_loopback joining joining_is_local cs =
     List.map_filter (\<lambda>(d, c).
       case zenoh_listen_endpoint c of
         None \<Rightarrow> None
       | Some e \<Rightarrow>
           if \<not> is_loopback e then Some e
           else if joining_is_local \<and> peer_is_local c then Some e else None)
       (filter (\<lambda>(d, _). d \<noteq> joining) cs)"

definition set_zenoh_endpoint ::
  "'u DaemonId \<Rightarrow> string option \<Rightarrow> 'u DaemonConnections \<Rightarrow> 'u DaemonConnections" where
  "set_zenoh_endpoint d e cs = AList.map_entry d (\<lambda>c. c\<lparr> zenoh_listen_endpoint := e \<rparr>) cs"

definition unnamed :: "'u DaemonConnections \<Rightarrow> 'u DaemonId list" where
  "unnamed cs = filter (\<lambda>d. machine_id d = None) (map fst cs)"

definition get_matching_daemon_by_labels ::
  "(string \<times> string) list \<Rightarrow> 'u DaemonConnections \<Rightarrow> 'u DaemonId option" where
  "get_matching_daemon_by_labels req cs =
     map_option fst (find (\<lambda>(d, c). \<forall>(k, v)\<in>set req. map_of (conn_labels c) k = Some v) cs)"

definition send_to ::
  "('u DaemonId \<Rightarrow> bool) \<Rightarrow> 'u DaemonConnections \<Rightarrow> 'u DaemonId \<Rightarrow> 'u DaemonCoordinatorEvent \<Rightarrow> ('u, 'x) effect list" where
  "send_to net cs d m = (if map_of cs d \<noteq> None \<and> net d then [Sent d m] else [])"

section \<open>Dataflows and builds\<close>

datatype NodeStatus = NodeRunning | NodeRestarting | NodeDegraded | NodeFailed | NodeStopped

text \<open>\<open>cpu_usage\<close> is kept as the bits of the float; 0 is \<open>0.0\<close>.\<close>

record NodeMetrics =
  nm_pid :: nat
  nm_cpu_usage :: nat
  nm_memory_bytes :: nat
  nm_disk_read_bytes :: "nat option"
  nm_disk_write_bytes :: "nat option"
  nm_restart_count :: nat
  nm_broken_inputs :: "string list"
  nm_status :: NodeStatus
  nm_pending_messages :: nat

record ('u, 'x) RunningBuild =
  rb_errors :: "string list"
  rb_result :: "('u, 'x) CachedResult"
  rb_pending :: "'u DaemonId list"
  rb_started_at :: nat

record ('u, 'd, 'x) CoordDataflow =
  df_name :: "string option"
  df_uuid :: 'u
  df_descriptor :: 'd
  df_daemons :: "'u DaemonId list"
  df_pending_daemons :: "'u DaemonId list"
  df_exited :: "NodeId list"
  df_released :: bool
  df_nodes :: "(NodeId \<times> Deploy option) list"
  df_node_to_daemon :: "(NodeId \<times> 'u DaemonId) list"
  df_metrics :: "(NodeId \<times> NodeMetrics) list"
  df_finalized :: "NodeId list"
  df_stopped_at :: "(NodeId \<times> nat) list"
  df_spawn_result :: "('u, 'x) CachedResult"
  df_stop_senders :: "nat list"
  df_pending_spawn :: "'u DaemonId list"
  df_spawn_started_at :: nat
  df_created_at :: nat
  df_generation :: nat
  df_last_recovery :: "('u DaemonId \<times> nat) list"
  df_last_replay :: "('u DaemonId \<times> nat) list"
  df_uv :: bool
  df_log_sequence :: nat
  df_log :: "StateCatchUpEntry list"
  df_acks :: "('u DaemonId \<times> nat) list"

record 'd PendingRestart =
  pr_descriptor :: 'd
  pr_name :: "string option"
  pr_uv :: bool
  pr_sender :: nat

record ArchivedDataflow =
  ad_name :: "string option"
  ad_nodes :: "(NodeId \<times> Deploy option) list"

definition archived_from :: "('u, 'd, 'x) CoordDataflow \<Rightarrow> ArchivedDataflow" where
  "archived_from df = \<lparr> ad_name = df_name df, ad_nodes = df_nodes df \<rparr>"

record 'x DataflowDaemonResult =
  dr_timestamp :: 'x
  dr_node_results :: "'x node_results"

definition bs_remove :: "'a \<Rightarrow> 'a list \<Rightarrow> 'a list" where
  "bs_remove x xs = filter (\<lambda>y. y \<noteq> x) xs"

lemma set_bs_remove [simp]: "set (bs_remove x xs) = set xs - {x}"
  by (auto simp: bs_remove_def)

definition nodes_on_daemon :: "'u DaemonId \<Rightarrow> ('u, 'd, 'x) CoordDataflow \<Rightarrow> NodeId list" where
  "nodes_on_daemon d df = map fst (filter (\<lambda>(_, assigned). assigned = d) (df_node_to_daemon df))"

subsection \<open>The replication log\<close>

definition MAX_STATE_LOG_ENTRIES :: nat where "MAX_STATE_LOG_ENTRIES = 10000"

definition append_state_log ::
  "StateCatchUpOperation \<Rightarrow> ('u, 'd, 'x) CoordDataflow \<Rightarrow> ('u, 'd, 'x) CoordDataflow" where
  "append_state_log oper df =
     (let seq = df_log_sequence df + 1;
          log = df_log df @ [\<lparr> entry_sequence = seq, entry_operation = oper \<rparr>];
          log = (if MAX_STATE_LOG_ENTRIES < length log
                 then drop (length log - MAX_STATE_LOG_ENTRIES) log else log)
      in df\<lparr> df_log_sequence := seq, df_log := log \<rparr>)"

definition ack_of :: "'u DaemonId \<Rightarrow> ('u, 'd, 'x) CoordDataflow \<Rightarrow> nat" where
  "ack_of d df = (case map_of (df_acks df) d of None \<Rightarrow> 0 | Some a \<Rightarrow> a)"

definition prune_state_log :: "('u, 'd, 'x) CoordDataflow \<Rightarrow> ('u, 'd, 'x) CoordDataflow" where
  "prune_state_log df =
     (let acks = map (\<lambda>d. ack_of d df) (df_daemons df);
          min_ack = (if acks = [] then 0 else Min (set acks))
      in df\<lparr> df_log := filter (\<lambda>e. min_ack < entry_sequence e) (df_log df) \<rparr>)"

definition state_log_delta ::
  "nat \<Rightarrow> ('u, 'd, 'x) CoordDataflow \<Rightarrow> StateCatchUpEntry list option" where
  "state_log_delta last_ack df =
     (case df_log df of
        [] \<Rightarrow> if last_ack < df_log_sequence df then None else Some []
      | oldest # _ \<Rightarrow>
          if min u64_max (last_ack + 1) < entry_sequence oldest then None
          else Some (filter (\<lambda>e. last_ack < entry_sequence e) (df_log df)))"

subsection \<open>Persisting\<close>

definition MAX_ERROR_BYTES :: nat where "MAX_ERROR_BYTES = 4096"

definition str_boundary :: "string \<Rightarrow> nat \<Rightarrow> bool" where
  "str_boundary s i \<longleftrightarrow>
     i = 0 \<or> i = length s \<or> (i < length s \<and> \<not> (128 \<le> code_of (s ! i) \<and> code_of (s ! i) < 192))"

fun str_floor_boundary :: "string \<Rightarrow> nat \<Rightarrow> nat" where
  "str_floor_boundary s 0 = 0"
| "str_floor_boundary s (Suc i) = (if str_boundary s (Suc i) then Suc i else str_floor_boundary s i)"

definition truncate_str :: "string \<Rightarrow> nat \<Rightarrow> string" where
  "truncate_str s n = (if length s \<le> n then s else take (str_floor_boundary s n) s)"

definition truncate_status :: "StoreDataflowStatus \<Rightarrow> StoreDataflowStatus" where
  "truncate_status st = (case st of
      Failed err terminal \<Rightarrow> Failed (truncate_str err MAX_ERROR_BYTES) terminal
    | _ \<Rightarrow> st)"

definition make_record ::
  "('u, 'd) deps \<Rightarrow> nat \<Rightarrow> StoreDataflowStatus \<Rightarrow> ('u, 'd, 'x) CoordDataflow \<Rightarrow>
   ('u, 'd, 'x) CoordDataflow \<times> 'u DataflowRecord" where
  "make_record D now st df =
     (let df = df\<lparr> df_generation := df_generation df + 1 \<rparr>
      in (df, \<lparr> rec_uuid = df_uuid df, rec_name = df_name df,
                descriptor_json = to_json D (df_descriptor df),
                rec_status = truncate_status st,
                rec_daemon_ids = df_daemons df,
                rec_node_to_daemon =
                  bm_from (map (\<lambda>(n, d). (node_str n, daemon_id_display (show_uuid D) d)) (df_node_to_daemon df)),
                rec_uv = df_uv df,
                rec_ready_barrier_released = df_released df,
                barrier_exited_before_subscribe = map node_str (df_exited df),
                rec_generation = df_generation df,
                rec_created_at = df_created_at df,
                rec_updated_at = now \<rparr>))"

text \<open>The sequence \<open>make_record(..).and_then(put_dataflow)\<close>, which every handler uses to persist a status.\<close>

definition persist ::
  "('u::linorder, 'd) deps \<Rightarrow> nat \<Rightarrow> StoreDataflowStatus \<Rightarrow> ('u, 'd, 'x) CoordDataflow \<Rightarrow>
   'u InMemoryStore \<Rightarrow> ('u, 'd, 'x) CoordDataflow \<times> 'u InMemoryStore" where
  "persist D now st df s = (case make_record D now st df of (df, r) \<Rightarrow> (df, mem_put_dataflow r s))"

text \<open>\<open>recovered\<close> panics when a stored node identifier is invalid.\<close>

definition recovered ::
  "'u DataflowRecord \<Rightarrow> 'd \<Rightarrow> (NodeId \<times> Deploy option) list \<Rightarrow> 'u DaemonId \<Rightarrow> NodeId list \<Rightarrow> nat \<Rightarrow>
   ('u, 'd, 'x) CoordDataflow option" where
  "recovered r descr nodes d reported now =
     (case those (map node_id_from_string (barrier_exited_before_subscribe r)) of
        None \<Rightarrow> None
      | Some exited \<Rightarrow> Some \<lparr>
          df_name = rec_name r, df_uuid = rec_uuid r, df_descriptor = descr,
          df_daemons = [d], df_pending_daemons = [],
          df_exited = exited, df_released = rec_ready_barrier_released r,
          df_nodes = nodes, df_node_to_daemon = bm_from (map (\<lambda>n. (n, d)) reported),
          df_metrics = [], df_finalized = [], df_stopped_at = [],
          df_spawn_result = Cached (Inr (DataflowSpawned (rec_uuid r))),
          df_stop_senders = [], df_pending_spawn = [],
          df_spawn_started_at = now, df_created_at = rec_created_at r,
          df_generation = rec_generation r, df_last_recovery = [], df_last_replay = [],
          df_uv = rec_uv r, df_log_sequence = 0, df_log = [], df_acks = [(d, 0)] \<rparr>)"

section \<open>Starting a dataflow\<close>

definition resolve_daemon :: "'u DaemonConnections \<Rightarrow> Deploy option \<Rightarrow> coord_error + 'u DaemonId" where
  "resolve_daemon cs deploy =
     (let found = (case deploy of
         None \<Rightarrow> find (\<lambda>_. True) (unnamed cs)
       | Some dp \<Rightarrow>
           (case deploy_machine dp of
              Some m \<Rightarrow> get_matching_daemon_id m cs
            | None \<Rightarrow>
                if deploy_labels dp \<noteq> [] then get_matching_daemon_by_labels (deploy_labels dp) cs
                else find (\<lambda>_. True) (unnamed cs)))
      in case found of None \<Rightarrow> Inl NoMatchingDaemon | Some d \<Rightarrow> Inr d)"

fun group_by_daemon ::
  "'u::linorder DaemonConnections \<Rightarrow> (NodeId \<times> Deploy option) list \<Rightarrow>
   ('u DaemonId \<times> NodeId list) list \<Rightarrow> coord_error + ('u DaemonId \<times> NodeId list) list" where
  "group_by_daemon cs [] acc = Inr acc"
| "group_by_daemon cs ((n, dp) # ns) acc =
     (case resolve_daemon cs dp of
        Inl e \<Rightarrow> Inl e
      | Inr d \<Rightarrow> group_by_daemon cs ns (bm_entry d [] (\<lambda>xs. xs @ [n]) acc))"

text \<open>\<open>accepts\<close> is the answer of a daemon to the request to spawn; every daemon that accepted is told to stop when
  a later one refuses. \<open>net\<close> is whether the stop request reaches the daemon.\<close>

definition rollback_spawned_daemons ::
  "('u DaemonId \<Rightarrow> bool) \<Rightarrow> 'u DaemonConnections \<Rightarrow> 'u \<Rightarrow> 'u DaemonId list \<Rightarrow> ('u, 'x) effect list" where
  "rollback_spawned_daemons net cs u spawned =
     concat (map (\<lambda>d. send_to net cs d (StopDataflow u None True)) spawned)"

fun spawn_on_daemons ::
  "('u DaemonId \<Rightarrow> bool) \<Rightarrow> ('u DaemonId \<Rightarrow> bool) \<Rightarrow> 'u DaemonConnections \<Rightarrow> 'u \<Rightarrow>
   ('u DaemonId \<times> NodeId list) list \<Rightarrow> 'u DaemonId list \<Rightarrow>
   (coord_error + 'u DaemonId list) \<times> ('u, 'x) effect list" where
  "spawn_on_daemons accepts net cs u [] spawned = (Inr spawned, [])"
| "spawn_on_daemons accepts net cs u ((d, ns) # rest) spawned =
     (case map_of cs d of
        None \<Rightarrow> (Inl DaemonNotConnected, [])
      | Some _ \<Rightarrow>
          let sent = send_to net cs d (SpawnNodes u ns) in
          if sent \<noteq> [] \<and> accepts d then
            (case spawn_on_daemons accepts net cs u rest (spawned @ [d]) of (r, eff) \<Rightarrow> (r, sent @ eff))
          else (Inl (SpawnRejected (length spawned)),
                sent @ rollback_spawned_daemons net cs u spawned))"

definition spawn_dataflow ::
  "('u::linorder, 'd) deps \<Rightarrow> ('u DaemonId \<Rightarrow> bool) \<Rightarrow> ('u DaemonId \<Rightarrow> bool) \<Rightarrow> 'u DaemonConnections \<Rightarrow> 'u \<Rightarrow> 'd \<Rightarrow>
   (coord_error + 'u DaemonId list \<times> (NodeId \<times> Deploy option) list \<times> (NodeId \<times> 'u DaemonId) list)
   \<times> ('u, 'x) effect list" where
  "spawn_dataflow D accepts net cs u descr =
     (case resolve_nodes D descr of
        None \<Rightarrow> (Inl ResolveFailed, [])
      | Some nodes \<Rightarrow>
          (case group_by_daemon cs nodes [] of
             Inl e \<Rightarrow> (Inl e, [])
           | Inr groups \<Rightarrow>
               (case spawn_on_daemons accepts net cs u groups [] of
                  (Inl e, eff) \<Rightarrow> (Inl e, eff)
                | (Inr ds, eff) \<Rightarrow>
                    (Inr (ds, nodes, bm_from (concat (map (\<lambda>(d, ns). map (\<lambda>n. (n, d)) ns) groups))), eff))))"

definition start_dataflow ::
  "('u::linorder, 'd) deps \<Rightarrow> ('u DaemonId \<Rightarrow> bool) \<Rightarrow> ('u DaemonId \<Rightarrow> bool) \<Rightarrow> 'u DaemonConnections \<Rightarrow> 'u \<Rightarrow> nat \<Rightarrow> 'd \<Rightarrow>
   string option \<Rightarrow> bool \<Rightarrow> (coord_error + ('u, 'd, 'x) CoordDataflow) \<times> ('u, 'x) effect list" where
  "start_dataflow D accepts net cs u now descr name uv =
     (case spawn_dataflow D accepts net cs u descr of
        (Inl e, eff) \<Rightarrow> (Inl e, eff)
      | (Inr (ds, nodes, n2d), eff) \<Rightarrow> (Inr \<lparr>
          df_name = name, df_uuid = u, df_descriptor = descr,
          df_daemons = ds, df_pending_daemons = (if 1 < length ds then ds else []),
          df_exited = [], df_released = False,
          df_nodes = nodes, df_node_to_daemon = n2d,
          df_metrics = [], df_finalized = [], df_stopped_at = [],
          df_spawn_result = PendingResult [],
          df_stop_senders = [], df_pending_spawn = ds,
          df_spawn_started_at = now, df_created_at = now,
          df_generation = 0, df_last_recovery = [], df_last_replay = [],
          df_uv = uv, df_log_sequence = 0, df_log = [], df_acks = map (\<lambda>d. (d, 0)) ds \<rparr>, eff))"

section \<open>The coordinator\<close>

record ('u, 'd, 'x) Coordinator =
  running_builds :: "('u \<times> ('u, 'x) RunningBuild) list"
  finished_builds :: "('u \<times> ('u, 'x) CachedResult) list"
  running_dataflows :: "('u \<times> ('u, 'd, 'x) CoordDataflow) list"
  pending_restarts :: "('u \<times> 'd PendingRestart) list"
  dataflow_results :: "('u \<times> ('u DaemonId \<times> 'x DataflowDaemonResult) list) list"
  archived_dataflows :: "('u \<times> ArchivedDataflow) list"
  daemon_connections :: "'u DaemonConnections"
  coord_store :: "'u InMemoryStore"

datatype 'u ParamTarget = RunningTarget "'u DaemonId" | PersistedOnly

definition resolve_param_target ::
  "('u, 'd) deps \<Rightarrow> 'u \<Rightarrow> NodeId \<Rightarrow> ('u, 'd, 'x) Coordinator \<Rightarrow> coord_error + 'u ParamTarget" where
  "resolve_param_target D u n s =
     (case map_of (running_dataflows s) u of
        Some df \<Rightarrow>
          (case map_of (df_node_to_daemon df) n of
             None \<Rightarrow> Inl ParamNodeNotFound
           | Some d \<Rightarrow> Inr (RunningTarget d))
      | None \<Rightarrow>
          (case mem_get_dataflow u (coord_store s) of
             None \<Rightarrow> Inl ParamDataflowNotFound
           | Some r \<Rightarrow>
               (case from_json D (descriptor_json r) of
                  None \<Rightarrow> Inl DescriptorInvalid
                | Some descr \<Rightarrow>
                    if n \<in> set (descriptor_nodes D descr) then Inr PersistedOnly else Inl ParamNodeNotFound)))"

definition resolve_name :: "string \<Rightarrow> ('u, 'd, 'x) Coordinator \<Rightarrow> coord_error + 'u" where
  "resolve_name name s =
     (let uuids = map fst (filter (\<lambda>(_, df). df_name df = Some name) (running_dataflows s));
          archived = map fst (filter (\<lambda>(_, a). ad_name a = Some name) (archived_dataflows s))
      in case uuids of
           [] \<Rightarrow> (case archived of [] \<Rightarrow> Inl NameUnknown | [u] \<Rightarrow> Inr u | _ \<Rightarrow> Inl NameAmbiguous)
         | [u] \<Rightarrow> Inr u
         | _ \<Rightarrow> Inl NameAmbiguous)"

end
