(* ===== verification/Coordinator_Events.thy ===== *)
theory Coordinator_Events
  imports Coordinator_State
begin

text \<open>
  The event handlers of the coordinator: \<open>binaries/coordinator/src\<close>, files \<open>ready_barrier.rs\<close>,
  \<open>dataflow_events.rs\<close>, \<open>spawn_build.rs\<close>, \<open>daemon_liveness.rs\<close>, \<open>daemon_events.rs\<close>, \<open>params.rs\<close>,
  \<open>control_requests.rs\<close> and \<open>lib.rs\<close>. A handler maps the state to the new state and the list of its effects. The
  record \<open>env\<close> holds what the outside decides while a handler runs: the time in milliseconds, whether a
  message can be put into the channel of a daemon, what a daemon answers, the next fresh identifier and the next
  time stamp. A panic is \<open>None\<close>.

  Messages to log and topic subscribers are left out, as are requests that only read the state, live edits of the
  topology, and the requests that are forwarded to one daemon without a change of the state.
\<close>

record ('u, 'x) env =
  now :: nat
  net :: "'u DaemonId \<Rightarrow> bool"
  accepts :: "'u DaemonId \<Rightarrow> bool"
  applies :: "'u DaemonId \<Rightarrow> NodeId \<Rightarrow> string \<Rightarrow> bool"
  fresh :: 'u
  stamp :: 'x

definition put_df ::
  "'u \<Rightarrow> ('u, 'd, 'x) CoordDataflow \<Rightarrow> ('u, 'd, 'x) Coordinator \<Rightarrow> ('u, 'd, 'x) Coordinator" where
  "put_df u df s = s\<lparr> running_dataflows := AList.update u df (running_dataflows s) \<rparr>"

abbreviation get_df :: "'u \<Rightarrow> ('u, 'd, 'x) Coordinator \<Rightarrow> ('u, 'd, 'x) CoordDataflow option" where
  "get_df u s \<equiv> map_of (running_dataflows s) u"

abbreviation is_running :: "'u \<Rightarrow> ('u, 'd, 'x) Coordinator \<Rightarrow> bool" where
  "is_running u s \<equiv> u \<in> fst ` set (running_dataflows s)"

fun str_join :: "string \<Rightarrow> string list \<Rightarrow> string" where
  "str_join sep [] = []"
| "str_join sep [x] = x"
| "str_join sep (x # y # xs) = x @ sep @ str_join sep (y # xs)"

section \<open>The ready barrier\<close>

definition all_nodes_ready_message :: "'u \<Rightarrow> ('u, 'd, 'x) CoordDataflow \<Rightarrow> 'u DaemonCoordinatorEvent" where
  "all_nodes_ready_message u df = AllNodesReadyEvent u (df_exited df)"

definition release_barrier_message ::
  "'u \<Rightarrow> ('u, 'd, 'x) CoordDataflow \<Rightarrow> ('u, 'd, 'x) CoordDataflow \<times> 'u DaemonCoordinatorEvent" where
  "release_barrier_message u df =
     (let df = df\<lparr> df_released := True \<rparr> in (df, all_nodes_ready_message u df))"

definition persist_ready_barrier_release ::
  "('u::linorder, 'd) deps \<Rightarrow> nat \<Rightarrow> 'u \<Rightarrow> ('u, 'd, 'x) CoordDataflow \<Rightarrow> 'u InMemoryStore \<Rightarrow>
   ('u, 'd, 'x) CoordDataflow \<times> 'u InMemoryStore" where
  "persist_ready_barrier_release D t u df st =
     (let status = (if df_exited df = [] then Running
                    else case mem_get_dataflow u st of Some r \<Rightarrow> rec_status r | None \<Rightarrow> Pending)
      in persist D t status df st)"

definition schedule_param_replay_for_ready_dataflow ::
  "'u DaemonConnections \<Rightarrow> 'u \<Rightarrow> ('u, 'd, 'x) CoordDataflow \<Rightarrow> ('u, 'x) effect list" where
  "schedule_param_replay_for_ready_dataflow cs u df =
     map (\<lambda>d. ReplayParams u d (nodes_on_daemon d df)) (filter (\<lambda>d. map_of cs d \<noteq> None) (df_daemons df))"

definition broadcast_all_nodes_ready ::
  "('u::linorder, 'd) deps \<Rightarrow> ('u, 'x) env \<Rightarrow> 'u \<Rightarrow> ('u, 'd, 'x) CoordDataflow \<Rightarrow> ('u, 'd, 'x) Coordinator \<Rightarrow>
   ('u, 'd, 'x) Coordinator \<times> ('u, 'x) effect list" where
  "broadcast_all_nodes_ready D W u df s =
     (case release_barrier_message u df of
        (df, msg) \<Rightarrow>
          (case persist_ready_barrier_release D (now W) u df (coord_store s) of
             (df, st) \<Rightarrow>
               (put_df u df (s\<lparr> coord_store := st \<rparr>),
                concat (map (\<lambda>d. send_to (net W) (daemon_connections s) d msg) (df_daemons df)) @
                schedule_param_replay_for_ready_dataflow (daemon_connections s) u df)))"

definition replay_all_nodes_ready ::
  "('u, 'x) env \<Rightarrow> 'u DaemonConnections \<Rightarrow> 'u \<Rightarrow> ('u, 'd, 'x) CoordDataflow \<Rightarrow> 'u DaemonId \<Rightarrow> ('u, 'x) effect list" where
  "replay_all_nodes_ready W cs u df d =
     (let sent = send_to (net W) cs d (all_nodes_ready_message u df)
      in if sent = [] then [] else sent @ [ReplayParams u d (nodes_on_daemon d df)])"

definition handle_ready_on_daemon ::
  "('u::linorder, 'd) deps \<Rightarrow> ('u, 'x) env \<Rightarrow> 'u \<Rightarrow> 'u DaemonId \<Rightarrow> NodeId list \<Rightarrow> ('u, 'd, 'x) Coordinator \<Rightarrow>
   ('u, 'd, 'x) Coordinator \<times> ('u, 'x) effect list" where
  "handle_ready_on_daemon D W u d exited s =
     (case get_df u s of
        None \<Rightarrow> (s, [])
      | Some df \<Rightarrow>
          let df = df\<lparr> df_pending_daemons := bs_remove d (df_pending_daemons df),
                       df_exited := df_exited df @ exited \<rparr>
          in if df_pending_daemons df = [] then broadcast_all_nodes_ready D W u df s
             else (put_df u df s, []))"

section \<open>Results of finished and failed dataflows\<close>

definition MAX_ARCHIVED_DATAFLOWS :: nat where "MAX_ARCHIVED_DATAFLOWS = 200"
definition MAX_DATAFLOW_RESULTS :: nat where "MAX_DATAFLOW_RESULTS = 200"
definition MAX_FINISHED_BUILDS :: nat where "MAX_FINISHED_BUILDS = 100"

text \<open>\<open>while m.len() > cap { m.shift_remove_index(0) }\<close>.\<close>

definition cap_front :: "nat \<Rightarrow> 'a list \<Rightarrow> 'a list" where
  "cap_front n xs = drop (length xs - n) xs"

definition archive ::
  "'u \<Rightarrow> ('u, 'd, 'x) CoordDataflow \<Rightarrow> ('u \<times> ArchivedDataflow) list \<Rightarrow> ('u \<times> ArchivedDataflow) list" where
  "archive u df as =
     cap_front MAX_ARCHIVED_DATAFLOWS
       (if map_of as u \<noteq> None then as else as @ [(u, archived_from df)])"

definition dataflow_result :: "('u DaemonId \<times> 'x DataflowDaemonResult) list \<Rightarrow> 'x node_results" where
  "dataflow_result results =
     fold (\<lambda>(_, r) acc. fold (\<lambda>(n, e). bm_insert n e) (dr_node_results r) acc) results []"

definition stopped_result :: "'u \<Rightarrow> ('u, 'd, 'x) Coordinator \<Rightarrow> ('u, 'x) control_result" where
  "stopped_result u s =
     Inr (DataflowStopped u (case map_of (dataflow_results s) u of Some r \<Rightarrow> dataflow_result r | None \<Rightarrow> []))"

definition node_errors :: "('u DaemonId \<times> 'x DataflowDaemonResult) list \<Rightarrow> string list" where
  "node_errors results =
     List.map_filter (\<lambda>(n, r). map_option (\<lambda>e. node_str n @ '': '' @ node_error_display e) r)
       (concat (map (\<lambda>(_, r). dr_node_results r) results))"

function cap_dataflow_results ::
  "('u \<times> 'r) list \<Rightarrow> ('u \<times> 'v) list \<Rightarrow> ('u \<times> 'v) list" where
  "cap_dataflow_results running results =
     (if MAX_DATAFLOW_RESULTS < length results then
        (case position (\<lambda>(u, _). map_of running u = None) results of
           None \<Rightarrow> results
         | Some i \<Rightarrow> cap_dataflow_results running (remove_nth i results))
      else results)"
  by pat_completeness auto
termination
  by (relation "measure (\<lambda>(_, results). length results)")
    (auto dest!: position_SomeD simp: length_remove_nth)

declare cap_dataflow_results.simps [simp del]

definition cap_results :: "('u, 'd, 'x) Coordinator \<Rightarrow> ('u, 'd, 'x) Coordinator" where
  "cap_results s =
     s\<lparr> dataflow_results := cap_dataflow_results (running_dataflows s) (dataflow_results s) \<rparr>"

section \<open>Completion of a dataflow\<close>

definition finish_status :: "('u DaemonId \<times> 'x DataflowDaemonResult) list option \<Rightarrow> StoreDataflowStatus" where
  "finish_status results =
     (case results of
        None \<Rightarrow> Succeeded
      | Some rs \<Rightarrow> if node_errors rs = [] then Succeeded else Failed (str_join ''; '' (node_errors rs)) False)"

definition finish_message :: "('u DaemonId \<times> 'x DataflowDaemonResult) list option \<Rightarrow> string" where
  "finish_message results =
     (case results of
        None \<Rightarrow> ''dataflow exited before spawn completed''
      | Some rs \<Rightarrow>
          if node_errors rs = [] then ''dataflow exited before spawn completed''
          else ''dataflow failed to start:'' @ [CHR 0x0A] @ ''  '' @ str_join ([CHR 0x0A] @ ''  '') (node_errors rs))"

definition insert_started ::
  "('u::linorder, 'd) deps \<Rightarrow> ('u, 'x) env \<Rightarrow> ('u, 'd, 'x) CoordDataflow \<Rightarrow> ('u, 'd, 'x) Coordinator \<Rightarrow>
   ('u, 'd, 'x) Coordinator" where
  "insert_started D W df s =
     (case persist D (now W) Pending df (coord_store s) of
        (df, st) \<Rightarrow> put_df (df_uuid df) df (s\<lparr> coord_store := st \<rparr>))"

text \<open>The deferred second half of a restart.\<close>

definition complete_restart ::
  "('u::linorder, 'd) deps \<Rightarrow> ('u, 'x) env \<Rightarrow> 'u \<Rightarrow> ('u, 'd, 'x) Coordinator \<Rightarrow>
   ('u, 'd, 'x) Coordinator \<times> ('u, 'x) effect list" where
  "complete_restart D W u s =
     (case map_of (pending_restarts s) u of
        None \<Rightarrow> (s, [])
      | Some pr \<Rightarrow>
          let s = s\<lparr> pending_restarts := AList.delete u (pending_restarts s) \<rparr> in
          (case start_dataflow D (accepts W) (net W) (daemon_connections s) (fresh W) (now W)
                  (pr_descriptor pr) (pr_name pr) (pr_uv pr) of
             (Inl e, eff) \<Rightarrow> (s, eff @ [Answer (pr_sender pr) (Inl RestartStartFailed)])
           | (Inr df, eff) \<Rightarrow>
               (insert_started D W df s,
                eff @ [Answer (pr_sender pr) (Inr (DataflowRestarted u (df_uuid df)))])))"

definition finish_dataflow ::
  "('u::linorder, 'd) deps \<Rightarrow> ('u, 'x) env \<Rightarrow> 'u \<Rightarrow> ('u, 'd, 'x) CoordDataflow \<Rightarrow> ('u, 'd, 'x) Coordinator \<Rightarrow>
   ('u, 'd, 'x) Coordinator \<times> ('u, 'x) effect list" where
  "finish_dataflow D W u df s =
     (let s = s\<lparr> archived_dataflows := archive u df (archived_dataflows s),
                 running_dataflows := AList.delete u (running_dataflows s) \<rparr>
      in case complete_restart D W u s of
           (s, eff) \<Rightarrow>
             let reply = stopped_result u s;
                 results = map_of (dataflow_results s) u
             in case persist D (now W) (finish_status results) df (coord_store s) of
                  (df, st) \<Rightarrow>
                    (s\<lparr> coord_store := st \<rparr>,
                     eff @ map (\<lambda>w. Answer w reply) (df_stop_senders df) @
                     snd (set_result (Inl (SpawnError (finish_message results))) (df_spawn_result df))))"

definition merge_late_result ::
  "'u::linorder \<Rightarrow> 'u DaemonId \<Rightarrow> 'x DataflowDaemonResult \<Rightarrow> ('u, 'd, 'x) Coordinator \<Rightarrow> ('u, 'd, 'x) Coordinator" where
  "merge_late_result u d result s =
     (let per = (case map_of (dataflow_results s) u of None \<Rightarrow> [] | Some m \<Rightarrow> m);
          old = (case map_of per d of None \<Rightarrow> [] | Some r \<Rightarrow> dr_node_results r);
          new = \<lparr> dr_timestamp = dr_timestamp result,
                  dr_node_results = fold (\<lambda>(n, e). bm_insert n e) (dr_node_results result) old \<rparr>
      in s\<lparr> dataflow_results := AList.update u (bm_insert d new per) (dataflow_results s) \<rparr>)"

definition handle_finished_on_daemon ::
  "('u::linorder, 'd) deps \<Rightarrow> ('u, 'x) env \<Rightarrow> 'u \<Rightarrow> 'u DaemonId \<Rightarrow> 'x DataflowDaemonResult \<Rightarrow>
   ('u, 'd, 'x) Coordinator \<Rightarrow> ('u, 'd, 'x) Coordinator \<times> ('u, 'x) effect list" where
  "handle_finished_on_daemon D W u d result s =
     (case (case get_df u s of
              Some df \<Rightarrow>
                let df = df\<lparr> df_daemons := bs_remove d (df_daemons df) \<rparr>;
                    per = (case map_of (dataflow_results s) u of None \<Rightarrow> [] | Some m \<Rightarrow> m);
                    s = s\<lparr> dataflow_results := AList.update u (bm_insert d result per) (dataflow_results s) \<rparr>
                in if df_daemons df = [] then finish_dataflow D W u df s else (put_df u df s, [])
            | None \<Rightarrow>
                if map_of (archived_dataflows s) u \<noteq> None then (merge_late_result u d result s, [])
                else (s, [])) of
        (s, eff) \<Rightarrow> (cap_results s, eff))"

section \<open>Spawn results\<close>

definition fire_and_forget_rollback ::
  "('u, 'x) env \<Rightarrow> 'u DaemonConnections \<Rightarrow> 'u \<Rightarrow> 'u DaemonId list \<Rightarrow> ('u, 'x) effect list" where
  "fire_and_forget_rollback W cs u ds =
     concat (map (\<lambda>d. send_to (net W) cs d (StopDataflow u None True)) ds)"

definition cancel_pending_restart ::
  "'u \<Rightarrow> coord_error \<Rightarrow> ('u, 'd, 'x) Coordinator \<Rightarrow> ('u, 'd, 'x) Coordinator \<times> ('u, 'x) effect list" where
  "cancel_pending_restart u reason s =
     (case map_of (pending_restarts s) u of
        None \<Rightarrow> (s, [])
      | Some pr \<Rightarrow>
          (s\<lparr> pending_restarts := AList.delete u (pending_restarts s) \<rparr>, [Answer (pr_sender pr) (Inl reason)]))"

definition failed_node :: "('u, 'x) env \<Rightarrow> string \<Rightarrow> 'x NodeError" where
  "failed_node W err = \<lparr> ne_timestamp = stamp W, cause = FailedToSpawn err, exit_status = UnknownExit \<rparr>"

definition synthesize_failed_dataflow_results ::
  "('u::linorder, 'x) env \<Rightarrow> ('u, 'd, 'x) CoordDataflow \<Rightarrow> string \<Rightarrow> ('u DaemonId \<times> 'x DataflowDaemonResult) list" where
  "synthesize_failed_dataflow_results W df err =
     (let synth = map (\<lambda>d. (d, \<lparr> dr_timestamp = stamp W,
                                 dr_node_results = map (\<lambda>n. (n, Some (failed_node W err))) (nodes_on_daemon d df) \<rparr>))
                    (bs_of_list (map snd (df_node_to_daemon df)))
      in if synth = []
         then [(DaemonId (Some ''watchdog'') (fresh W),
                \<lparr> dr_timestamp = stamp W,
                  dr_node_results = [(NodeId ''watchdog'', Some (failed_node W err))] \<rparr>)]
         else synth)"

definition teardown_failed_spawn ::
  "('u::linorder, 'x) env \<Rightarrow> 'u \<Rightarrow> string \<Rightarrow> 'u DaemonId list \<Rightarrow> ('u, 'd, 'x) Coordinator \<Rightarrow>
   ('u, 'd, 'x) Coordinator \<times> ('u, 'x) effect list" where
  "teardown_failed_spawn W u err rollback s =
     (let eff = fire_and_forget_rollback W (daemon_connections s) u rollback in
      case get_df u s of
        None \<Rightarrow> (s, eff)
      | Some df \<Rightarrow>
          (case cancel_pending_restart u (RestartSpawnFailed err)
                  (s\<lparr> running_dataflows := AList.delete u (running_dataflows s) \<rparr>) of
             (s, answers) \<Rightarrow>
               let per = (case map_of (dataflow_results s) u of None \<Rightarrow> [] | Some m \<Rightarrow> m);
                   per = fold (\<lambda>(d, r). bm_insert d r) (synthesize_failed_dataflow_results W df err) per;
                   s = s\<lparr> dataflow_results := AList.update u per (dataflow_results s) \<rparr>;
                   reply = stopped_result u s;
                   s = s\<lparr> archived_dataflows := archive u df (archived_dataflows s) \<rparr>
               in (cap_results s, eff @ answers @ map (\<lambda>w. Answer w reply) (df_stop_senders df))))"

definition handle_spawn_result_ok ::
  "('u::linorder, 'd) deps \<Rightarrow> ('u, 'x) env \<Rightarrow> 'u \<Rightarrow> ('u, 'd, 'x) CoordDataflow \<Rightarrow> 'u InMemoryStore \<Rightarrow>
   ('u, 'd, 'x) CoordDataflow \<times> 'u InMemoryStore \<times> ('u, 'x) effect list" where
  "handle_spawn_result_ok D W u df st =
     (if \<not> cr_is_pending (df_spawn_result df) then (df, st, [])
      else if df_pending_spawn df = [] then
        (case set_result (Inr (DataflowSpawned u)) (df_spawn_result df) of
           (r, eff) \<Rightarrow>
             (case persist D (now W) Running (df\<lparr> df_spawn_result := r \<rparr>) st of (df, st) \<Rightarrow> (df, st, eff)))
      else (df, st, []))"

definition handle_spawn_result_err ::
  "('u::linorder, 'd) deps \<Rightarrow> ('u, 'x) env \<Rightarrow> 'u \<Rightarrow> string \<Rightarrow> ('u, 'd, 'x) CoordDataflow \<Rightarrow> 'u InMemoryStore \<Rightarrow>
   ('u, 'd, 'x) CoordDataflow \<times> 'u InMemoryStore \<times> ('u, 'x) effect list" where
  "handle_spawn_result_err D W u err df st =
     (if \<not> cr_is_pending (df_spawn_result df) then (df, st, [])
      else
        (case persist D (now W) (Failed (''spawn failed: '' @ err) True) df st of
           (df, st) \<Rightarrow>
             (case set_result (Inl (SpawnError err)) (df_spawn_result df) of
                (r, eff) \<Rightarrow> (df\<lparr> df_spawn_result := r \<rparr>, st, eff))))"

definition started_daemons :: "('u, 'd, 'x) CoordDataflow \<Rightarrow> 'u DaemonId list" where
  "started_daemons df = filter (\<lambda>d. d \<notin> set (df_pending_spawn df)) (df_daemons df)"

definition handle_dataflow_spawn_result ::
  "('u::linorder, 'd) deps \<Rightarrow> ('u, 'x) env \<Rightarrow> 'u \<Rightarrow> 'u DaemonId \<Rightarrow> string option \<Rightarrow> ('u, 'd, 'x) Coordinator \<Rightarrow>
   ('u, 'd, 'x) Coordinator \<times> ('u, 'x) effect list" where
  "handle_dataflow_spawn_result D W u d result s =
     (case get_df u s of
        Some df \<Rightarrow>
          let df = df\<lparr> df_pending_spawn := bs_remove d (df_pending_spawn df) \<rparr> in
          (case result of
             None \<Rightarrow>
               (case handle_spawn_result_ok D W u df (coord_store s) of
                  (df, st, eff) \<Rightarrow> (put_df u df (s\<lparr> coord_store := st \<rparr>), eff))
           | Some err \<Rightarrow>
               let terminal = cr_is_pending (df_spawn_result df);
                   msg = ''spawn failed on daemon '' @ [CHR 0x60] @ daemon_id_display (show_uuid D) d @ [CHR 0x60] @
                         '': '' @ err
               in case handle_spawn_result_err D W u err df (coord_store s) of
                    (df, st, eff) \<Rightarrow>
                      let s = put_df u df (s\<lparr> coord_store := st \<rparr>) in
                      if terminal then
                        (case teardown_failed_spawn W u msg (started_daemons df) s of (s, eff') \<Rightarrow> (s, eff @ eff'))
                      else (s, eff))
      | None \<Rightarrow>
          if result = None \<and> map_of (archived_dataflows s) u \<noteq> None
          then (s, fire_and_forget_rollback W (daemon_connections s) u [d])
          else (s, []))"

text \<open>The variable \<open>DORA_SPAWN_RESULT_TIMEOUT_SECS\<close>, in milliseconds.\<close>

definition SPAWN_RESULT_TIMEOUT_DEFAULT :: nat where "SPAWN_RESULT_TIMEOUT_DEFAULT = 60000"
definition BUILD_RESULT_TIMEOUT_DEFAULT :: nat where "BUILD_RESULT_TIMEOUT_DEFAULT = 1200000"

definition timeout_setting :: "nat \<Rightarrow> string option \<Rightarrow> nat" where
  "timeout_setting dflt var =
     (case var of
        None \<Rightarrow> dflt
      | Some v \<Rightarrow> (case parse_uint u64_max v of None \<Rightarrow> dflt | Some n \<Rightarrow> if 0 < n then n * 1000 else dflt))"

definition spawn_result_timeout :: "string option \<Rightarrow> nat" where
  "spawn_result_timeout = timeout_setting SPAWN_RESULT_TIMEOUT_DEFAULT"

definition build_result_timeout :: "string option \<Rightarrow> nat" where
  "build_result_timeout = timeout_setting BUILD_RESULT_TIMEOUT_DEFAULT"

definition timeout_message :: "nat \<Rightarrow> nat \<Rightarrow> nat \<Rightarrow> string" where
  "timeout_message timeout pending succeeded =
     ''spawn timed out after '' @ show_nat (timeout div 1000) @ ''s; '' @ show_nat pending @
     '' daemon(s) never reported spawn_result; rolled back '' @ show_nat succeeded @
     '' previously-started daemon(s)''"

definition fail_stuck_spawn ::
  "('u::linorder, 'd) deps \<Rightarrow> ('u, 'x) env \<Rightarrow> nat \<Rightarrow> 'u \<times> 'u DaemonId list \<times> nat \<Rightarrow>
   ('u, 'd, 'x) Coordinator \<Rightarrow> ('u, 'd, 'x) Coordinator \<times> ('u, 'x) effect list" where
  "fail_stuck_spawn D W timeout stuck s =
     (case stuck of
        (u, succeeded, pending) \<Rightarrow>
          let msg = timeout_message timeout pending (length succeeded);
              (s, eff) = (case get_df u s of
                  None \<Rightarrow> (s, [])
                | Some df \<Rightarrow>
                    (case set_result (Inl (SpawnError msg)) (df_spawn_result df) of
                       (r, eff) \<Rightarrow>
                         (case persist D (now W) (Failed msg True) (df\<lparr> df_spawn_result := r \<rparr>) (coord_store s) of
                            (df, st) \<Rightarrow> (put_df u df (s\<lparr> coord_store := st \<rparr>), eff))))
          in case teardown_failed_spawn W u msg succeeded s of (s, eff') \<Rightarrow> (s, eff @ eff'))"

text \<open>Run a handler for each element of a list, collecting the effects.\<close>

fun each :: "('a \<Rightarrow> 's \<Rightarrow> 's \<times> 'e list) \<Rightarrow> 'a list \<Rightarrow> 's \<Rightarrow> 's \<times> 'e list" where
  "each f [] s = (s, [])"
| "each f (x # xs) s = (case f x s of (s, eff) \<Rightarrow> case each f xs s of (s, eff') \<Rightarrow> (s, eff @ eff'))"

definition check_spawn_timeouts ::
  "('u::linorder, 'd) deps \<Rightarrow> ('u, 'x) env \<Rightarrow> nat \<Rightarrow> ('u, 'd, 'x) Coordinator \<Rightarrow>
   ('u, 'd, 'x) Coordinator \<times> ('u, 'x) effect list" where
  "check_spawn_timeouts D W timeout s =
     each (fail_stuck_spawn D W timeout)
       (map (\<lambda>(u, df). (u, started_daemons df, length (df_pending_spawn df)))
          (filter (\<lambda>(u, df). cr_is_pending (df_spawn_result df) \<and> timeout < now W - df_spawn_started_at df)
             (running_dataflows s))) s"

section \<open>Builds\<close>

definition finalize_build ::
  "'u \<Rightarrow> ('u, 'x) RunningBuild \<Rightarrow> ('u, 'd, 'x) Coordinator \<Rightarrow> ('u, 'd, 'x) Coordinator \<times> ('u, 'x) effect list" where
  "finalize_build b build s =
     (let result = (if rb_errors build = [] then None
                    else Some (''build failed: '' @ str_join [CHR 0x0A, CHR 0x0A] (rb_errors build)))
      in case set_result (Inr (DataflowBuildFinished b result)) (rb_result build) of
           (r, eff) \<Rightarrow>
             (s\<lparr> finished_builds := cap_front MAX_FINISHED_BUILDS (AList.update b r (finished_builds s)) \<rparr>, eff))"

definition handle_build_result ::
  "'u \<Rightarrow> 'u DaemonId \<Rightarrow> string option \<Rightarrow> ('u, 'd, 'x) Coordinator \<Rightarrow>
   ('u, 'd, 'x) Coordinator \<times> ('u, 'x) effect list" where
  "handle_build_result b d result s =
     (case map_of (running_builds s) b of
        None \<Rightarrow> (s, [])
      | Some build \<Rightarrow>
          let build = build\<lparr> rb_pending := bs_remove d (rb_pending build),
                             rb_errors := rb_errors build @ (case result of None \<Rightarrow> [] | Some e \<Rightarrow> [e]) \<rparr>
          in if rb_pending build = []
             then finalize_build b build (s\<lparr> running_builds := AList.delete b (running_builds s) \<rparr>)
             else (s\<lparr> running_builds := AList.update b build (running_builds s) \<rparr>, []))"

definition fail_stuck_build ::
  "nat \<Rightarrow> 'u \<times> nat \<Rightarrow> ('u, 'd, 'x) Coordinator \<Rightarrow> ('u, 'd, 'x) Coordinator \<times> ('u, 'x) effect list" where
  "fail_stuck_build timeout stuck s =
     (case stuck of
        (b, pending) \<Rightarrow>
          (case map_of (running_builds s) b of
             None \<Rightarrow> (s, [])
           | Some build \<Rightarrow>
               (case set_result (Inl (BuildTimedOut (timeout div 1000) pending)) (rb_result build) of
                  (r, eff) \<Rightarrow>
                    (s\<lparr> running_builds := AList.delete b (running_builds s),
                        finished_builds := cap_front MAX_FINISHED_BUILDS (AList.update b r (finished_builds s)) \<rparr>,
                     eff))))"

definition check_build_timeouts ::
  "('u, 'x) env \<Rightarrow> nat \<Rightarrow> ('u, 'd, 'x) Coordinator \<Rightarrow> ('u, 'd, 'x) Coordinator \<times> ('u, 'x) effect list" where
  "check_build_timeouts W timeout s =
     each (fail_stuck_build timeout)
       (map (\<lambda>(b, build). (b, length (rb_pending build)))
          (filter (\<lambda>(b, build). cr_is_pending (rb_result build) \<and> timeout < now W - rb_started_at build)
             (running_builds s))) s"

section \<open>Heartbeats and disconnects\<close>

definition MAX_CONSECUTIVE_HEARTBEAT_SEND_TIMEOUTS :: nat where
  "MAX_CONSECUTIVE_HEARTBEAT_SEND_TIMEOUTS = 10"

definition u32_max :: nat where "u32_max = 2 ^ 32 - 1"

datatype HeartbeatSendOutcome = Delivered | HeartbeatSendFailed | TimedOut

definition heartbeat_disconnect_decision :: "HeartbeatSendOutcome \<Rightarrow> nat \<Rightarrow> nat \<times> bool" where
  "heartbeat_disconnect_decision outcome timeouts =
     (case outcome of
        Delivered \<Rightarrow> (0, False)
      | HeartbeatSendFailed \<Rightarrow> (0, True)
      | TimedOut \<Rightarrow>
          let streak = min u32_max (timeouts + 1)
          in (streak, MAX_CONSECUTIVE_HEARTBEAT_SEND_TIMEOUTS \<le> streak))"

text \<open>One daemon in a tick: whether it is disconnected, and its connection after the attempt.\<close>

definition heartbeat_connection ::
  "('u, 'x) env \<Rightarrow> ('u DaemonId \<Rightarrow> HeartbeatSendOutcome) \<Rightarrow> 'u DaemonId \<times> 'u DaemonConnection \<Rightarrow>
   ('u DaemonId \<times> 'u DaemonConnection) \<times> bool" where
  "heartbeat_connection W outcome dc =
     (case dc of
        (d, c) \<Rightarrow>
          if 30000 < now W - last_heartbeat c then (dc, True)
          else (case heartbeat_disconnect_decision (outcome d) (consecutive_heartbeat_send_timeouts c) of
                  (streak, disconnect) \<Rightarrow> ((d, c\<lparr> consecutive_heartbeat_send_timeouts := streak \<rparr>), disconnect)))"

datatype 'u DisconnectAction = ReleaseReadyBarrier 'u | ReclaimOrphaned 'u

definition prune_daemons ::
  "'u DaemonId list \<Rightarrow> ('u, 'd, 'x) CoordDataflow \<Rightarrow> ('u, 'd, 'x) CoordDataflow" where
  "prune_daemons gone df =
     df\<lparr> df_daemons := filter (\<lambda>d. d \<notin> set gone) (df_daemons df),
         df_pending_daemons := filter (\<lambda>d. d \<notin> set gone) (df_pending_daemons df),
         df_pending_spawn := filter (\<lambda>d. d \<notin> set gone) (df_pending_spawn df) \<rparr>"

definition affected :: "'u DaemonId list \<Rightarrow> ('u, 'd, 'x) CoordDataflow \<Rightarrow> bool" where
  "affected gone df \<longleftrightarrow>
     (\<exists>d\<in>set gone. d \<in> set (df_daemons df) \<or> d \<in> set (df_pending_daemons df) \<or> d \<in> set (df_pending_spawn df))"

definition disconnect_action ::
  "'u DaemonId list \<Rightarrow> ('u, 'd, 'x) CoordDataflow \<Rightarrow> 'u DisconnectAction option" where
  "disconnect_action gone df =
     (let df' = prune_daemons gone df; spawned_ok = is_cached_ok (df_spawn_result df) in
      if \<not> affected gone df then None
      else if df_daemons df' = [] then (if spawned_ok then Some (ReclaimOrphaned (df_uuid df)) else None)
      else if spawned_ok \<and> df_pending_daemons df \<noteq> [] \<and> df_pending_daemons df' = []
      then Some (ReleaseReadyBarrier (df_uuid df)) else None)"

definition cleanup_disconnected_daemons_from_running_dataflows ::
  "'u DaemonId list \<Rightarrow> ('u, 'd, 'x) Coordinator \<Rightarrow>
   'u DisconnectAction list \<times> ('u, 'd, 'x) Coordinator \<times> ('u, 'x) effect list" where
  "cleanup_disconnected_daemons_from_running_dataflows gone s =
     (let dfs = map snd (running_dataflows s);
          actions = List.map_filter (disconnect_action gone) dfs;
          s' = s\<lparr> running_dataflows := map (\<lambda>(u, df). (u, prune_daemons gone df)) (running_dataflows s) \<rparr>
      in case each (\<lambda>u. cancel_pending_restart u RestartDisconnected) (map df_uuid (filter (affected gone) dfs)) s' of
           (s', eff) \<Rightarrow> (actions, s', eff))"

definition begin_orphaned_dataflow_reclaim ::
  "('u::linorder, 'd) deps \<Rightarrow> ('u, 'x) env \<Rightarrow> 'u \<Rightarrow> ('u, 'd, 'x) Coordinator \<Rightarrow>
   ('u, 'd, 'x) Coordinator \<times> ('u, 'x) effect list" where
  "begin_orphaned_dataflow_reclaim D W u s =
     (case get_df u s of
        None \<Rightarrow> (s, [])
      | Some df \<Rightarrow>
          (case persist D (now W) Recovering df (coord_store s) of
             (df, st) \<Rightarrow>
               (s\<lparr> running_dataflows := AList.delete u (running_dataflows s), coord_store := st \<rparr>,
                map (\<lambda>w. Answer w (Inr (DataflowStopped u []))) (df_stop_senders df))))"

definition apply_disconnect_action ::
  "('u::linorder, 'd) deps \<Rightarrow> ('u, 'x) env \<Rightarrow> 'u DisconnectAction \<Rightarrow> ('u, 'd, 'x) Coordinator \<Rightarrow>
   ('u, 'd, 'x) Coordinator \<times> ('u, 'x) effect list" where
  "apply_disconnect_action D W action s =
     (case action of
        ReleaseReadyBarrier u \<Rightarrow>
          (case get_df u s of None \<Rightarrow> (s, []) | Some df \<Rightarrow> broadcast_all_nodes_ready D W u df s)
      | ReclaimOrphaned u \<Rightarrow> begin_orphaned_dataflow_reclaim D W u s)"

definition disconnect_build ::
  "('u, 'd) deps \<Rightarrow> 'u DaemonId list \<Rightarrow> ('u, 'x) RunningBuild \<Rightarrow> ('u, 'x) RunningBuild" where
  "disconnect_build D gone build =
     (let lost = filter (\<lambda>d. d \<in> set (rb_pending build)) gone in
      build\<lparr> rb_pending := filter (\<lambda>d. d \<notin> set gone) (rb_pending build),
             rb_errors := rb_errors build @
               map (\<lambda>d. ''daemon '' @ [CHR 0x60] @ daemon_id_display (show_uuid D) d @ [CHR 0x60] @
                        '' disconnected before reporting its build result'') lost \<rparr>)"

definition build_emptied :: "'u DaemonId list \<Rightarrow> ('u, 'x) RunningBuild \<Rightarrow> bool" where
  "build_emptied gone build \<longleftrightarrow>
     (\<exists>d\<in>set gone. d \<in> set (rb_pending build)) \<and> (\<forall>d\<in>set (rb_pending build). d \<in> set gone)"

definition finalize_disconnected_build ::
  "'u \<Rightarrow> ('u, 'd, 'x) Coordinator \<Rightarrow> ('u, 'd, 'x) Coordinator \<times> ('u, 'x) effect list" where
  "finalize_disconnected_build b s =
     (case map_of (running_builds s) b of
        None \<Rightarrow> (s, [])
      | Some build \<Rightarrow> finalize_build b build (s\<lparr> running_builds := AList.delete b (running_builds s) \<rparr>))"

definition cleanup_disconnected_daemons_from_running_builds ::
  "('u, 'd) deps \<Rightarrow> 'u DaemonId list \<Rightarrow> ('u, 'd, 'x) Coordinator \<Rightarrow>
   ('u, 'd, 'x) Coordinator \<times> ('u, 'x) effect list" where
  "cleanup_disconnected_daemons_from_running_builds D gone s =
     each finalize_disconnected_build
       (map fst (filter (\<lambda>(b, build). build_emptied gone build) (running_builds s)))
       (s\<lparr> running_builds := map (\<lambda>(b, build). (b, disconnect_build D gone build)) (running_builds s) \<rparr>)"

definition notify_daemons_about_disconnected_peers ::
  "('u, 'x) env \<Rightarrow> 'u DaemonId list \<Rightarrow> 'u DaemonConnections \<Rightarrow> ('u, 'x) effect list" where
  "notify_daemons_about_disconnected_peers W gone cs =
     concat (map (\<lambda>g. concat (map (\<lambda>(d, _). send_to (net W) cs d (PeerDaemonDisconnected g)) cs)) gone)"

text \<open>What the watchdog and the exit of a daemon have in common.\<close>

definition disconnect_daemons ::
  "('u::linorder, 'd) deps \<Rightarrow> ('u, 'x) env \<Rightarrow> 'u DaemonId list \<Rightarrow> ('u, 'd, 'x) Coordinator \<Rightarrow>
   ('u, 'd, 'x) Coordinator \<times> ('u, 'x) effect list" where
  "disconnect_daemons D W gone s =
     (let s = s\<lparr> daemon_connections := fold AList.delete gone (daemon_connections s),
                 coord_store := fold mem_unregister_daemon gone (coord_store s) \<rparr>
      in case cleanup_disconnected_daemons_from_running_dataflows gone s of
           (actions, s, eff) \<Rightarrow>
             (case each (apply_disconnect_action D W) actions s of
                (s, eff') \<Rightarrow>
                  (case cleanup_disconnected_daemons_from_running_builds D gone s of
                     (s, eff'') \<Rightarrow>
                       (s, eff @ eff' @ eff'' @
                           notify_daemons_about_disconnected_peers W gone (daemon_connections s)))))"

definition handle_daemon_exit ::
  "('u::linorder, 'd) deps \<Rightarrow> ('u, 'x) env \<Rightarrow> 'u DaemonId \<Rightarrow> 'u \<Rightarrow> ('u, 'd, 'x) Coordinator \<Rightarrow>
   ('u, 'd, 'x) Coordinator \<times> ('u, 'x) effect list" where
  "handle_daemon_exit D W d conn s =
     (if connection_id_of d (daemon_connections s) = Some conn then disconnect_daemons D W [d] s else (s, []))"

definition NODE_STOPPED_GRACE :: nat where "NODE_STOPPED_GRACE = 60000"

definition expire_stopped_nodes :: "nat \<Rightarrow> ('u, 'd, 'x) CoordDataflow \<Rightarrow> ('u, 'd, 'x) CoordDataflow" where
  "expire_stopped_nodes t df =
     (let expired = map fst (filter (\<lambda>(_, at). NODE_STOPPED_GRACE \<le> t - at) (df_stopped_at df)) in
      df\<lparr> df_metrics := filter (\<lambda>(n, _). n \<notin> set expired) (df_metrics df),
          df_stopped_at := filter (\<lambda>(n, _). n \<notin> set expired) (df_stopped_at df),
          df_finalized := filter (\<lambda>n. n \<notin> set expired) (df_finalized df) \<rparr>)"

definition RECOVERY_TIMEOUT_SECS :: nat where "RECOVERY_TIMEOUT_SECS = 60"

definition recovery_timeout_record :: "nat \<Rightarrow> 'u::linorder DataflowRecord \<Rightarrow> 'u InMemoryStore \<Rightarrow> 'u InMemoryStore" where
  "recovery_timeout_record t r st =
     (if rec_status r = Recovering \<and> RECOVERY_TIMEOUT_SECS * 1000 < t - rec_updated_at r
      then mem_put_dataflow
             (r\<lparr> rec_status := Failed (''recovery timeout ('' @ show_nat RECOVERY_TIMEOUT_SECS @
                                     ''s): no daemon reconnected'') True,
                 rec_generation := rec_generation r + 1, rec_updated_at := t \<rparr>) st
      else st)"

definition check_recovery_timeouts :: "nat \<Rightarrow> 'u::linorder InMemoryStore \<Rightarrow> 'u InMemoryStore" where
  "check_recovery_timeouts t st = fold (recovery_timeout_record t) (mem_list_dataflows st) st"

definition handle_heartbeat_interval ::
  "('u::linorder, 'd) deps \<Rightarrow> ('u, 'x) env \<Rightarrow> nat \<Rightarrow> nat \<Rightarrow> ('u DaemonId \<Rightarrow> HeartbeatSendOutcome) \<Rightarrow>
   ('u, 'd, 'x) Coordinator \<Rightarrow> ('u, 'd, 'x) Coordinator \<times> ('u, 'x) effect list" where
  "handle_heartbeat_interval D W spawn_timeout build_timeout outcome s =
     (let beats = map (heartbeat_connection W outcome) (daemon_connections s);
          gone = map (fst \<circ> fst) (filter snd beats);
          s = s\<lparr> running_dataflows := map (\<lambda>(u, df). (u, expire_stopped_nodes (now W) df)) (running_dataflows s),
                 daemon_connections := map fst beats \<rparr>
      in case (if gone \<noteq> [] then disconnect_daemons D W gone s else (s, [])) of
           (s, eff) \<Rightarrow>
             (case check_spawn_timeouts D W spawn_timeout s of
                (s, eff') \<Rightarrow>
                  (case check_build_timeouts W build_timeout s of
                     (s, eff'') \<Rightarrow>
                       (s\<lparr> coord_store := check_recovery_timeouts (now W) (coord_store s) \<rparr>, eff @ eff' @ eff''))))"

section \<open>Connections, metrics, stopped nodes\<close>

definition handle_register ::
  "('u::linorder, 'x) env \<Rightarrow> string option \<Rightarrow> bool \<Rightarrow> (string \<times> string) list \<Rightarrow> 'u DaemonConnection \<Rightarrow> bool \<Rightarrow>
   ('u, 'd, 'x) Coordinator \<Rightarrow> ('u, 'd, 'x) Coordinator" where
  "handle_register W machine version_ok labels conn sent s =
     (let existing = (case machine of
              Some m \<Rightarrow> get_matching_daemon_id m (daemon_connections s)
            | None \<Rightarrow> find (\<lambda>_. True) (unnamed (daemon_connections s)));
          d = (case existing of Some d \<Rightarrow> d | None \<Rightarrow> DaemonId machine (fresh W))
      in if version_ok \<and> sent then
           s\<lparr> daemon_connections := bm_insert d conn (daemon_connections s),
              coord_store := mem_register_daemon
                \<lparr> di_daemon_id = d, di_machine_id = machine_id d, di_labels = labels \<rparr> (coord_store s) \<rparr>
         else s)"

definition handle_daemon_heartbeat ::
  "('u, 'x) env \<Rightarrow> 'u DaemonId \<Rightarrow> ('u, 'd, 'x) Coordinator \<Rightarrow> ('u, 'd, 'x) Coordinator" where
  "handle_daemon_heartbeat W d s =
     s\<lparr> daemon_connections := AList.map_entry d (\<lambda>c. c\<lparr> last_heartbeat := now W \<rparr>) (daemon_connections s) \<rparr>"

definition handle_daemon_zenoh_endpoint ::
  "'u DaemonId \<Rightarrow> 'u \<Rightarrow> string option \<Rightarrow> ('u, 'd, 'x) Coordinator \<Rightarrow> ('u, 'd, 'x) Coordinator" where
  "handle_daemon_zenoh_endpoint d conn e s =
     (if connection_id_of d (daemon_connections s) = Some conn
      then s\<lparr> daemon_connections := set_zenoh_endpoint d e (daemon_connections s) \<rparr> else s)"

definition handle_node_metrics ::
  "('u, 'x) env \<Rightarrow> 'u \<Rightarrow> (NodeId \<times> NodeMetrics) list \<Rightarrow> ('u, 'd, 'x) Coordinator \<Rightarrow> ('u, 'd, 'x) Coordinator" where
  "handle_node_metrics W u metrics s =
     (case get_df u s of
        None \<Rightarrow> s
      | Some df \<Rightarrow>
          let df = expire_stopped_nodes (now W) df in
          put_df u (df\<lparr> df_metrics := fold (\<lambda>(n, m). bm_insert n m)
             (filter (\<lambda>(n, _). n \<notin> set (df_finalized df)) metrics) (df_metrics df) \<rparr>) s)"

definition stopped_metrics :: "NodeStatus \<Rightarrow> NodeMetrics option \<Rightarrow> NodeMetrics" where
  "stopped_metrics status old =
     (let m = (case old of
           Some m \<Rightarrow> m
         | None \<Rightarrow> \<lparr> nm_pid = 0, nm_cpu_usage = 0, nm_memory_bytes = 0, nm_disk_read_bytes = None,
                     nm_disk_write_bytes = None, nm_restart_count = 0, nm_broken_inputs = [],
                     nm_status = status, nm_pending_messages = 0 \<rparr>)
      in m\<lparr> nm_status := status, nm_pid := 0, nm_cpu_usage := 0, nm_memory_bytes := 0,
            nm_disk_read_bytes := None, nm_disk_write_bytes := None \<rparr>)"

definition handle_daemon_node_stopped ::
  "('u, 'x) env \<Rightarrow> 'u DaemonId \<Rightarrow> 'u \<Rightarrow> NodeId \<Rightarrow> bool \<Rightarrow> ('u, 'd, 'x) Coordinator \<Rightarrow> ('u, 'd, 'x) Coordinator" where
  "handle_daemon_node_stopped W d u n clean s =
     (case get_df u s of
        None \<Rightarrow> s
      | Some df \<Rightarrow>
          if map_of (df_node_to_daemon df) n = Some d then
            let m = stopped_metrics (if clean then NodeStopped else NodeFailed) (map_of (df_metrics df) n) in
            put_df u (df\<lparr> df_metrics := bm_insert n m (df_metrics df),
                          df_finalized := bs_insert n (df_finalized df),
                          df_stopped_at := (if clean then bm_insert n (now W) (df_stopped_at df)
                                            else AList.delete n (df_stopped_at df)) \<rparr>) s
          else s)"

section \<open>Status reports\<close>

record 'u DataflowStatusEntry =
  se_dataflow :: 'u
  se_running_nodes :: "NodeId list"

definition reestablish_running_dataflow ::
  "('u, 'd) deps \<Rightarrow> ('u::linorder, 'x) env \<Rightarrow> 'u DataflowRecord \<Rightarrow> 'u DaemonId \<Rightarrow> NodeId list \<Rightarrow>
   ('u, 'd, 'x) Coordinator \<Rightarrow> (('u, 'd, 'x) Coordinator \<times> bool) option" where
  "reestablish_running_dataflow D W r d reported s =
     (case get_df (rec_uuid r) s of
        Some df \<Rightarrow>
          let df = df\<lparr> df_daemons := bs_insert d (df_daemons df),
                       df_pending_daemons := bs_remove d (df_pending_daemons df),
                       df_pending_spawn := bs_remove d (df_pending_spawn df),
                       df_node_to_daemon := fold (\<lambda>n. bm_insert n d) reported (df_node_to_daemon df) \<rparr>
          in Some (put_df (rec_uuid r) df s, df_released df)
      | None \<Rightarrow>
          (case from_json D (descriptor_json r) of
             None \<Rightarrow> Some (s, False)
           | Some descr \<Rightarrow>
               (case resolve_nodes D descr of
                  None \<Rightarrow> Some (s, False)
                | Some nodes \<Rightarrow>
                    (case recovered r descr nodes d reported (now W) of
                       None \<Rightarrow> None
                     | Some df \<Rightarrow> Some (put_df (rec_uuid r) df s, rec_ready_barrier_released r)))))"

definition status_report_should_stop_orphan :: "StoreDataflowStatus \<Rightarrow> bool" where
  "status_report_should_stop_orphan st = (case st of Failed _ terminal \<Rightarrow> terminal | Succeeded \<Rightarrow> True | _ \<Rightarrow> False)"

definition stop_orphaned_dataflow_on_daemon ::
  "('u, 'x) env \<Rightarrow> 'u DaemonConnections \<Rightarrow> 'u \<Rightarrow> 'u DaemonId \<Rightarrow> ('u, 'x) effect list" where
  "stop_orphaned_dataflow_on_daemon W cs u d = send_to (net W) cs d (StopDataflow u None False)"

definition relink ::
  "('u, 'd) deps \<Rightarrow> ('u::linorder, 'x) env \<Rightarrow> 'u DataflowRecord \<Rightarrow> 'u DaemonId \<Rightarrow> NodeId list \<Rightarrow>
   ('u, 'd, 'x) Coordinator \<Rightarrow> (('u, 'd, 'x) Coordinator \<times> ('u, 'x) effect list) option" where
  "relink D W r d reported s =
     (case reestablish_running_dataflow D W r d reported s of
        None \<Rightarrow> None
      | Some (s, released) \<Rightarrow>
          Some (s, case get_df (rec_uuid r) s of
                     Some df \<Rightarrow>
                       if released then replay_all_nodes_ready W (daemon_connections s) (rec_uuid r) df d else []
                   | None \<Rightarrow> []))"

definition reconcile_entry ::
  "('u, 'd) deps \<Rightarrow> ('u::linorder, 'x) env \<Rightarrow> 'u DaemonId \<Rightarrow> 'u DataflowStatusEntry \<Rightarrow>
   ('u, 'd, 'x) Coordinator \<Rightarrow> (('u, 'd, 'x) Coordinator \<times> ('u, 'x) effect list) option" where
  "reconcile_entry D W d e s =
     (let u = se_dataflow e in
      if map_of (archived_dataflows s) u \<noteq> None
      then Some (s, stop_orphaned_dataflow_on_daemon W (daemon_connections s) u d)
      else case mem_get_dataflow u (coord_store s) of
             None \<Rightarrow> Some (s, [])
           | Some r \<Rightarrow>
               let promote = (let r = r\<lparr> rec_status := Running, rec_generation := rec_generation r + 1,
                                         rec_updated_at := now W \<rparr>
                              in relink D W r d (se_running_nodes e)
                                   (s\<lparr> coord_store := mem_put_dataflow r (coord_store s) \<rparr>))
               in case rec_status r of
                    Failed _ terminal \<Rightarrow>
                      if terminal
                      then Some (s, stop_orphaned_dataflow_on_daemon W (daemon_connections s) u d) else promote
                  | Pending \<Rightarrow> promote
                  | Recovering \<Rightarrow> promote
                  | Running \<Rightarrow> relink D W r d (se_running_nodes e) s
                  | Succeeded \<Rightarrow> Some (s, stop_orphaned_dataflow_on_daemon W (daemon_connections s) u d)
                  | Stopping \<Rightarrow> Some (s, []))"

fun reconcile ::
  "('u, 'd) deps \<Rightarrow> ('u::linorder, 'x) env \<Rightarrow> 'u DaemonId \<Rightarrow> 'u DataflowStatusEntry list \<Rightarrow>
   ('u, 'd, 'x) Coordinator \<Rightarrow> (('u, 'd, 'x) Coordinator \<times> ('u, 'x) effect list) option" where
  "reconcile D W d [] s = Some (s, [])"
| "reconcile D W d (e # es) s =
     (case reconcile_entry D W d e s of
        None \<Rightarrow> None
      | Some (s, eff) \<Rightarrow>
          (case reconcile D W d es s of None \<Rightarrow> None | Some (s, eff') \<Rightarrow> Some (s, eff @ eff')))"

definition RECOVERY_BACKOFF :: nat where "RECOVERY_BACKOFF = 30000"

text \<open>Automatic recovery of one dataflow that the daemon should run but does not report.\<close>

definition auto_recover ::
  "('u::linorder, 'x) env \<Rightarrow> 'u DaemonId \<Rightarrow> 'u list \<Rightarrow> 'u DaemonConnections \<Rightarrow> 'u \<times> ('u, 'd, 'x) CoordDataflow \<Rightarrow>
   ('u \<times> ('u, 'd, 'x) CoordDataflow) \<times> ('u, 'x) effect list" where
  "auto_recover W d reported cs udf =
     (case udf of
        (u, df) \<Rightarrow>
          if d \<notin> set (df_daemons df) then (udf, [])
          else if u \<in> set reported
          then ((u, df\<lparr> df_last_recovery := AList.delete d (df_last_recovery df) \<rparr>), [])
          else if (case map_of (df_last_recovery df) d of
                     Some at \<Rightarrow> now W - at < RECOVERY_BACKOFF | None \<Rightarrow> False)
          then (udf, [])
          else if d \<in> set (df_pending_spawn df) \<or> is_terminal_error (df_spawn_result df) then (udf, [])
          else if nodes_on_daemon d df = [] then (udf, [])
          else ((u, df\<lparr> df_last_recovery := bm_insert d (now W) (df_last_recovery df) \<rparr>),
                send_to (net W) cs d (SpawnNodes u (nodes_on_daemon d df))))"

section \<open>Parameters\<close>

definition collect_param_replay_items ::
  "'u::linorder \<Rightarrow> NodeId list \<Rightarrow> 'u InMemoryStore \<Rightarrow> (NodeId \<times> string \<times> string) list" where
  "collect_param_replay_items u nodes st =
     concat (map (\<lambda>n. case mem_list_node_params u n st of
                        Inl _ \<Rightarrow> []
                      | Inr ps \<Rightarrow> map (\<lambda>(k, v). (n, k, v)) ps) nodes)"

text \<open>Each item is sent and its answer awaited. The first result counts the items that failed.\<close>

fun replay_items ::
  "('u, 'd) deps \<Rightarrow> ('u, 'x) env \<Rightarrow> 'u DaemonConnections \<Rightarrow> 'u \<Rightarrow> 'u DaemonId \<Rightarrow>
   (NodeId \<times> string \<times> string) list \<Rightarrow> nat \<times> ('u, 'x) effect list" where
  "replay_items D W cs u d [] = (0, [])"
| "replay_items D W cs u d ((n, k, v) # items) =
     (let sent = (if json_valid D v then send_to (net W) cs d (SetParamEvent u n k v) else []);
          failed = (if sent \<noteq> [] \<and> applies W d n k then 0 else 1)
      in case replay_items D W cs u d items of (f, eff) \<Rightarrow> (failed + f, sent @ eff))"

definition replay_persisted_params_for_daemon ::
  "('u::linorder, 'd) deps \<Rightarrow> ('u, 'x) env \<Rightarrow> 'u DaemonConnections \<Rightarrow> 'u \<Rightarrow> 'u DaemonId \<Rightarrow> NodeId list \<Rightarrow>
   'u InMemoryStore \<Rightarrow> nat \<times> ('u, 'x) effect list" where
  "replay_persisted_params_for_daemon D W cs u d nodes st =
     replay_items D W cs u d (collect_param_replay_items u nodes st)"

definition FALLBACK_REPLAY_BACKOFF :: nat where "FALLBACK_REPLAY_BACKOFF = 5000"

definition handle_pruned_state_catchup_fallback ::
  "('u::linorder, 'd) deps \<Rightarrow> ('u, 'x) env \<Rightarrow> 'u DaemonConnections \<Rightarrow> 'u InMemoryStore \<Rightarrow> 'u DaemonId \<Rightarrow> 'u \<Rightarrow>
   ('u, 'd, 'x) CoordDataflow \<Rightarrow> ('u, 'd, 'x) CoordDataflow \<times> ('u, 'x) effect list" where
  "handle_pruned_state_catchup_fallback D W cs st d u df =
     (if (case map_of (df_last_replay df) d of Some at \<Rightarrow> now W - at < FALLBACK_REPLAY_BACKOFF | None \<Rightarrow> False)
      then (df, [])
      else if map_of cs d = None then (df, [])
      else
        (case replay_persisted_params_for_daemon D W cs u d (nodes_on_daemon d df) st of
           (failed, eff) \<Rightarrow>
             let df = df\<lparr> df_last_replay := bm_insert d (now W) (df_last_replay df) \<rparr> in
             (if failed = 0 then df\<lparr> df_acks := bm_insert d (df_log_sequence df) (df_acks df) \<rparr> else df, eff)))"

definition catch_up ::
  "('u::linorder, 'd) deps \<Rightarrow> ('u, 'x) env \<Rightarrow> 'u DaemonConnections \<Rightarrow> 'u InMemoryStore \<Rightarrow> 'u DaemonId \<Rightarrow> 'u list \<Rightarrow>
   'u \<times> ('u, 'd, 'x) CoordDataflow \<Rightarrow> ('u \<times> ('u, 'd, 'x) CoordDataflow) \<times> ('u, 'x) effect list" where
  "catch_up D W cs st d reported udf =
     (case udf of
        (u, df) \<Rightarrow>
          if d \<notin> set (df_daemons df) \<or> u \<notin> set reported then (udf, [])
          else if df_log_sequence df \<le> ack_of d df then (udf, [])
          else (case state_log_delta (ack_of d df) df of
                  Some entries \<Rightarrow>
                    (udf, if entries = [] then [] else send_to (net W) cs d (StateCatchUp u entries))
                | None \<Rightarrow>
                    (case handle_pruned_state_catchup_fallback D W cs st d u df of (df, eff) \<Rightarrow> ((u, df), eff))))"

text \<open>Run a handler on every entry of a map.\<close>

definition each_entry :: "('a \<Rightarrow> 'b \<times> 'e list) \<Rightarrow> 'a list \<Rightarrow> 'b list \<times> 'e list" where
  "each_entry f xs = (map (fst \<circ> f) xs, concat (map (snd \<circ> f) xs))"

definition handle_daemon_status_report ::
  "('u::linorder, 'd) deps \<Rightarrow> ('u, 'x) env \<Rightarrow> 'u DaemonId \<Rightarrow> 'u DataflowStatusEntry list \<Rightarrow>
   ('u, 'd, 'x) Coordinator \<Rightarrow> (('u, 'd, 'x) Coordinator \<times> ('u, 'x) effect list) option" where
  "handle_daemon_status_report D W d entries s =
     (case reconcile D W d entries s of
        None \<Rightarrow> None
      | Some (s, eff) \<Rightarrow>
          let reported = map se_dataflow entries; cs = daemon_connections s in
          (case each_entry (auto_recover W d reported cs) (running_dataflows s) of
             (dfs, eff') \<Rightarrow>
               (case each_entry (catch_up D W cs (coord_store s) d reported) dfs of
                  (dfs, eff'') \<Rightarrow> Some (s\<lparr> running_dataflows := dfs \<rparr>, eff @ eff' @ eff''))))"

definition handle_state_catch_up_ack ::
  "'u::linorder DaemonId \<Rightarrow> 'u \<Rightarrow> nat \<Rightarrow> ('u, 'd, 'x) Coordinator \<Rightarrow> ('u, 'd, 'x) Coordinator" where
  "handle_state_catch_up_ack d u ack s =
     (case get_df u s of
        None \<Rightarrow> s
      | Some df \<Rightarrow>
          if d \<notin> set (df_daemons df) then s
          else let clamped = max (min ack (df_log_sequence df)) (ack_of d df)
               in put_df u (prune_state_log (df\<lparr> df_acks := bm_insert d clamped (df_acks df) \<rparr>)) s)"

text \<open>The part that setting and deleting a parameter share: the store has been changed to \<open>st\<close>; record the
  change in the log and forward it.\<close>

definition forward_param ::
  "('u, 'x) env \<Rightarrow> 'u \<Rightarrow> 'u ParamTarget \<Rightarrow> StateCatchUpOperation \<Rightarrow> 'u DaemonCoordinatorEvent \<Rightarrow>
   ('u, 'x) ControlRequestReply \<Rightarrow> ('u, 'd, 'x) Coordinator \<Rightarrow>
   (('u, 'd, 'x) Coordinator \<times> ('u, 'x) effect list) \<times> ('u, 'x) control_result" where
  "forward_param W u target oper msg rep s =
     (case target of
        PersistedOnly \<Rightarrow> ((s, []), Inr rep)
      | RunningTarget d \<Rightarrow>
          (case get_df u s of
             None \<Rightarrow> ((s, []), Inl NoRunningDataflow)
           | Some df \<Rightarrow>
               let s = put_df u (append_state_log oper df) s;
                   sent = send_to (net W) (daemon_connections s) d msg
               in ((s, sent),
                   if map_of (daemon_connections s) d = None then Inl DaemonNotConnected
                   else if sent = [] then Inl ForwardFailed
                   else if applies W d (op_node oper) (op_key oper) then Inr rep else Inl DaemonRejected)))"

definition answer_with ::
  "nat \<Rightarrow> (('u, 'd, 'x) Coordinator \<times> ('u, 'x) effect list) \<times> ('u, 'x) control_result \<Rightarrow>
   ('u, 'd, 'x) Coordinator \<times> ('u, 'x) effect list" where
  "answer_with w res = (case res of ((s, eff), r) \<Rightarrow> (s, eff @ [Answer w r]))"

definition handle_set_param ::
  "('u::linorder, 'd) deps \<Rightarrow> ('u, 'x) env \<Rightarrow> 'u \<Rightarrow> NodeId \<Rightarrow> string \<Rightarrow> string \<Rightarrow> nat \<Rightarrow> ('u, 'd, 'x) Coordinator \<Rightarrow>
   ('u, 'd, 'x) Coordinator \<times> ('u, 'x) effect list" where
  "handle_set_param D W u n key v w s = answer_with w
     (case resolve_param_target D u n s of
        Inl e \<Rightarrow> ((s, []), Inl e)
      | Inr target \<Rightarrow>
          (case mem_put_node_param u n key v (coord_store s) of
             (st, Inl e) \<Rightarrow> ((s, []), Inl (StoreRejected e))
           | (st, Inr _) \<Rightarrow>
               forward_param W u target (SetParam n key v) (SetParamEvent u n key v) ParamSet
                 (s\<lparr> coord_store := st \<rparr>)))"

definition handle_delete_param ::
  "('u::linorder, 'd) deps \<Rightarrow> ('u, 'x) env \<Rightarrow> 'u \<Rightarrow> NodeId \<Rightarrow> string \<Rightarrow> nat \<Rightarrow> ('u, 'd, 'x) Coordinator \<Rightarrow>
   ('u, 'd, 'x) Coordinator \<times> ('u, 'x) effect list" where
  "handle_delete_param D W u n key w s = answer_with w
     (case resolve_param_target D u n s of
        Inl e \<Rightarrow> ((s, []), Inl e)
      | Inr target \<Rightarrow>
          (case mem_delete_node_param u n key (coord_store s) of
             (st, Inl e) \<Rightarrow> ((s, []), Inl (StoreRejected e))
           | (st, Inr _) \<Rightarrow>
               forward_param W u target (DeleteParam n key) (DeleteParamEvent u n key) ParamDeletedReply
                 (s\<lparr> coord_store := st \<rparr>)))"

section \<open>Requests of clients\<close>

definition handle_start ::
  "('u::linorder, 'd) deps \<Rightarrow> ('u, 'x) env \<Rightarrow> 'd \<Rightarrow> string option \<Rightarrow> bool \<Rightarrow> nat \<Rightarrow> ('u, 'd, 'x) Coordinator \<Rightarrow>
   ('u, 'd, 'x) Coordinator \<times> ('u, 'x) effect list" where
  "handle_start D W descr name uv w s =
     (if name \<noteq> None \<and> (\<exists>(_, df)\<in>set (running_dataflows s). df_name df = name)
      then (s, [Answer w (Inl NameTaken)])
      else case start_dataflow D (accepts W) (net W) (daemon_connections s) (fresh W) (now W) descr name uv of
             (Inl e, eff) \<Rightarrow> (s, eff @ [Answer w (Inl e)])
           | (Inr df, eff) \<Rightarrow>
               (insert_started D W df s, eff @ [Answer w (Inr (DataflowStartTriggered (df_uuid df)))]))"

definition handle_wait_for_spawn ::
  "'u \<Rightarrow> nat \<Rightarrow> ('u, 'd, 'x) Coordinator \<Rightarrow> ('u, 'd, 'x) Coordinator \<times> ('u, 'x) effect list" where
  "handle_wait_for_spawn u w s =
     (case get_df u s of
        None \<Rightarrow> (s, [Answer w (Inl UnknownDataflowError)])
      | Some df \<Rightarrow>
          (case cr_register w (df_spawn_result df) of (r, eff) \<Rightarrow> (put_df u (df\<lparr> df_spawn_result := r \<rparr>) s, eff)))"

text \<open>\<open>hub\<close> lists the nodes whose git source names a package of the hub or a subdirectory.\<close>

fun build_on_daemons ::
  "('u, 'x) env \<Rightarrow> 'u DaemonConnections \<Rightarrow> ('u DaemonId \<times> NodeId list) list \<Rightarrow> coord_error option" where
  "build_on_daemons W cs [] = None"
| "build_on_daemons W cs ((d, _) # rest) =
     (if map_of cs d = None then Some DaemonNotConnected
      else if net W d \<and> accepts W d then build_on_daemons W cs rest else Some ForwardFailed)"

fun group_build_nodes ::
  "'u::linorder DaemonConnections \<Rightarrow> NodeId list \<Rightarrow> (NodeId \<times> Deploy option) list \<Rightarrow>
   ('u DaemonId \<times> NodeId list) list \<Rightarrow> coord_error + ('u DaemonId \<times> NodeId list) list" where
  "group_build_nodes cs hub [] acc = Inr acc"
| "group_build_nodes cs hub ((n, dp) # ns) acc =
     (case resolve_daemon cs dp of
        Inl e \<Rightarrow> Inl e
      | Inr d \<Rightarrow>
          if n \<in> set hub \<and> \<not> supports_hub_sources d cs then Inl HubUnsupported
          else group_build_nodes cs hub ns (bm_entry d [] (\<lambda>xs. xs @ [n]) acc))"

definition build_dataflow ::
  "('u::linorder, 'd) deps \<Rightarrow> ('u, 'x) env \<Rightarrow> 'd \<Rightarrow> NodeId list \<Rightarrow> 'u DaemonConnections \<Rightarrow>
   coord_error + ('u, 'x) RunningBuild" where
  "build_dataflow D W descr hub cs =
     (case resolve_nodes D descr of
        None \<Rightarrow> Inl ResolveFailed
      | Some nodes \<Rightarrow>
          (case group_build_nodes cs hub nodes [] of
             Inl e \<Rightarrow> Inl e
           | Inr groups \<Rightarrow>
               (case build_on_daemons W cs groups of
                  Some e \<Rightarrow> Inl e
                | None \<Rightarrow> Inr \<lparr> rb_errors = [], rb_result = PendingResult [],
                                rb_pending = map fst groups, rb_started_at = now W \<rparr>)))"

definition handle_build ::
  "('u::linorder, 'd) deps \<Rightarrow> ('u, 'x) env \<Rightarrow> 'd \<Rightarrow> NodeId list \<Rightarrow> nat \<Rightarrow> ('u, 'd, 'x) Coordinator \<Rightarrow>
   ('u, 'd, 'x) Coordinator \<times> ('u, 'x) effect list" where
  "handle_build D W descr hub w s =
     (case build_dataflow D W descr hub (daemon_connections s) of
        Inl e \<Rightarrow> (s, [Answer w (Inl e)])
      | Inr build \<Rightarrow>
          (s\<lparr> running_builds := AList.update (fresh W) build (running_builds s) \<rparr>,
           [Answer w (Inr (DataflowBuildTriggered (fresh W)))]))"

definition handle_wait_for_build ::
  "'u \<Rightarrow> nat \<Rightarrow> ('u, 'd, 'x) Coordinator \<Rightarrow> ('u, 'd, 'x) Coordinator \<times> ('u, 'x) effect list" where
  "handle_wait_for_build b w s =
     (case map_of (running_builds s) b of
        Some build \<Rightarrow>
          (case cr_register w (rb_result build) of
             (r, eff) \<Rightarrow>
               (s\<lparr> running_builds := AList.update b (build\<lparr> rb_result := r \<rparr>) (running_builds s) \<rparr>, eff))
      | None \<Rightarrow>
          (case map_of (finished_builds s) b of
             Some c \<Rightarrow>
               (case cr_register w c of
                  (r, eff) \<Rightarrow> (s\<lparr> finished_builds := AList.update b r (finished_builds s) \<rparr>, eff))
           | None \<Rightarrow> (s, [Answer w (Inl UnknownBuild)])))"

definition stop_dataflow ::
  "('u, 'x) env \<Rightarrow> 'u \<Rightarrow> nat option \<Rightarrow> bool \<Rightarrow> ('u, 'd, 'x) Coordinator \<Rightarrow>
   (coord_error + ('u, 'd, 'x) CoordDataflow) \<times> ('u, 'x) effect list" where
  "stop_dataflow W u grace force s =
     (case get_df u s of
        None \<Rightarrow> (Inl NoRunningDataflow, [])
      | Some df \<Rightarrow>
          let sent = (\<lambda>d. send_to (net W) (daemon_connections s) d (StopDataflow u grace force));
              failed = filter (\<lambda>d. (sent d :: ('u, 'x) effect list) = [] \<or> \<not> accepts W d) (df_daemons df)
          in (if failed = [] then Inr df else Inl (StopFailed (length failed) (length (df_daemons df))),
              concat (map sent (df_daemons df))))"

definition handle_stop ::
  "('u::linorder, 'd) deps \<Rightarrow> ('u, 'x) env \<Rightarrow> 'u \<Rightarrow> nat option \<Rightarrow> bool \<Rightarrow> nat \<Rightarrow> ('u, 'd, 'x) Coordinator \<Rightarrow>
   ('u, 'd, 'x) Coordinator \<times> ('u, 'x) effect list" where
  "handle_stop D W u grace force w s =
     (case cancel_pending_restart u RestartStopped s of
        (s, eff) \<Rightarrow>
          if get_df u s = None \<and> map_of (dataflow_results s) u \<noteq> None
          then (s, eff @ [Answer w (stopped_result u s)])
          else (case stop_dataflow W u grace force s of
                  (Inl e, eff') \<Rightarrow> (s, eff @ eff' @ [Answer w (Inl e)])
                | (Inr df, eff') \<Rightarrow>
                    (case persist D (now W) Stopping df (coord_store s) of
                       (df, st) \<Rightarrow>
                         (put_df u (df\<lparr> df_stop_senders := df_stop_senders df @ [w] \<rparr>) (s\<lparr> coord_store := st \<rparr>),
                          eff @ eff'))))"

definition handle_stop_by_name ::
  "('u::linorder, 'd) deps \<Rightarrow> ('u, 'x) env \<Rightarrow> string \<Rightarrow> nat option \<Rightarrow> bool \<Rightarrow> nat \<Rightarrow> ('u, 'd, 'x) Coordinator \<Rightarrow>
   ('u, 'd, 'x) Coordinator \<times> ('u, 'x) effect list" where
  "handle_stop_by_name D W name grace force w s =
     (case resolve_name name s of
        Inl e \<Rightarrow> (s, [Answer w (Inl e)])
      | Inr u \<Rightarrow> handle_stop D W u grace force w s)"

definition initiate_restart ::
  "('u::linorder, 'd) deps \<Rightarrow> ('u, 'x) env \<Rightarrow> 'u \<Rightarrow> nat option \<Rightarrow> bool \<Rightarrow> nat \<Rightarrow> ('u, 'd, 'x) Coordinator \<Rightarrow>
   ('u, 'd, 'x) Coordinator \<times> ('u, 'x) effect list" where
  "initiate_restart D W u grace force w s =
     (if map_of (pending_restarts s) u \<noteq> None then (s, [Answer w (Inl AlreadyRestarting)])
      else case get_df u s of
             None \<Rightarrow> (s, [Answer w (Inl NoRunningDataflow)])
           | Some df \<Rightarrow>
               let pr = \<lparr> pr_descriptor = df_descriptor df, pr_name = df_name df, pr_uv = df_uv df, pr_sender = w \<rparr> in
               (case stop_dataflow W u grace force s of
                  (Inl e, eff) \<Rightarrow> (s, eff @ [Answer w (Inl e)])
                | (Inr df, eff) \<Rightarrow>
                    (case persist D (now W) Stopping df (coord_store s) of
                       (df, st) \<Rightarrow>
                         ((put_df u df (s\<lparr> coord_store := st \<rparr>))
                            \<lparr> pending_restarts := AList.update u pr (pending_restarts s) \<rparr>, eff))))"

definition restart_by_name ::
  "('u::linorder, 'd) deps \<Rightarrow> ('u, 'x) env \<Rightarrow> string \<Rightarrow> nat option \<Rightarrow> bool \<Rightarrow> nat \<Rightarrow> ('u, 'd, 'x) Coordinator \<Rightarrow>
   ('u, 'd, 'x) Coordinator \<times> ('u, 'x) effect list" where
  "restart_by_name D W name grace force w s =
     (case resolve_name name s of
        Inl e \<Rightarrow> (s, [Answer w (Inl e)])
      | Inr u \<Rightarrow> initiate_restart D W u grace force w s)"

text \<open>\<open>dora clean\<close>: the candidates are the finished dataflows in memory and the finished records of the store.\<close>

definition clean_candidates :: "('u, 'd, 'x) Coordinator \<Rightarrow> ('u \<times> string option \<times> bool) list" where
  "clean_candidates s =
     map (\<lambda>(u, rs). (u, (case map_of (archived_dataflows s) u of Some a \<Rightarrow> ad_name a | None \<Rightarrow> None),
                     list_all (\<lambda>(_, r). list_all (\<lambda>(_, e). e = None) (dr_node_results r)) rs))
       (filter (\<lambda>(u, _). get_df u s = None) (dataflow_results s)) @
     List.map_filter (\<lambda>r.
         if get_df (rec_uuid r) s \<noteq> None \<or> map_of (dataflow_results s) (rec_uuid r) \<noteq> None then None
         else (case rec_status r of
                 Succeeded \<Rightarrow> Some (rec_uuid r, rec_name r, True)
               | Failed _ _ \<Rightarrow> Some (rec_uuid r, rec_name r, False)
               | _ \<Rightarrow> None))
       (mem_list_dataflows (coord_store s))"

definition clean_one :: "'u \<times> string option \<times> bool \<Rightarrow> ('u, 'd, 'x) Coordinator \<Rightarrow> ('u, 'd, 'x) Coordinator" where
  "clean_one c s =
     s\<lparr> coord_store := mem_delete_dataflow (fst c) (coord_store s),
        dataflow_results := AList.delete (fst c) (dataflow_results s),
        archived_dataflows := AList.delete (fst c) (archived_dataflows s) \<rparr>"

definition handle_clean ::
  "nat \<Rightarrow> ('u::linorder, 'd, 'x) Coordinator \<Rightarrow> ('u, 'd, 'x) Coordinator \<times> ('u, 'x) effect list" where
  "handle_clean w s =
     (let candidates = clean_candidates s in
      (fold clean_one candidates s,
       [Answer w (Inr (CleanResult (sort_key (\<lambda>(u, name, _). (name, u)) candidates)))]))"

text \<open>Destroying: every dataflow is marked as stopping and told to stop, then the daemons are drained.\<close>

definition mark_stopping ::
  "('u::linorder, 'd) deps \<Rightarrow> ('u, 'x) env \<Rightarrow> 'u \<Rightarrow> ('u, 'd, 'x) Coordinator \<Rightarrow> ('u, 'd, 'x) Coordinator" where
  "mark_stopping D W u s =
     (case get_df u s of
        None \<Rightarrow> s
      | Some df \<Rightarrow>
          (case persist D (now W) Stopping df (coord_store s) of
             (df, st) \<Rightarrow> put_df u df (s\<lparr> coord_store := st \<rparr>)))"

definition handle_destroy ::
  "('u::linorder, 'd) deps \<Rightarrow> ('u, 'x) env \<Rightarrow> ('u, 'd, 'x) Coordinator \<Rightarrow>
   ('u, 'd, 'x) Coordinator \<times> ('u, 'x) effect list" where
  "handle_destroy D W s =
     (let s = fold (mark_stopping D W) (map fst (running_dataflows s)) s
      in (s\<lparr> daemon_connections := [] \<rparr>,
          concat (map (\<lambda>u. snd (stop_dataflow W u None False s)) (map fst (running_dataflows s)))))"

section \<open>Start-up\<close>

definition recover_record :: "nat \<Rightarrow> 'u::linorder DataflowRecord \<Rightarrow> 'u InMemoryStore \<Rightarrow> 'u InMemoryStore" where
  "recover_record t r st =
     (case rec_status r of
        Succeeded \<Rightarrow> st
      | Failed _ _ \<Rightarrow> st
      | _ \<Rightarrow> mem_put_dataflow
               (r\<lparr> rec_status := Recovering, rec_generation := rec_generation r + 1, rec_updated_at := t \<rparr>) st)"

definition start_coordinator :: "nat \<Rightarrow> 'u::linorder InMemoryStore \<Rightarrow> ('u, 'd, 'x) Coordinator" where
  "start_coordinator t st =
     (let st = fold (\<lambda>info. mem_unregister_daemon (di_daemon_id info)) (mem_list_daemons st) st;
          st = fold (recover_record t) (mem_list_dataflows st) st
      in \<lparr> running_builds = [], finished_builds = [], running_dataflows = [], pending_restarts = [],
           dataflow_results = [], archived_dataflows = [], daemon_connections = [], coord_store = st \<rparr>)"

section \<open>Events\<close>

datatype ('u, 'd, 'x) Event =
    RegisterDaemon "string option" bool "(string \<times> string) list" "'u DaemonConnection" bool
  | ReadyOnDaemon 'u "'u DaemonId" "NodeId list"
  | FinishedOnDaemon 'u "'u DaemonId" "'x DataflowDaemonResult"
  | SpawnResult 'u "'u DaemonId" "string option"
  | BuildResult 'u "'u DaemonId" "string option"
  | HeartbeatInterval nat nat "'u DaemonId \<Rightarrow> HeartbeatSendOutcome"
  | DaemonHeartbeat "'u DaemonId"
  | DaemonZenohEndpoint "'u DaemonId" 'u "string option"
  | DaemonExit "'u DaemonId" 'u
  | NodeMetricsEvent 'u "(NodeId \<times> NodeMetrics) list"
  | DaemonStatusReport "'u DaemonId" "'u DataflowStatusEntry list"
  | DaemonStateCatchUpAck "'u DaemonId" 'u nat
  | DaemonNodeStopped "'u DaemonId" 'u NodeId bool
  | CtlBuild 'd "NodeId list" nat
  | CtlWaitForBuild 'u nat
  | CtlStart 'd "string option" bool nat
  | CtlWaitForSpawn 'u nat
  | CtlStop 'u "nat option" bool nat
  | CtlStopByName string "nat option" bool nat
  | CtlRestart 'u "nat option" bool nat
  | CtlRestartByName string "nat option" bool nat
  | CtlClean nat
  | CtlSetParam 'u NodeId string string nat
  | CtlDeleteParam 'u NodeId string nat
  | CtrlC

fun coord_step ::
  "('u::linorder, 'd) deps \<Rightarrow> ('u, 'x) env \<Rightarrow> ('u, 'd, 'x) Event \<Rightarrow> ('u, 'd, 'x) Coordinator \<Rightarrow>
   (('u, 'd, 'x) Coordinator \<times> ('u, 'x) effect list) option" where
  "coord_step D W (RegisterDaemon m ok labels conn sent) s = Some (handle_register W m ok labels conn sent s, [])"
| "coord_step D W (ReadyOnDaemon u d exited) s = Some (handle_ready_on_daemon D W u d exited s)"
| "coord_step D W (FinishedOnDaemon u d result) s = Some (handle_finished_on_daemon D W u d result s)"
| "coord_step D W (SpawnResult u d result) s = Some (handle_dataflow_spawn_result D W u d result s)"
| "coord_step D W (BuildResult b d result) s = Some (handle_build_result b d result s)"
| "coord_step D W (HeartbeatInterval st bt outcome) s = Some (handle_heartbeat_interval D W st bt outcome s)"
| "coord_step D W (DaemonHeartbeat d) s = Some (handle_daemon_heartbeat W d s, [])"
| "coord_step D W (DaemonZenohEndpoint d conn e) s = Some (handle_daemon_zenoh_endpoint d conn e s, [])"
| "coord_step D W (DaemonExit d conn) s = Some (handle_daemon_exit D W d conn s)"
| "coord_step D W (NodeMetricsEvent u ms) s = Some (handle_node_metrics W u ms s, [])"
| "coord_step D W (DaemonStatusReport d entries) s = handle_daemon_status_report D W d entries s"
| "coord_step D W (DaemonStateCatchUpAck d u ack) s = Some (handle_state_catch_up_ack d u ack s, [])"
| "coord_step D W (DaemonNodeStopped d u n clean) s = Some (handle_daemon_node_stopped W d u n clean s, [])"
| "coord_step D W (CtlBuild descr hub w) s = Some (handle_build D W descr hub w s)"
| "coord_step D W (CtlWaitForBuild b w) s = Some (handle_wait_for_build b w s)"
| "coord_step D W (CtlStart descr name uv w) s = Some (handle_start D W descr name uv w s)"
| "coord_step D W (CtlWaitForSpawn u w) s = Some (handle_wait_for_spawn u w s)"
| "coord_step D W (CtlStop u grace force w) s = Some (handle_stop D W u grace force w s)"
| "coord_step D W (CtlStopByName name grace force w) s = Some (handle_stop_by_name D W name grace force w s)"
| "coord_step D W (CtlRestart u grace force w) s = Some (initiate_restart D W u grace force w s)"
| "coord_step D W (CtlRestartByName name grace force w) s = Some (restart_by_name D W name grace force w s)"
| "coord_step D W (CtlClean w) s = Some (handle_clean w s)"
| "coord_step D W (CtlSetParam u n key v w) s = Some (handle_set_param D W u n key v w s)"
| "coord_step D W (CtlDeleteParam u n key w) s = Some (handle_delete_param D W u n key w s)"
| "coord_step D W CtrlC s = Some (handle_destroy D W s)"

end
