(* ===== verification/Coordinator_Replies.thy ===== *)
theory Coordinator_Replies
  imports Coordinator_Events "HOL-Library.Multiset"
begin

text \<open>
  Every request of a client is answered once: a client whose request the coordinator has read is either parked
  in one place of the state or has received one answer. The lemmas show for each handler of
  \<open>Coordinator_Events\<close> that it neither loses nor duplicates a parked client.
\<close>

section \<open>Parked clients\<close>

definition cr_waiting :: "('u, 'x) CachedResult \<Rightarrow> nat multiset" where
  "cr_waiting c = (case c of PendingResult ws \<Rightarrow> mset ws | Cached _ \<Rightarrow> {#})"

definition df_waiting :: "('u, 'd, 'x) CoordDataflow \<Rightarrow> nat multiset" where
  "df_waiting df = cr_waiting (df_spawn_result df) + mset (df_stop_senders df)"

definition wsum :: "('v \<Rightarrow> nat multiset) \<Rightarrow> ('k \<times> 'v) list \<Rightarrow> nat multiset" where
  "wsum f m = sum_list (map (\<lambda>(_, v). f v) m)"

definition parked :: "('u, 'd, 'x) Coordinator \<Rightarrow> nat multiset" where
  "parked s =
     wsum df_waiting (running_dataflows s) + wsum (\<lambda>pr. {#pr_sender pr#}) (pending_restarts s) +
     wsum (\<lambda>b. cr_waiting (rb_result b)) (running_builds s) + wsum cr_waiting (finished_builds s)"

fun answered :: "('u, 'x) effect list \<Rightarrow> nat multiset" where
  "answered [] = {#}"
| "answered (Answer w r # es) = {#w#} + answered es"
| "answered (Sent d m # es) = answered es"
| "answered (ReplayParams u d ns # es) = answered es"

fun requested :: "('u, 'd, 'x) Event \<Rightarrow> nat multiset" where
  "requested (CtlBuild descr hub w) = {#w#}"
| "requested (CtlWaitForBuild b w) = {#w#}"
| "requested (CtlStart descr name uv w) = {#w#}"
| "requested (CtlWaitForSpawn u w) = {#w#}"
| "requested (CtlStop u grace force w) = {#w#}"
| "requested (CtlStopByName name grace force w) = {#w#}"
| "requested (CtlRestart u grace force w) = {#w#}"
| "requested (CtlRestartByName name grace force w) = {#w#}"
| "requested (CtlClean w) = {#w#}"
| "requested (CtlSetParam u n key v w) = {#w#}"
| "requested (CtlDeleteParam u n key w) = {#w#}"
| "requested _ = {#}"

text \<open>The maps have distinct keys, a dataflow is stored under its identifier, and the results of finished builds
  are cached.\<close>

definition keys_ok :: "('u, 'd, 'x) Coordinator \<Rightarrow> bool" where
  "keys_ok s \<longleftrightarrow>
     distinct (map fst (running_dataflows s)) \<and> distinct (map fst (pending_restarts s)) \<and>
     distinct (map fst (running_builds s)) \<and> distinct (map fst (finished_builds s)) \<and>
     (\<forall>u df. get_df u s = Some df \<longrightarrow> df_uuid df = u) \<and>
     (\<forall>(_, c)\<in>set (finished_builds s). \<not> cr_is_pending c)"

definition conserves ::
  "nat multiset \<Rightarrow> ('u, 'd, 'x) Coordinator \<Rightarrow> ('u, 'd, 'x) Coordinator \<times> ('u, 'x) effect list \<Rightarrow> bool" where
  "conserves ws s res \<longleftrightarrow>
     (keys_ok s \<longrightarrow> keys_ok (fst res) \<and> parked (fst res) + answered (snd res) = parked s + ws)"

lemma answered_append [simp]: "answered (es @ fs) = answered es + answered fs"
  by (induction es rule: answered.induct) auto

lemma answered_answers [simp]: "answered (map (\<lambda>w. Answer w r) ws) = mset ws"
  by (induction ws) auto

lemma answered_send_to [simp]: "answered (send_to nt cs d m) = {#}"
  by (simp add: send_to_def)

lemma answered_concat: "(\<And>x. x \<in> set xs \<Longrightarrow> answered (f x) = {#}) \<Longrightarrow> answered (concat (map f xs)) = {#}"
  by (induction xs) auto

lemma answered_replays [simp]: "answered (map (\<lambda>d. ReplayParams u d (f d)) ds) = {#}"
  by (induction ds) auto

section \<open>Sums over maps\<close>

lemma wsum_Nil [simp]: "wsum f [] = {#}"
  and wsum_Cons [simp]: "wsum f (p # m) = f (snd p) + wsum f m"
  and wsum_append [simp]: "wsum f (m @ m') = wsum f m + wsum f m'"
  by (auto simp: wsum_def split: prod.split)

lemma wsum_map: "(\<And>v. f (g v) = f v) \<Longrightarrow> wsum f (map (\<lambda>(k, v). (k, g v)) m) = wsum f m"
  by (induction m) auto

lemma map_fst_map: "map fst (map (\<lambda>(k, v). (k, g v)) m) = map fst m"
  by (induction m) auto

lemma wsum_update_new: "k \<notin> fst ` set m \<Longrightarrow> wsum f (AList.update k v m) = wsum f m + f v"
  by (induction m) auto

lemma wsum_update:
  "map_of m k = Some v0 \<Longrightarrow> wsum f (AList.update k v m) + f v0 = wsum f m + f v"
  by (induction m) (auto simp: ac_simps)

lemma cancel_swap:
  fixes a :: "nat multiset"
  assumes "a' + c0 = a + c1" "c1 + e = c0 + w"
  shows "a' + e = a + w"
proof -
  have "(a' + e) + c0 = (a' + c0) + e" by (simp add: ac_simps)
  also have "\<dots> = a + (c1 + e)" by (simp add: assms(1) add.assoc)
  also have "\<dots> = (a + w) + c0" by (simp add: assms(2) ac_simps)
  finally show ?thesis by simp
qed

lemma wsum_update_same: "map_of m k = Some v0 \<Longrightarrow> f v = f v0 \<Longrightarrow> wsum f (AList.update k v m) = wsum f m"
  using wsum_update [of m k v0 f v] by simp

lemma wsum_delete:
  "distinct (map fst m) \<Longrightarrow> map_of m k = Some v0 \<Longrightarrow> wsum f (AList.delete k m) + f v0 = wsum f m"
  by (induction m) (auto simp: ac_simps)

lemma wsum_delete_None: "map_of m k = None \<Longrightarrow> AList.delete k m = m"
  by (induction m) (auto simp: AList.delete_eq split: if_splits)

lemma wsum_empty: "\<forall>(k, v)\<in>set m. f v = {#} \<Longrightarrow> wsum f m = {#}"
  by (induction m) auto

section \<open>Rules for handlers\<close>

definition same_clients :: "('u, 'd, 'x) Coordinator \<Rightarrow> ('u, 'd, 'x) Coordinator \<Rightarrow> bool" where
  "same_clients s s' \<longleftrightarrow>
     running_dataflows s' = running_dataflows s \<and> pending_restarts s' = pending_restarts s \<and>
     running_builds s' = running_builds s \<and> finished_builds s' = finished_builds s"

lemma same_clientsD:
  "same_clients s s' \<Longrightarrow> parked s' = parked s" "same_clients s s' \<Longrightarrow> keys_ok s' = keys_ok s"
  "same_clients s s' \<Longrightarrow> running_dataflows s' = running_dataflows s"
  by (auto simp: same_clients_def parked_def keys_ok_def)

lemma same_clients_refl [simp]: "same_clients s s"
  by (simp add: same_clients_def)

lemma conserves_same: "same_clients s s' \<Longrightarrow> answered eff = ws \<Longrightarrow> conserves ws s (s', eff)"
  by (simp add: conserves_def same_clientsD)

lemma conserves_refl [simp]: "conserves {#} s (s, [])"
  by (simp add: conserves_def)

lemma conserves_before: "same_clients s s' \<Longrightarrow> conserves ws s' res \<Longrightarrow> conserves ws s res"
  by (simp add: conserves_def same_clientsD)

lemma conserves_after: "conserves ws s (s', eff) \<Longrightarrow> same_clients s' s'' \<Longrightarrow> conserves ws s (s'', eff)"
  by (simp add: conserves_def same_clientsD)

lemma conserves_seq:
  "conserves a s (s1, e1) \<Longrightarrow> conserves b s1 (s2, e2) \<Longrightarrow> conserves (a + b) s (s2, e1 @ e2)"
  by (auto simp: conserves_def ac_simps)

lemma conserves_seq0:
  "conserves {#} s (s1, e1) \<Longrightarrow> conserves b s1 (s2, e2) \<Longrightarrow> conserves b s (s2, e1 @ e2)"
  using conserves_seq [of "{#}"] by simp

lemma conserves_seq_case:
  "conserves {#} s (s1, e1) \<Longrightarrow> conserves b s1 res \<Longrightarrow>
   conserves b s (case res of (s2, e2) \<Rightarrow> (s2, e1 @ e2))"
  using conserves_seq0 by (cases res) auto

lemma conserves_perm: "conserves ws s (s', eff) \<Longrightarrow> answered eff' = answered eff \<Longrightarrow> conserves ws s (s', eff')"
  by (simp add: conserves_def)

lemma conserves_silent: "conserves ws s (s', eff) \<Longrightarrow> answered eff' = {#} \<Longrightarrow> conserves ws s (s', eff' @ eff)"
  "conserves ws s (s', eff) \<Longrightarrow> answered eff' = {#} \<Longrightarrow> conserves ws s (s', eff @ eff')"
  by (auto simp: conserves_def)

lemma conserves_answer:
  "conserves {#} s (s', eff) \<Longrightarrow> conserves {#w#} s (s', eff @ [Answer w r])"
  by (auto simp: conserves_def)

lemma conserves_each: "(\<And>x s. conserves {#} s (f x s)) \<Longrightarrow> conserves {#} s (each f xs s)"
proof (induction xs arbitrary: s)
  case Nil
  then show ?case by (simp add: conserves_same)
next
  case (Cons x xs)
  obtain s1 e1 where 1: "f x s = (s1, e1)" by force
  obtain s2 e2 where 2: "each f xs s1 = (s2, e2)" by force
  have "conserves {#} s (s1, e1)" "conserves {#} s1 (s2, e2)"
    using Cons.prems [of s x] Cons.IH [OF Cons.prems, of s1] 1 2 by auto
  then show ?case using conserves_seq0 1 2 by (simp add: conserves_seq0)
qed

lemma conserves_put:
  assumes "get_df u s = Some df0" "df_waiting df + answered eff = df_waiting df0 + ws" "same_clients s s1"
    "df_uuid df = df_uuid df0"
  shows "conserves ws s (put_df u df s1, eff)"
proof (unfold conserves_def, intro impI conjI)
  assume ok: "keys_ok s"
  have run: "running_dataflows (put_df u df s1) = AList.update u df (running_dataflows s)"
    using assms(3) by (simp add: put_df_def same_clients_def)
  show "keys_ok (fst (put_df u df s1, eff))"
    using ok assms(1,3,4) by (auto simp: keys_ok_def put_df_def same_clients_def distinct_update update_conv')
  have "wsum df_waiting (AList.update u df (running_dataflows s)) + answered eff =
      wsum df_waiting (running_dataflows s) + ws"
    by (rule cancel_swap [OF wsum_update [OF assms(1)] assms(2)])
  then show "parked (fst (put_df u df s1, eff)) + answered (snd (put_df u df s1, eff)) = parked s + ws"
    using assms(3) run by (simp add: parked_def same_clients_def put_df_def ac_simps)
qed

lemma conserves_new:
  assumes "get_df u s = None" "df_waiting df = {#}" "answered eff = ws" "same_clients s s1" "df_uuid df = u"
  shows "conserves ws s (put_df u df s1, eff)"
proof -
  have "u \<notin> fst ` set (running_dataflows s)" using assms(1) by (simp add: map_of_eq_None_iff)
  then have "wsum df_waiting (AList.update u df (running_dataflows s)) = wsum df_waiting (running_dataflows s)"
    using assms(2) by (simp add: wsum_update_new)
  then show ?thesis using assms(3,4,5)
    by (auto simp: conserves_def keys_ok_def parked_def put_df_def same_clients_def distinct_update update_conv')
qed

lemma conserves_drop:
  assumes "get_df u s = Some df0" "answered eff = df_waiting df0 + ws"
    "same_clients (s\<lparr> running_dataflows := AList.delete u (running_dataflows s) \<rparr>) s1"
  shows "conserves ws s (s1, eff)"
proof (unfold conserves_def, intro impI conjI)
  assume ok: "keys_ok s"
  then show "keys_ok (fst (s1, eff))"
    using assms(3) by (auto simp: keys_ok_def same_clients_def distinct_delete delete_conv' split: if_splits)
  have "wsum df_waiting (AList.delete u (running_dataflows s)) + df_waiting df0 =
      wsum df_waiting (running_dataflows s)"
    using ok assms(1) by (intro wsum_delete) (auto simp: keys_ok_def)
  then show "parked (fst (s1, eff)) + answered (snd (s1, eff)) = parked s + ws"
    using assms(2,3) by (auto simp: parked_def same_clients_def ac_simps)
qed

section \<open>Handlers\<close>

lemma persist_eq:
  "persist D t st df s = (df\<lparr> df_generation := df_generation df + 1 \<rparr>, mem_put_dataflow (snd (make_record D t st df)) s)"
  by (simp add: persist_def make_record_def Let_def)

lemma df_waiting_frame [simp]:
  "df_waiting (df\<lparr> df_generation := g \<rparr>) = df_waiting df" "df_waiting (df\<lparr> df_released := b \<rparr>) = df_waiting df"
  "df_waiting (df\<lparr> df_daemons := ds \<rparr>) = df_waiting df" "df_waiting (df\<lparr> df_pending_daemons := ds \<rparr>) = df_waiting df"
  "df_waiting (df\<lparr> df_pending_spawn := ds \<rparr>) = df_waiting df" "df_waiting (df\<lparr> df_exited := ns \<rparr>) = df_waiting df"
  "df_waiting (df\<lparr> df_node_to_daemon := nd \<rparr>) = df_waiting df" "df_waiting (df\<lparr> df_metrics := ms \<rparr>) = df_waiting df"
  "df_waiting (df\<lparr> df_finalized := ns \<rparr>) = df_waiting df" "df_waiting (df\<lparr> df_stopped_at := sa \<rparr>) = df_waiting df"
  "df_waiting (df\<lparr> df_last_recovery := lr \<rparr>) = df_waiting df" "df_waiting (df\<lparr> df_last_replay := lr \<rparr>) = df_waiting df"
  "df_waiting (df\<lparr> df_acks := as \<rparr>) = df_waiting df" "df_waiting (df\<lparr> df_log := l \<rparr>) = df_waiting df"
  "df_waiting (df\<lparr> df_log_sequence := q \<rparr>) = df_waiting df"
  by (simp_all add: df_waiting_def)

lemma not_pending_waiting: "\<not> cr_is_pending c \<Longrightarrow> cr_waiting c = {#}"
  by (auto simp: cr_is_pending_def cr_waiting_def split: CachedResult.splits)

lemma set_result_waiting:
  "set_result r c = (c', eff) \<Longrightarrow> \<not> cr_is_pending c' \<and> cr_waiting c' = {#} \<and> answered eff = cr_waiting c"
  by (auto simp: set_result_def cr_waiting_def cr_is_pending_def split: CachedResult.splits)

lemma cr_register_waiting: "cr_register w c = (c', eff) \<Longrightarrow> cr_waiting c' + answered eff = cr_waiting c + {#w#}"
  by (auto simp: cr_register_def cr_waiting_def split: CachedResult.splits)

lemma broadcast_conserves:
  assumes "get_df u s = Some df0" "df_waiting df = df_waiting df0" "df_uuid df = df_uuid df0"
  shows "conserves {#} s (broadcast_all_nodes_ready D W u df s)"
proof -
  have "answered (concat (map (\<lambda>d. send_to (net W) cs d m) ds)) = {#}" for cs m ds
    by (rule answered_concat) simp
  then show ?thesis
    using assms by (auto simp: broadcast_all_nodes_ready_def release_barrier_message_def
        persist_ready_barrier_release_def persist_eq Let_def schedule_param_replay_for_ready_dataflow_def
        same_clients_def intro!: conserves_put)
qed

lemma ready_conserves: "conserves {#} s (handle_ready_on_daemon D W u d exited s)"
  by (auto simp: handle_ready_on_daemon_def Let_def same_clients_def split: option.splits
      intro!: conserves_put broadcast_conserves)

lemma conserves_commute: "conserves ws s (s', a @ b) \<Longrightarrow> conserves ws s (s', b @ a)"
  by (simp add: conserves_def ac_simps)

lemma start_dataflow_started:
  assumes "start_dataflow D acc nt cs u t descr name uv = (Inr df, eff)"
  shows "df_uuid df = u" "df_waiting df = {#}" "df_released df = False" "df_exited df = []"
  using assms by (auto simp: start_dataflow_def df_waiting_def cr_waiting_def split: prod.splits sum.splits)

lemma rollback_silent [simp]: "answered (rollback_spawned_daemons nt cs u ds) = {#}"
  unfolding rollback_spawned_daemons_def by (rule answered_concat) simp

lemma spawn_on_daemons_silent:
  fixes eff :: "('u, 'x) effect list"
  shows "spawn_on_daemons acc nt cs u groups spawned = (r, eff) \<Longrightarrow> answered eff = {#}"
proof (induction groups arbitrary: spawned r eff)
  case (Cons g groups)
  obtain d ns where g: "g = (d, ns)" by force
  obtain r' and eff' :: "('u, 'x) effect list"
    where rec: "spawn_on_daemons acc nt cs u groups (spawned @ [d]) = (r', eff')" by force
  show ?case using Cons.prems Cons.IH [OF rec] rec
    by (auto simp: g Let_def split: option.splits if_splits)
qed simp

lemma start_dataflow_silent:
  "start_dataflow D acc nt cs u t descr name uv = (r, eff) \<Longrightarrow> answered eff = {#}"
  by (auto simp: start_dataflow_def spawn_dataflow_def dest: spawn_on_daemons_silent
      split: prod.splits sum.splits option.splits)

lemma insert_started_conserves:
  assumes "start_dataflow D acc nt cs (fresh W) t descr name uv = (Inr df, eff)" "get_df (fresh W) s = None"
  shows "conserves {#} s (insert_started D W df s, eff)"
  using assms start_dataflow_started [OF assms(1)] start_dataflow_silent [OF assms(1)]
  by (auto simp: insert_started_def persist_eq same_clients_def intro!: conserves_new)

lemma conserves_take_restart:
  assumes "map_of (pending_restarts s) u = Some pr" "answered eff = {#pr_sender pr#}"
  shows "conserves {#} s (s\<lparr> pending_restarts := AList.delete u (pending_restarts s) \<rparr>, eff)"
proof (unfold conserves_def, intro impI conjI)
  assume ok: "keys_ok s"
  then show "keys_ok (fst (s\<lparr> pending_restarts := AList.delete u (pending_restarts s) \<rparr>, eff))"
    by (auto simp: keys_ok_def distinct_delete)
  have "wsum (\<lambda>pr. {#pr_sender pr#}) (AList.delete u (pending_restarts s)) + {#pr_sender pr#} =
      wsum (\<lambda>pr. {#pr_sender pr#}) (pending_restarts s)"
    using ok assms(1) by (intro wsum_delete) (auto simp: keys_ok_def)
  then show "parked (fst (s\<lparr> pending_restarts := AList.delete u (pending_restarts s) \<rparr>, eff)) +
      answered (snd (s\<lparr> pending_restarts := AList.delete u (pending_restarts s) \<rparr>, eff)) = parked s + {#}"
    using assms(2) by (simp add: parked_def ac_simps)
qed

lemma cancel_conserves: "conserves {#} s (cancel_pending_restart u reason s)"
  by (auto simp: cancel_pending_restart_def split: option.splits intro!: conserves_take_restart)

lemma complete_restart_conserves:
  fixes s :: "('u::linorder, 'd, 'x) Coordinator"
  assumes "get_df (fresh W) s = None"
  shows "conserves {#} s (complete_restart D W u s)"
proof (cases "map_of (pending_restarts s) u")
  case (Some pr)
  let ?s = "s\<lparr> pending_restarts := AList.delete u (pending_restarts s) \<rparr>"
  obtain r and eff :: "('u, 'x) effect list" where start: "start_dataflow D (accepts W) (net W) (daemon_connections s) (fresh W) (now W)
      (pr_descriptor pr) (pr_name pr) (pr_uv pr) = (r :: coord_error + ('u, 'd, 'x) CoordDataflow, eff)" by force
  have silent: "answered eff = {#}" by (rule start_dataflow_silent [OF start])
  have take: "conserves {#} s (?s, [Answer (pr_sender pr) a])" for a
    using Some by (intro conserves_take_restart) auto
  show ?thesis
  proof (cases r)
    case (Inl e)
    then show ?thesis using Some start silent take
      by (auto simp: complete_restart_def Let_def intro!: conserves_silent(1))
  next
    case (Inr df)
    have "conserves {#} ?s (insert_started D W df ?s, eff)"
      using start Inr assms by (intro insert_started_conserves) auto
    then have "conserves {#} s (insert_started D W df ?s, [Answer (pr_sender pr) a] @ eff)" for a
      using take conserves_seq0 by blast
    then show ?thesis using Some start Inr
      by (simp add: complete_restart_def Let_def conserves_commute [of _ _ _ "[_]"])
  qed
qed (simp add: complete_restart_def)

lemma finish_conserves:
  fixes s :: "('u::linorder, 'd, 'x) Coordinator"
  assumes run: "get_df u s = Some df0" and df: "df_waiting df = df_waiting df0" and fresh: "get_df (fresh W) s = None"
  shows "conserves {#} s (finish_dataflow D W u df s)"
proof -
  let ?s = "s\<lparr> archived_dataflows := archive u df (archived_dataflows s),
              running_dataflows := AList.delete u (running_dataflows s) \<rparr>"
  obtain s2 eff where restart: "complete_restart D W u ?s = (s2, eff)" by force
  have "get_df (fresh W) ?s = None" using fresh by (simp add: delete_conv')
  then have r: "conserves {#} ?s (s2, eff)" using complete_restart_conserves restart by metis
  define ans where "ans = map (\<lambda>w. Answer w (stopped_result u s2)) (df_stop_senders df) @
    snd (set_result (Inl (SpawnError (finish_message (map_of (dataflow_results s2) u)))) (df_spawn_result df))"
  have "answered ans = df_waiting df0"
    using df set_result_waiting [OF prod.collapse [symmetric]] unfolding ans_def df_waiting_def
    by (metis add.commute answered_answers answered_append)
  then have "conserves {#} s (?s, ans)"
    using run by (intro conserves_drop) (auto simp: same_clients_def)
  then have "conserves {#} s (s2, eff @ ans)"
    using r conserves_seq0 conserves_commute by blast
  moreover have "finish_dataflow D W u df s = (s2\<lparr> coord_store := mem_put_dataflow (snd (make_record D (now W)
      (finish_status (map_of (dataflow_results s2) u)) df)) (coord_store s2) \<rparr>, eff @ ans)"
    by (simp add: finish_dataflow_def Let_def restart persist_eq ans_def)
  ultimately show ?thesis by (simp add: conserves_after same_clients_def)
qed

lemma cap_results_same [simp]: "same_clients s (cap_results s)"
  by (simp add: cap_results_def same_clients_def)

lemma finished_conserves:
  fixes s :: "('u::linorder, 'd, 'x) Coordinator"
  assumes fresh: "get_df (fresh W) s = None"
  shows "conserves {#} s (handle_finished_on_daemon D W u d result s)"
proof (cases "get_df u s")
  case None
  then show ?thesis
    by (auto simp: handle_finished_on_daemon_def merge_late_result_def Let_def cap_results_def same_clients_def
        intro!: conserves_same)
next
  case (Some df0)
  define df where "df = df0\<lparr> df_daemons := bs_remove d (df_daemons df0) \<rparr>"
  define s1 where "s1 = s\<lparr> dataflow_results := AList.update u
    (bm_insert d result (case map_of (dataflow_results s) u of None \<Rightarrow> [] | Some m \<Rightarrow> m)) (dataflow_results s) \<rparr>"
  have same: "same_clients s s1" by (simp add: s1_def same_clients_def)
  have "conserves {#} s1 (finish_dataflow D W u df s1)"
    using Some fresh by (intro finish_conserves) (auto simp: s1_def df_def)
  moreover have "conserves {#} s (put_df u df s1, [])"
    using Some same by (intro conserves_put) (auto simp: df_def)
  moreover define res where
    "res = (if df_daemons df = [] then finish_dataflow D W u df s1 else (put_df u df s1, []))"
  ultimately have "conserves {#} s res" using conserves_before [OF same] by simp
  moreover obtain s2 eff where 2: "res = (s2, eff)" by (cases res)
  ultimately have "conserves {#} s (cap_results s2, eff)" by (auto intro: conserves_after)
  then show ?thesis using Some 2 unfolding res_def
    by (auto simp: handle_finished_on_daemon_def Let_def df_def [symmetric] s1_def [symmetric] split: if_splits)
qed

definition spawn_settled :: "'u \<Rightarrow> ('u, 'd, 'x) Coordinator \<Rightarrow> bool" where
  "spawn_settled u s \<longleftrightarrow> (\<forall>df. get_df u s = Some df \<longrightarrow> cr_waiting (df_spawn_result df) = {#})"

lemma rollback_answers [simp]: "answered (fire_and_forget_rollback W cs u ds) = {#}"
  unfolding fire_and_forget_rollback_def by (rule answered_concat) simp

lemma teardown_conserves:
  fixes s :: "('u::linorder, 'd, 'x) Coordinator"
  assumes "spawn_settled u s"
  shows "conserves {#} s (teardown_failed_spawn W u err ds s)"
proof (cases "get_df u s")
  case None
  then show ?thesis by (simp add: teardown_failed_spawn_def Let_def conserves_same)
next
  case (Some df)
  let ?s = "s\<lparr> running_dataflows := AList.delete u (running_dataflows s) \<rparr>"
  obtain s2 answers where cancel: "cancel_pending_restart u (RestartSpawnFailed err) ?s = (s2, answers)" by force
  define ans where "ans r = map (\<lambda>w. Answer w r :: ('u, 'x) effect) (df_stop_senders df)" for r
  have "df_waiting df = mset (df_stop_senders df)"
    using assms Some by (simp add: spawn_settled_def df_waiting_def)
  then have "conserves {#} s (?s, fire_and_forget_rollback W (daemon_connections s) u ds @ ans r)" for r
    using Some by (intro conserves_drop) (auto simp: ans_def same_clients_def)
  moreover have "conserves {#} ?s (s2, answers)" using cancel_conserves [of ?s] cancel by metis
  ultimately have "conserves {#} s (s2, (fire_and_forget_rollback W (daemon_connections s) u ds @ ans r) @ answers)" for r
    by (rule conserves_seq0)
  then have c: "conserves {#} s (s2, fire_and_forget_rollback W (daemon_connections s) u ds @ answers @ ans r)" for r
    by (rule conserves_perm) (simp add: ac_simps)
  show ?thesis using Some cancel
    by (auto simp: teardown_failed_spawn_def Let_def ans_def [symmetric] cap_results_def same_clients_def
        intro!: conserves_after [OF c])
qed

lemma spawn_ok_waiting:
  "handle_spawn_result_ok D W u df st = (df', st', eff) \<Longrightarrow>
   df_waiting df' + answered eff = df_waiting df \<and> df_uuid df' = df_uuid df"
  by (auto simp: handle_spawn_result_ok_def persist_eq df_waiting_def ac_simps split: if_splits prod.splits
      dest!: set_result_waiting)

lemma spawn_err_waiting:
  "handle_spawn_result_err D W u err df st = (df', st', eff) \<Longrightarrow>
   df_waiting df' + answered eff = df_waiting df \<and> df_uuid df' = df_uuid df \<and>
   cr_waiting (df_spawn_result df') = {#}"
  by (auto simp: handle_spawn_result_err_def persist_eq df_waiting_def ac_simps cr_is_pending_def cr_waiting_def
      split: if_splits prod.splits CachedResult.splits dest!: set_result_waiting)

lemma spawn_result_conserves: "conserves {#} s (handle_dataflow_spawn_result D W u d result s)"
proof (cases "get_df u s")
  case None
  then show ?thesis by (simp add: handle_dataflow_spawn_result_def conserves_same)
next
  case (Some df0)
  let ?df = "df0\<lparr> df_pending_spawn := bs_remove d (df_pending_spawn df0) \<rparr>"
  show ?thesis
  proof (cases result)
    case None
    obtain df st eff where ok: "handle_spawn_result_ok D W u ?df (coord_store s) = (df, st, eff)"
      using prod_cases3 by blast
    show ?thesis using Some None ok spawn_ok_waiting [OF ok]
      by (auto simp: handle_dataflow_spawn_result_def Let_def same_clients_def intro!: conserves_put)
  next
    case err: (Some e)
    obtain df st eff where ok: "handle_spawn_result_err D W u e ?df (coord_store s) = (df, st, eff)"
      using prod_cases3 by blast
    let ?s = "put_df u df (s\<lparr> coord_store := st \<rparr>)"
    have put: "conserves {#} s (?s, eff)"
      using Some spawn_err_waiting [OF ok] by (intro conserves_put) (auto simp: same_clients_def)
    have "spawn_settled u ?s"
      using spawn_err_waiting [OF ok] by (simp add: spawn_settled_def put_df_def update_conv')
    then have "conserves {#} ?s (teardown_failed_spawn W u m ds ?s)" for m ds by (rule teardown_conserves)
    then show ?thesis using Some err ok put
      by (auto simp: handle_dataflow_spawn_result_def Let_def intro!: conserves_seq_case)
  qed
qed

lemma stuck_spawn_conserves: "conserves {#} s (fail_stuck_spawn D W t stuck s)"
proof -
  obtain u ds n where stuck: "stuck = (u, ds, n)" using prod_cases3 by blast
  show ?thesis
  proof (cases "get_df u s")
    case None
    then have "conserves {#} s (teardown_failed_spawn W u m ds s)" for m
      by (intro teardown_conserves) (simp add: spawn_settled_def)
    then show ?thesis using None
      by (auto simp: fail_stuck_spawn_def stuck Let_def split: prod.splits)
  next
    case (Some df)
    let ?msg = "timeout_message t n (length ds)"
    obtain r eff where r: "set_result (Inl (SpawnError ?msg)) (df_spawn_result df) = (r, eff)" by force
    let ?df = "df\<lparr> df_spawn_result := r, df_generation := Suc (df_generation df) \<rparr>"
    let ?s = "\<lambda>st. put_df u ?df (s\<lparr> coord_store := st \<rparr>)"
    have put: "conserves {#} s (?s st, eff)" for st
      using Some set_result_waiting [OF r]
      by (intro conserves_put) (auto simp: same_clients_def df_waiting_def)
    have "spawn_settled u (?s st)" for st
      using set_result_waiting [OF r] by (simp add: spawn_settled_def put_df_def update_conv')
    then have "conserves {#} (?s st) (teardown_failed_spawn W u m ds (?s st))" for m st
      by (rule teardown_conserves)
    then show ?thesis using Some r put
      by (auto simp: fail_stuck_spawn_def stuck Let_def persist_eq intro!: conserves_seq_case)
  qed
qed

lemma spawn_timeouts_conserve: "conserves {#} s (check_spawn_timeouts D W t s)"
  unfolding check_spawn_timeouts_def by (intro conserves_each stuck_spawn_conserves)

lemma conserves_builds:
  assumes "distinct (map fst (running_builds s)) \<Longrightarrow> distinct (map fst bs') \<and>
     wsum (\<lambda>b. cr_waiting (rb_result b)) bs' + answered eff =
     wsum (\<lambda>b. cr_waiting (rb_result b)) (running_builds s) + ws"
  shows "conserves ws s (s\<lparr> running_builds := bs' \<rparr>, eff)"
  using assms by (auto simp: conserves_def keys_ok_def parked_def ac_simps)

lemma cr_finished: "set (cap_front n m) \<subseteq> set m" "distinct (map fst m) \<Longrightarrow> distinct (map fst (cap_front n m))"
  by (auto simp: cap_front_def drop_map [symmetric] dest: in_set_dropD)

lemma set_update_subset: "set (AList.update k v m) \<subseteq> insert (k, v) (set m)"
  by (induction m) auto

lemma update_triv: "map_of m k = Some v \<Longrightarrow> AList.update k v m = m"
  by (induction m) auto

lemma conserves_finish_build:
  assumes "map_of (running_builds s) b = Some build0" "answered eff = cr_waiting (rb_result build0)" "\<not> cr_is_pending r"
  shows "conserves {#} s (s\<lparr> running_builds := AList.delete b (running_builds s),
    finished_builds := cap_front n (AList.update b r (finished_builds s)) \<rparr>, eff)"
proof (unfold conserves_def, intro impI conjI)
  let ?f = "cap_front n (AList.update b r (finished_builds s))"
  assume ok: "keys_ok s"
  have fin: "\<forall>(_, c)\<in>set ?f. \<not> cr_is_pending c" "\<forall>(_, c)\<in>set (finished_builds s). \<not> cr_is_pending c"
    using ok assms(3) cr_finished(1) [of n "AList.update b r (finished_builds s)"]
      set_update_subset [of b r "finished_builds s"] by (auto simp: keys_ok_def)
  then show "keys_ok (fst (s\<lparr> running_builds := AList.delete b (running_builds s), finished_builds := ?f \<rparr>, eff))"
    using ok by (auto simp: keys_ok_def distinct_delete distinct_update intro!: cr_finished)
  have "wsum (\<lambda>b. cr_waiting (rb_result b)) (AList.delete b (running_builds s)) + cr_waiting (rb_result build0) =
      wsum (\<lambda>b. cr_waiting (rb_result b)) (running_builds s)"
    using ok assms(1) wsum_delete [of "running_builds s" b build0 "\<lambda>b. cr_waiting (rb_result b)"]
    by (simp add: keys_ok_def)
  moreover have "wsum cr_waiting ?f = {#}" "wsum cr_waiting (finished_builds s) = {#}"
    using fin by (auto intro!: wsum_empty dest!: not_pending_waiting)
  ultimately show "parked (fst (s\<lparr> running_builds := AList.delete b (running_builds s), finished_builds := ?f \<rparr>, eff)) +
      answered (snd (s\<lparr> running_builds := AList.delete b (running_builds s), finished_builds := ?f \<rparr>, eff)) = parked s + {#}"
    using assms(2) by (simp add: parked_def ac_simps)
qed

lemma finalize_build_conserves:
  fixes s :: "('u, 'd, 'x) Coordinator"
  assumes "map_of (running_builds s) b = Some build0" "rb_result build = rb_result build0"
  shows "conserves {#} s (finalize_build b build (s\<lparr> running_builds := AList.delete b (running_builds s) \<rparr>))"
proof -
  define res where "res = (Inr (DataflowBuildFinished b (if rb_errors build = [] then None
    else Some (''build failed: '' @ str_join [CHR 0x0A, CHR 0x0A] (rb_errors build)))) :: ('u, 'x) control_result)"
  obtain r eff where r: "set_result res (rb_result build) = (r, eff)" by force
  show ?thesis
    using conserves_finish_build [OF assms(1), of eff r MAX_FINISHED_BUILDS] set_result_waiting [OF r] r assms(2)
    by (simp add: finalize_build_def Let_def res_def)
qed

lemma build_result_conserves: "conserves {#} s (handle_build_result b d result s)"
  by (auto simp: handle_build_result_def Let_def distinct_update wsum_update_same split: option.splits
      intro!: conserves_builds finalize_build_conserves)

lemma stuck_build_conserves: "conserves {#} s (fail_stuck_build t stuck s)"
  by (auto simp: fail_stuck_build_def split: option.splits prod.splits dest: set_result_waiting
      intro!: conserves_finish_build)

lemma build_timeouts_conserve: "conserves {#} s (check_build_timeouts W t s)"
  unfolding check_build_timeouts_def by (intro conserves_each stuck_build_conserves)

lemma builds_cleanup_conserves: "conserves {#} s (cleanup_disconnected_daemons_from_running_builds D gone s)"
proof -
  let ?s = "s\<lparr> running_builds := map (\<lambda>(b, build). (b, disconnect_build D gone build)) (running_builds s) \<rparr>"
  have "wsum (\<lambda>b. cr_waiting (rb_result b)) (map (\<lambda>(b, build). (b, disconnect_build D gone build)) (running_builds s)) =
      wsum (\<lambda>b. cr_waiting (rb_result b)) (running_builds s)"
    by (rule wsum_map) (simp add: disconnect_build_def Let_def)
  then have "conserves {#} s (?s, [])"
    by (intro conserves_builds) (simp add: map_fst_map del: map_map)
  moreover have "conserves {#} ?s (each finalize_disconnected_build bs ?s)" for bs
    by (rule conserves_each) (auto simp: finalize_disconnected_build_def split: option.splits
        intro!: finalize_build_conserves)
  ultimately show ?thesis
    unfolding cleanup_disconnected_daemons_from_running_builds_def conserves_def by simp
qed

section \<open>Disconnects\<close>

lemma prune_daemons_frame [simp]:
  "df_waiting (prune_daemons gone df) = df_waiting df" "df_uuid (prune_daemons gone df) = df_uuid df"
  "df_spawn_result (prune_daemons gone df) = df_spawn_result df"
  by (simp_all add: prune_daemons_def df_waiting_def)

lemma expire_frame [simp]:
  "df_waiting (expire_stopped_nodes t df) = df_waiting df" "df_uuid (expire_stopped_nodes t df) = df_uuid df"
  by (simp_all add: expire_stopped_nodes_def Let_def df_waiting_def)

lemma map_of_map_snd: "map_of (map (\<lambda>(k, v). (k, g v)) m) k = map_option g (map_of m k)"
  by (induction m) auto

lemma conserves_map:
  assumes "\<And>df. df_waiting (g df) = df_waiting df" "\<And>df. df_uuid (g df) = df_uuid df"
    "same_clients (s\<lparr> running_dataflows := map (\<lambda>(u, df). (u, g df)) (running_dataflows s) \<rparr>) s1"
  shows "conserves {#} s (s1, [])"
proof -
  have "wsum df_waiting (map (\<lambda>(u, df). (u, g df)) (running_dataflows s)) = wsum df_waiting (running_dataflows s)"
    by (rule wsum_map) (rule assms(1))
  then show ?thesis using assms(2,3)
    by (auto simp: conserves_def keys_ok_def parked_def same_clients_def map_fst_map map_of_map_snd simp del: map_map)
qed

lemma conserves_each_inv:
  assumes "\<And>x s. x \<in> set xs \<Longrightarrow> P s \<Longrightarrow> conserves {#} s (f x s) \<and> P (fst (f x s))" "P s"
  shows "conserves {#} s (each f xs s)"
  using assms
proof (induction xs arbitrary: s)
  case (Cons x xs)
  obtain s1 e1 where 1: "f x s = (s1, e1)" by (cases "f x s")
  have "conserves {#} s (s1, e1)" "P s1" using Cons.prems(1) [of x s] Cons.prems(2) 1 by auto
  then show ?case using Cons.IH [of s1] Cons.prems(1) 1 by (auto intro!: conserves_seq_case)
qed simp

lemma reclaim_conserves:
  assumes "spawn_settled u s"
  shows "conserves {#} s (begin_orphaned_dataflow_reclaim D W u s)"
  using assms by (auto simp: begin_orphaned_dataflow_reclaim_def persist_eq spawn_settled_def df_waiting_def
      same_clients_def split: option.splits intro!: conserves_drop)

lemma broadcast_settled:
  "get_df u s = Some df \<Longrightarrow> spawn_settled u' s \<Longrightarrow> spawn_settled u' (fst (broadcast_all_nodes_ready D W u df s))"
  by (auto simp: broadcast_all_nodes_ready_def release_barrier_message_def persist_ready_barrier_release_def
      persist_eq Let_def spawn_settled_def put_df_def update_conv')

lemma reclaim_settled: "spawn_settled u' s \<Longrightarrow> spawn_settled u' (fst (begin_orphaned_dataflow_reclaim D W u s))"
  by (auto simp: begin_orphaned_dataflow_reclaim_def persist_eq spawn_settled_def delete_conv' split: option.splits)

lemma action_conserves:
  assumes "\<And>u. action = ReclaimOrphaned u \<Longrightarrow> spawn_settled u s"
  shows "conserves {#} s (apply_disconnect_action D W action s)"
  using assms by (cases action) (auto simp: apply_disconnect_action_def split: option.splits
      intro!: broadcast_conserves reclaim_conserves)

lemma action_settled: "spawn_settled u s \<Longrightarrow> spawn_settled u (fst (apply_disconnect_action D W action s))"
  by (cases action) (auto simp: apply_disconnect_action_def split: option.splits intro: broadcast_settled reclaim_settled)

lemma each_cancel_frame:
  "each (\<lambda>u. cancel_pending_restart u r) us s = (s', eff) \<Longrightarrow> running_dataflows s' = running_dataflows s"
  by (induction us arbitrary: s s' eff) (auto simp: cancel_pending_restart_def split: prod.splits option.splits)

lemma reclaim_actionD:
  "disconnect_action gone df = Some (ReclaimOrphaned u) \<Longrightarrow>
   affected gone df \<and> df_uuid df = u \<and> is_cached_ok (df_spawn_result df)"
  by (auto simp: disconnect_action_def Let_def split: if_splits)

lemma reclaim_action_settled:
  assumes "keys_ok s" "ReclaimOrphaned u \<in> set (List.map_filter (disconnect_action gone) (map snd (running_dataflows s)))"
  shows "spawn_settled u (s\<lparr> running_dataflows := map (\<lambda>(u, df). (u, prune_daemons gone df)) (running_dataflows s) \<rparr>)"
proof -
  obtain k df where df: "(k, df) \<in> set (running_dataflows s)" "disconnect_action gone df = Some (ReclaimOrphaned u)"
    using assms(2) by (auto simp: List.map_filter_def)
  then have "get_df k s = Some df" using assms(1) by (simp add: keys_ok_def)
  moreover have "df_uuid df = u" "is_cached_ok (df_spawn_result df)"
    using reclaim_actionD [OF df(2)] by auto
  moreover have "df_uuid df = k" using assms(1) calculation(1) by (simp add: keys_ok_def)
  ultimately show ?thesis
    by (auto simp: spawn_settled_def map_of_map_snd is_cached_ok_def cr_waiting_def split: CachedResult.splits)
qed

lemma disconnect_conserves: "conserves {#} s (disconnect_daemons D W gone s)"
proof (cases "keys_ok s")
  case True
  define s1 where "s1 = s\<lparr> daemon_connections := fold AList.delete gone (daemon_connections s),
    coord_store := fold mem_unregister_daemon gone (coord_store s) \<rparr>"
  define s2 where "s2 = s1\<lparr> running_dataflows := map (\<lambda>(u, df). (u, prune_daemons gone df)) (running_dataflows s1) \<rparr>"
  define actions where "actions = List.map_filter (disconnect_action gone) (map snd (running_dataflows s1))"
  define us where "us = map df_uuid (filter (affected gone) (map snd (running_dataflows s1)))"
  obtain s3 e3 where 3: "each (\<lambda>u. cancel_pending_restart u RestartDisconnected) us s2 = (s3, e3)" by force
  obtain s4 e4 where 4: "each (apply_disconnect_action D W) actions s3 = (s4, e4)" by force
  obtain s5 e5 where 5: "cleanup_disconnected_daemons_from_running_builds D gone s4 = (s5, e5)" by force
  have 12: "conserves {#} s (s2, [])"
    by (rule conserves_map [where g = "prune_daemons gone"]) (auto simp: s1_def s2_def same_clients_def)
  have 23: "conserves {#} s2 (s3, e3)"
    using conserves_each [of "\<lambda>u. cancel_pending_restart u RestartDisconnected" s2 us] cancel_conserves 3 by metis
  have run3: "running_dataflows s3 = running_dataflows s2" by (rule each_cancel_frame [OF 3])
  have "keys_ok s1" using True by (simp add: s1_def keys_ok_def)
  then have "spawn_settled u s3" if "ReclaimOrphaned u \<in> set actions" for u
    using reclaim_action_settled [of s1 u gone] that run3 by (simp add: actions_def s2_def spawn_settled_def)
  then have "conserves {#} s3 (each (apply_disconnect_action D W) actions s3)"
    by (intro conserves_each_inv [where P = "\<lambda>s. \<forall>u. ReclaimOrphaned u \<in> set actions \<longrightarrow> spawn_settled u s"])
      (auto intro!: action_conserves action_settled)
  then have 34: "conserves {#} s3 (s4, e4)" using 4 by simp
  have 45: "conserves {#} s4 (s5, e5)" using builds_cleanup_conserves [of s4 D gone] 5 by simp
  have "conserves {#} s (s5, [] @ e3 @ e4 @ e5)"
    by (intro conserves_seq0 [OF 12] conserves_seq0 [OF 23] conserves_seq0 [OF 34] 45)
  moreover have "answered (notify_daemons_about_disconnected_peers W gone cs) = {#}" for cs
    unfolding notify_daemons_about_disconnected_peers_def by (intro answered_concat) (auto intro!: answered_concat)
  ultimately show ?thesis using 3 4 5
    by (simp add: disconnect_daemons_def cleanup_disconnected_daemons_from_running_dataflows_def Let_def
        s1_def [symmetric] s2_def [symmetric] us_def [symmetric] actions_def [symmetric]
        conserves_perm [of _ _ _ "e3 @ e4 @ e5"])
qed (simp add: conserves_def)

lemma exit_conserves: "conserves {#} s (handle_daemon_exit D W d conn s)"
  by (simp add: handle_daemon_exit_def disconnect_conserves)

lemma heartbeat_conserves: "conserves {#} s (handle_heartbeat_interval D W st bt outcome s)"
proof -
  define beats where "beats = map (heartbeat_connection W outcome) (daemon_connections s)"
  define gone where "gone = map (fst \<circ> fst) (filter snd beats)"
  define s1 where "s1 = s\<lparr> running_dataflows := map (\<lambda>(u, df). (u, expire_stopped_nodes (now W) df)) (running_dataflows s),
    daemon_connections := map fst beats \<rparr>"
  define res where "res = (if gone \<noteq> [] then disconnect_daemons D W gone s1 else (s1, []))"
  obtain s2 e2 where 2: "res = (s2, e2)" by (cases res)
  obtain s3 e3 where 3: "check_spawn_timeouts D W st s2 = (s3, e3)" by force
  obtain s4 e4 where 4: "check_build_timeouts W bt s3 = (s4, e4)" by force
  have 1: "conserves {#} s (s1, [])"
    by (rule conserves_map [where g = "expire_stopped_nodes (now W)"]) (auto simp: s1_def same_clients_def)
  have 12: "conserves {#} s1 (s2, e2)" using disconnect_conserves [of s1 D W gone] 2
    by (auto simp: res_def split: if_splits)
  have 23: "conserves {#} s2 (s3, e3)" using spawn_timeouts_conserve [of s2 D W st] 3 by simp
  have 34: "conserves {#} s3 (s4, e4)" using build_timeouts_conserve [of s3 W bt] 4 by simp
  have "conserves {#} s (s4, [] @ e2 @ e3 @ e4)"
    by (intro conserves_seq0 [OF 1] conserves_seq0 [OF 12] conserves_seq0 [OF 23] 34)
  moreover have "handle_heartbeat_interval D W st bt outcome s = (case res of (s, eff) \<Rightarrow>
      case check_spawn_timeouts D W st s of (s, eff') \<Rightarrow>
      case check_build_timeouts W bt s of (s, eff'') \<Rightarrow>
        (s\<lparr> coord_store := check_recovery_timeouts (now W) (coord_store s) \<rparr>, eff @ eff' @ eff''))"
    unfolding handle_heartbeat_interval_def Let_def beats_def gone_def s1_def res_def ..
  ultimately show ?thesis using 2 3 4 by (simp add: conserves_after same_clients_def)
qed

section \<open>Status reports and requests\<close>

lemma recovered_waiting:
  "recovered r descr nodes d reported t = Some df \<Longrightarrow> df_waiting df = {#} \<and> df_uuid df = rec_uuid r"
  by (auto simp: recovered_def df_waiting_def cr_waiting_def split: option.splits)

lemma reestablish_conserves:
  assumes "reestablish_running_dataflow D W r d reported s = Some (s', b)"
  shows "conserves {#} s (s', [])"
proof (cases "get_df (rec_uuid r) s")
  case None
  have "conserves {#} s (put_df (rec_uuid r) df s, [])"
    if "recovered r descr nodes d reported (now W) = Some df" for descr nodes df
    using None recovered_waiting [OF that] by (intro conserves_new) auto
  then show ?thesis using assms None
    by (auto simp: reestablish_running_dataflow_def split: option.splits)
next
  case (Some df)
  then show ?thesis using assms
    by (auto simp: reestablish_running_dataflow_def Let_def intro!: conserves_put)
qed

lemma relink_conserves: "relink D W r d reported s = Some res \<Longrightarrow> conserves {#} s res"
  by (auto simp: relink_def replay_all_nodes_ready_def Let_def split: option.splits if_splits
      dest!: reestablish_conserves elim: conserves_perm)

lemma reconcile_entry_conserves:
  assumes "reconcile_entry D W d e s = Some res"
  shows "conserves {#} s res"
proof -
  have "conserves {#} s res"
    if "relink D W r d ns (s\<lparr> coord_store := st \<rparr>) = Some res" for r ns st
    by (rule conserves_before [OF _ relink_conserves [OF that]]) (simp add: same_clients_def)
  then show ?thesis using assms
    by (auto simp: reconcile_entry_def Let_def stop_orphaned_dataflow_on_daemon_def conserves_same
        split: if_splits option.splits StoreDataflowStatus.splits intro: relink_conserves)
qed

lemma reconcile_conserves: "reconcile D W d es s = Some res \<Longrightarrow> conserves {#} s res"
proof (induction es arbitrary: s res)
  case (Cons e es)
  obtain s1 e1 s2 e2 where 1: "reconcile_entry D W d e s = Some (s1, e1)" and
    2: "reconcile D W d es s1 = Some (s2, e2)" and res: "res = (s2, e1 @ e2)"
    using Cons.prems by (auto split: option.splits)
  show ?case unfolding res
    by (rule conserves_seq0 [OF reconcile_entry_conserves [OF 1] Cons.IH [OF 2]])
qed simp

lemma conserves_each_entry:
  assumes "\<And>u df. fst (fst (f (u, df))) = u \<and> df_waiting (snd (fst (f (u, df)))) = df_waiting df \<and>
      df_uuid (snd (fst (f (u, df)))) = df_uuid df \<and> answered (snd (f (u, df))) = {#}"
  shows "conserves {#} s (s\<lparr> running_dataflows := fst (each_entry f (running_dataflows s)) \<rparr>,
    snd (each_entry f (running_dataflows s)))"
proof -
  have "answered (concat (map (snd \<circ> f) xs)) = {#}" for xs
    using assms by (induction xs) (auto simp: split_paired_all)
  moreover have "wsum df_waiting (map (fst \<circ> f) xs) = wsum df_waiting xs" for xs
    using assms by (induction xs) (auto simp: split_paired_all)
  moreover have "map fst (map (fst \<circ> f) xs) = map fst xs" for xs
    using assms by (induction xs) (auto simp: split_paired_all)
  moreover have "map_of (map (fst \<circ> f) xs) u = map_option (\<lambda>df. snd (fst (f (u, df)))) (map_of xs u)" for xs u
    using assms by (induction xs) (auto simp: split_paired_all prod_eq_iff)
  ultimately show ?thesis using assms
    by (auto simp: conserves_def keys_ok_def parked_def each_entry_def simp del: map_map)
qed

lemma auto_recover_frame:
  "fst (fst (auto_recover W d reported cs (u, df))) = u \<and>
   df_waiting (snd (fst (auto_recover W d reported cs (u, df)))) = df_waiting df \<and>
   df_uuid (snd (fst (auto_recover W d reported cs (u, df)))) = df_uuid df \<and>
   answered (snd (auto_recover W d reported cs (u, df))) = {#}"
  by (simp add: auto_recover_def)

lemma replay_items_silent: "replay_items D W cs u d items = (n, eff) \<Longrightarrow> answered eff = {#}"
  by (induction items arbitrary: n eff) (auto simp: Let_def split: prod.splits if_splits)

lemma fallback_frame:
  assumes "handle_pruned_state_catchup_fallback D W cs st d u df = (df', eff)"
  shows "df_waiting df' = df_waiting df" "df_uuid df' = df_uuid df" "answered eff = {#}"
  using assms by (auto simp: handle_pruned_state_catchup_fallback_def replay_persisted_params_for_daemon_def Let_def
      split: if_splits prod.splits dest: replay_items_silent)

lemma catch_up_frame:
  "fst (fst (catch_up D W cs st d reported (u, df))) = u \<and>
   df_waiting (snd (fst (catch_up D W cs st d reported (u, df)))) = df_waiting df \<and>
   df_uuid (snd (fst (catch_up D W cs st d reported (u, df)))) = df_uuid df \<and>
   answered (snd (catch_up D W cs st d reported (u, df))) = {#}"
  by (auto simp: catch_up_def fallback_frame split: option.splits prod.splits)

lemma status_report_conserves:
  fixes s :: "('u::linorder, 'd, 'x) Coordinator"
  assumes "handle_daemon_status_report D W d entries s = Some res"
  shows "conserves {#} s res"
proof -
  obtain s1 e1 where 1: "reconcile D W d entries s = Some (s1, e1)"
    using assms by (auto simp: handle_daemon_status_report_def split: option.splits)
  define f :: "'u \<times> ('u, 'd, 'x) CoordDataflow \<Rightarrow> _" where
    "f = auto_recover W d (map se_dataflow entries) (daemon_connections s1)"
  define g :: "'u \<times> ('u, 'd, 'x) CoordDataflow \<Rightarrow> _" where
    "g = catch_up D W (daemon_connections s1) (coord_store s1) d (map se_dataflow entries)"
  define s2 where "s2 = s1\<lparr> running_dataflows := fst (each_entry f (running_dataflows s1)) \<rparr>"
  have "conserves {#} s (s1, e1)" using reconcile_conserves 1 by blast
  moreover have "conserves {#} s1 (s2, snd (each_entry f (running_dataflows s1)))"
    unfolding s2_def f_def by (rule conserves_each_entry) (rule auto_recover_frame)
  moreover have "conserves {#} s2 (s2\<lparr> running_dataflows := fst (each_entry g (running_dataflows s2)) \<rparr>,
      snd (each_entry g (running_dataflows s2)))"
    unfolding g_def by (rule conserves_each_entry) (rule catch_up_frame)
  ultimately have "conserves {#} s (s2\<lparr> running_dataflows := fst (each_entry g (running_dataflows s2)) \<rparr>,
      e1 @ snd (each_entry f (running_dataflows s1)) @ snd (each_entry g (running_dataflows s2)))"
    using conserves_seq0 by blast
  then show ?thesis using assms 1
    by (auto simp: handle_daemon_status_report_def Let_def f_def [symmetric] g_def [symmetric] s2_def case_prod_unfold)
qed

lemma ack_conserves: "conserves {#} s (handle_state_catch_up_ack d u ack s, [])"
  by (auto simp: handle_state_catch_up_ack_def Let_def prune_state_log_def split: option.splits intro!: conserves_put)

lemma metrics_conserves: "conserves {#} s (handle_node_metrics W u ms s, [])"
  by (auto simp: handle_node_metrics_def Let_def split: option.splits intro!: conserves_put)

lemma node_stopped_conserves: "conserves {#} s (handle_daemon_node_stopped W d u n clean s, [])"
  by (auto simp: handle_daemon_node_stopped_def Let_def split: option.splits intro!: conserves_put)

lemma connection_conserves:
  "conserves {#} s (handle_register W m ok labels conn sent s, [])"
  "conserves {#} s (handle_daemon_heartbeat W d s, [])"
  "conserves {#} s (handle_daemon_zenoh_endpoint d c e s, [])"
  by (auto simp: handle_register_def handle_daemon_heartbeat_def handle_daemon_zenoh_endpoint_def Let_def
      same_clients_def intro!: conserves_same)

lemma forward_param_conserves:
  "conserves {#} s (fst (forward_param W u target oper msg rep s))"
  by (auto simp: forward_param_def Let_def append_state_log_def split: ParamTarget.splits option.splits
      intro!: conserves_put)

lemma answer_with_conserves: "conserves {#} s (fst res) \<Longrightarrow> conserves {#w#} s (answer_with w res)"
  by (auto simp: answer_with_def split: prod.splits intro: conserves_answer)

lemma forward_store_conserves:
  "conserves {#} s (fst (forward_param W u target oper msg rep (s\<lparr> coord_store := st \<rparr>)))"
  by (rule conserves_before [where s' = "s\<lparr> coord_store := st \<rparr>"])
    (auto simp: same_clients_def intro!: forward_param_conserves)

lemma param_conserves:
  "conserves {#w#} s (handle_set_param D W u n key v w s)" "conserves {#w#} s (handle_delete_param D W u n key w s)"
  unfolding handle_set_param_def handle_delete_param_def
  by (auto split: sum.splits prod.splits intro!: answer_with_conserves forward_store_conserves)

lemma clean_same: "same_clients s (fold clean_one cs s)"
proof -
  have "same_clients s s' \<Longrightarrow> same_clients s (fold clean_one cs s')" for s'
    by (induction cs arbitrary: s') (auto simp: clean_one_def same_clients_def)
  then show ?thesis by simp
qed

lemma stop_dataflow_silent: "stop_dataflow W u grace force s = (r, eff) \<Longrightarrow> answered eff = {#}"
  by (auto simp: stop_dataflow_def Let_def split: option.splits intro!: answered_concat)

lemma stop_dataflow_df: "stop_dataflow W u grace force s = (Inr df, eff) \<Longrightarrow> get_df u s = Some df"
  by (auto simp: stop_dataflow_def Let_def split: option.splits if_splits)

lemma cancel_frame:
  "cancel_pending_restart u r s = (s', eff) \<Longrightarrow>
   running_dataflows s' = running_dataflows s \<and> dataflow_results s' = dataflow_results s \<and>
   daemon_connections s' = daemon_connections s \<and> coord_store s' = coord_store s"
  by (auto simp: cancel_pending_restart_def split: option.splits)

lemma stop_conserves:
  fixes s :: "('u::linorder, 'd, 'x) Coordinator"
  shows "conserves {#w#} s (handle_stop D W u grace force w s)"
proof -
  obtain s1 and e1 :: "('u, 'x) effect list"
    where 1: "cancel_pending_restart u RestartStopped s = (s1, e1)" by force
  have c1: "conserves {#} s (s1, e1)" using cancel_conserves 1 by metis
  obtain r and e2 :: "('u, 'x) effect list" where 2: "stop_dataflow W u grace force s1 = (r, e2)" by force
  have silent: "answered e2 = {#}" by (rule stop_dataflow_silent [OF 2])
  have "conserves {#w#} s1 (case r of
      Inl e \<Rightarrow> (s1, e2 @ [Answer w (Inl e)])
    | Inr df \<Rightarrow> (put_df u (df\<lparr> df_generation := Suc (df_generation df), df_stop_senders := df_stop_senders df @ [w] \<rparr>)
        (s1\<lparr> coord_store := st df \<rparr>), e2))" for st
  proof (cases r)
    case (Inl e)
    then show ?thesis using silent by (simp add: conserves_same)
  next
    case (Inr df)
    have "get_df u s1 = Some df" using stop_dataflow_df 2 Inr by metis
    then show ?thesis using Inr silent
      by (auto simp: same_clients_def df_waiting_def intro!: conserves_put)
  qed
  note 3 = conserves_seq0 [OF c1, of "{#w#}"] this
  have "conserves {#w#} s (s1, e1 @ [Answer w a])" for a by (rule conserves_answer [OF c1])
  then show ?thesis using 1 2 3(2)
    by (cases r) (auto simp: handle_stop_def persist_eq split: if_splits intro!: 3(1))
qed

lemma conserves_add_restart:
  assumes "map_of (pending_restarts s) u = None" "pr_sender pr = w"
  shows "conserves {#w#} s (s\<lparr> pending_restarts := AList.update u pr (pending_restarts s) \<rparr>, [])"
proof -
  have "wsum (\<lambda>pr. {#pr_sender pr#}) (AList.update u pr (pending_restarts s)) =
      wsum (\<lambda>pr. {#pr_sender pr#}) (pending_restarts s) + {#w#}"
    using assms by (subst wsum_update_new) (auto simp: map_of_eq_None_iff)
  then show ?thesis by (simp add: conserves_def keys_ok_def parked_def distinct_update)
qed

lemma restart_conserves:
  fixes s :: "('u::linorder, 'd, 'x) Coordinator"
  shows "conserves {#w#} s (initiate_restart D W u grace force w s)"
proof (cases "map_of (pending_restarts s) u = None \<and> get_df u s \<noteq> None")
  case False
  then show ?thesis by (auto simp: initiate_restart_def conserves_same)
next
  case True
  obtain r and eff :: "('u, 'x) effect list" where 1: "stop_dataflow W u grace force s = (r, eff)" by force
  have silent: "answered eff = {#}" by (rule stop_dataflow_silent [OF 1])
  have park: "conserves {#w#} s (put_df u df (s\<lparr> coord_store := st \<rparr>)\<lparr> pending_restarts := AList.update u pr (pending_restarts s) \<rparr>, eff)"
    if df: "get_df u s = Some df0" "df_waiting df = df_waiting df0" "df_uuid df = df_uuid df0" and "pr_sender pr = w"
    for df df0 st pr
  proof -
    let ?s = "put_df u df (s\<lparr> coord_store := st \<rparr>)"
    have "conserves {#} s (?s, eff)" using df silent by (intro conserves_put) (auto simp: same_clients_def)
    moreover have "conserves {#w#} ?s (?s\<lparr> pending_restarts := AList.update u pr (pending_restarts ?s) \<rparr>, [])"
      using True that(4) by (intro conserves_add_restart) (auto simp: put_df_def)
    ultimately show ?thesis using conserves_seq0 by (fastforce simp: put_df_def)
  qed
  show ?thesis
  proof (cases r)
    case (Inl e)
    then show ?thesis using True 1 silent by (auto simp: initiate_restart_def conserves_same)
  next
    case (Inr df)
    then have "get_df u s = Some df" using stop_dataflow_df 1 by metis
    then show ?thesis using True 1 Inr
      by (auto simp: initiate_restart_def persist_eq Let_def intro!: park)
  qed
qed

lemma start_conserves:
  fixes s :: "('u::linorder, 'd, 'x) Coordinator"
  assumes "get_df (fresh W) s = None"
  shows "conserves {#w#} s (handle_start D W descr name uv w s)"
proof -
  obtain r and eff :: "('u, 'x) effect list" where
    1: "start_dataflow D (accepts W) (net W) (daemon_connections s) (fresh W) (now W) descr name uv =
        (r :: coord_error + ('u, 'd, 'x) CoordDataflow, eff)" by force
  have "conserves {#} s (insert_started D W df s, eff)" if "r = Inr df" for df
    using 1 that assms by (intro insert_started_conserves) auto
  then show ?thesis using 1 start_dataflow_silent [OF 1]
    by (cases r) (auto simp: handle_start_def conserves_same intro: conserves_answer)
qed

lemma wait_spawn_conserves: "conserves {#w#} s (handle_wait_for_spawn u w s)"
  by (auto simp: handle_wait_for_spawn_def df_waiting_def ac_simps conserves_same split: option.splits prod.splits
      dest!: cr_register_waiting intro!: conserves_put)

lemma build_conserves:
  assumes "map_of (running_builds s) (fresh W) = None"
  shows "conserves {#w#} s (handle_build D W descr hub w s)"
proof -
  have new: "fresh W \<notin> fst ` set (running_builds s)" using assms by (simp add: map_of_eq_None_iff)
  have "rb_result build = PendingResult []" if "build_dataflow D W descr hub cs = Inr build" for cs build
    using that by (auto simp: build_dataflow_def split: option.splits sum.splits)
  then show ?thesis using new
    by (auto simp: handle_build_def distinct_update wsum_update_new cr_waiting_def conserves_same split: sum.splits
        intro!: conserves_builds)
qed

lemma wait_build_conserves: "conserves {#w#} s (handle_wait_for_build b w s)"
proof (cases "map_of (running_builds s) b")
  case (Some build)
  obtain r eff where r: "cr_register w (rb_result build) = (r, eff)" by force
  have "conserves {#w#} s (s\<lparr> running_builds := AList.update b (build\<lparr> rb_result := r \<rparr>) (running_builds s) \<rparr>, eff)"
    using cr_register_waiting [OF r]
    by (intro conserves_builds conjI cancel_swap [OF wsum_update [OF Some]]) (auto simp: distinct_update)
  then show ?thesis using Some r by (simp add: handle_wait_for_build_def)
next
  case None
  show ?thesis
  proof (cases "map_of (finished_builds s) b")
    case (Some c)
    have "conserves {#w#} s (handle_wait_for_build b w s)" if ok: "keys_ok s"
    proof -
      have "\<not> cr_is_pending c" using ok Some by (auto simp: keys_ok_def dest!: map_of_SomeD)
      then obtain r where c: "c = Cached r" by (auto simp: cr_is_pending_def split: CachedResult.splits)
      have "AList.update b c (finished_builds s) = finished_builds s" using Some by (rule update_triv)
      then show ?thesis using None Some c
        by (simp add: handle_wait_for_build_def cr_register_def conserves_same)
    qed
    then show ?thesis by (auto simp: conserves_def)
  qed (simp add: handle_wait_for_build_def None conserves_same)
qed

lemma destroy_conserves:
  fixes s :: "('u::linorder, 'd, 'x) Coordinator"
  shows "conserves {#} s (handle_destroy D W s)"
proof -
  have mark: "conserves {#} s (mark_stopping D W u s, [])" for u s
    by (auto simp: mark_stopping_def persist_eq same_clients_def split: option.splits intro!: conserves_put)
  have fold: "conserves {#} s (fold (mark_stopping D W) us s, [])" for us s
  proof (induction us arbitrary: s)
    case (Cons u us)
    have "conserves {#} s (fold (mark_stopping D W) us (mark_stopping D W u s), [] @ [])"
      by (rule conserves_seq0 [OF mark Cons.IH])
    then show ?case by simp
  qed simp
  define s1 where "s1 = fold (mark_stopping D W) (map fst (running_dataflows s)) s"
  have "answered (snd (stop_dataflow W u None False s1)) = {#}" for u
    by (cases "stop_dataflow W u None False s1") (auto dest: stop_dataflow_silent)
  then have silent: "answered (concat (map (\<lambda>u. snd (stop_dataflow W u None False s1)) us)) = {#}" for us
    by (intro answered_concat) auto
  have "same_clients s1 (s1\<lparr> daemon_connections := [] \<rparr>)" by (simp add: same_clients_def)
  then have "conserves {#} s (s1\<lparr> daemon_connections := [] \<rparr>, [])"
    using conserves_after [OF fold] by (simp add: s1_def)
  then show ?thesis
    unfolding handle_destroy_def Let_def s1_def [symmetric] by (rule conserves_perm) (simp add: silent del: map_map)
qed

text \<open>A fresh identifier names nothing the coordinator knows.\<close>

definition unused :: "'u \<Rightarrow> ('u, 'd, 'x) Coordinator \<Rightarrow> bool" where
  "unused u s \<longleftrightarrow>
     get_df u s = None \<and> map_of (running_builds s) u = None \<and> map_of (pending_restarts s) u = None \<and>
     map_of (archived_dataflows s) u = None \<and> map_of (dataflow_results s) u = None \<and>
     mem_get_dataflow u (coord_store s) = None"

theorem step_conserves:
  assumes "coord_step D W ev s = Some res" "unused (fresh W) s"
  shows "conserves (requested ev) s res"
proof (cases ev)
  case (DaemonStatusReport d entries)
  then show ?thesis using assms(1) by (auto intro: status_report_conserves)
next
  case (CtlStopByName name grace force w)
  then show ?thesis using assms(1)
    by (auto simp: handle_stop_by_name_def conserves_same stop_conserves split: sum.splits)
next
  case (CtlRestartByName name grace force w)
  then show ?thesis using assms(1)
    by (auto simp: restart_by_name_def conserves_same restart_conserves split: sum.splits)
next
  case (CtlClean w)
  then show ?thesis using assms(1) clean_same by (auto simp: handle_clean_def Let_def intro!: conserves_same)
qed (use assms in \<open>auto simp: unused_def ready_conserves finished_conserves spawn_result_conserves build_result_conserves
    heartbeat_conserves exit_conserves ack_conserves metrics_conserves node_stopped_conserves connection_conserves
    param_conserves stop_conserves restart_conserves start_conserves wait_spawn_conserves build_conserves
    wait_build_conserves destroy_conserves\<close>)

text \<open>Runs of the coordinator from its start: the requests it has read and the answers it has sent.\<close>

inductive served ::
  "('u::linorder, 'd) deps \<Rightarrow> ('u, 'd, 'x) Coordinator \<Rightarrow> nat multiset \<Rightarrow> nat multiset \<Rightarrow> bool" for D where
  start: "served D (start_coordinator t st) {#} {#}"
| step: "served D s reqs ans \<Longrightarrow> unused (fresh W) s \<Longrightarrow> coord_step D W ev s = Some (s', eff) \<Longrightarrow>
    served D s' (reqs + requested ev) (ans + answered eff)"

lemma served_invariant: "served D s reqs ans \<Longrightarrow> keys_ok s \<and> reqs = ans + parked s"
proof (induction rule: served.induct)
  case (start t st)
  show ?case by (simp add: start_coordinator_def Let_def keys_ok_def parked_def)
next
  case (step s reqs ans W ev s' eff)
  have "conserves (requested ev) s (s', eff)" by (rule step_conserves [OF step.hyps(3,2)])
  then show ?case using step.IH by (auto simp: conserves_def ac_simps)
qed

section \<open>Deferred restarts\<close>

text \<open>A deferred restart waits for a dataflow that is still known: whatever removes the dataflow settles the
  restart.\<close>

definition restarts_ok :: "('u, 'd, 'x) Coordinator \<Rightarrow> bool" where
  "restarts_ok s \<longleftrightarrow> (\<forall>u. map_of (pending_restarts s) u \<noteq> None \<longrightarrow> get_df u s \<noteq> None)"

definition restarts_grow :: "('u, 'd, 'x) Coordinator \<Rightarrow> ('u, 'd, 'x) Coordinator \<Rightarrow> bool" where
  "restarts_grow s s' \<longleftrightarrow>
     (\<forall>u. get_df u s \<noteq> None \<longrightarrow> get_df u s' \<noteq> None) \<and>
     (\<forall>u. map_of (pending_restarts s') u \<noteq> None \<longrightarrow> map_of (pending_restarts s) u \<noteq> None)"

lemma restarts_grow_ok: "restarts_grow s s' \<Longrightarrow> restarts_ok s \<Longrightarrow> restarts_ok s'"
  by (auto simp: restarts_grow_def restarts_ok_def)

lemma restarts_grow_refl [simp]: "restarts_grow s s"
  by (simp add: restarts_grow_def)

lemma restarts_grow_trans: "restarts_grow s s' \<Longrightarrow> restarts_grow s' s'' \<Longrightarrow> restarts_grow s s''"
  by (auto simp: restarts_grow_def)

lemma restarts_grow_put: "running_dataflows s1 = running_dataflows s \<Longrightarrow> pending_restarts s1 = pending_restarts s \<Longrightarrow>
    restarts_grow s (put_df u df s1)"
  by (simp add: restarts_grow_def put_df_def update_conv')

lemma restarts_grow_same: "running_dataflows s1 = running_dataflows s \<Longrightarrow> pending_restarts s1 = pending_restarts s \<Longrightarrow> restarts_grow s s1"
  by (simp add: restarts_grow_def)

lemma restarts_grow_map: "pending_restarts s1 = pending_restarts s \<Longrightarrow>
    running_dataflows s1 = map (\<lambda>(u, df). (u, g df)) (running_dataflows s) \<Longrightarrow> restarts_grow s s1"
  by (simp add: restarts_grow_def map_of_map_snd)

lemma restarts_grow_each: "(\<And>x s. restarts_grow s (fst (f x s))) \<Longrightarrow> restarts_grow s (fst (each f xs s))"
proof (induction xs arbitrary: s)
  case (Cons x xs)
  obtain s1 e1 where 1: "f x s = (s1, e1)" by (cases "f x s")
  have "restarts_grow s s1" using Cons.prems [of s x] 1 by simp
  moreover have "restarts_grow s1 (fst (each f xs s1))" by (rule Cons.IH [OF Cons.prems])
  ultimately show ?case using 1 restarts_grow_trans by (auto split: prod.splits)
qed simp

lemma cancel_grows: "restarts_grow s (fst (cancel_pending_restart u r s))"
  by (auto simp: cancel_pending_restart_def restarts_grow_def delete_conv' split: option.splits)

lemma broadcast_grows: "restarts_grow s (fst (broadcast_all_nodes_ready D W u df s))"
  by (simp add: broadcast_all_nodes_ready_def release_barrier_message_def persist_ready_barrier_release_def Let_def
      persist_eq restarts_grow_put)

lemma settled_ok:
  assumes "restarts_ok s" "map_of (pending_restarts s') u = None"
    "\<And>v. v \<noteq> u \<Longrightarrow> get_df v s \<noteq> None \<Longrightarrow> get_df v s' \<noteq> None"
    "\<And>v. map_of (pending_restarts s') v \<noteq> None \<Longrightarrow> map_of (pending_restarts s) v \<noteq> None"
  shows "restarts_ok s'"
  unfolding restarts_ok_def
proof (intro allI impI)
  fix v assume v: "map_of (pending_restarts s') v \<noteq> None"
  then have "v \<noteq> u" using assms(2) by auto
  moreover have "get_df v s \<noteq> None" using assms(1,4) v by (simp add: restarts_ok_def)
  ultimately show "get_df v s' \<noteq> None" by (rule assms(3))
qed

lemma finish_restarts_ok:
  fixes s :: "('u::linorder, 'd, 'x) Coordinator"
  assumes "restarts_ok s"
  shows "restarts_ok (fst (finish_dataflow D W u df s))"
proof -
  let ?s = "s\<lparr> archived_dataflows := archive u df (archived_dataflows s),
              running_dataflows := AList.delete u (running_dataflows s) \<rparr>"
  obtain s2 eff where 2: "complete_restart D W u ?s = (s2, eff)" by force
  have "map_of (pending_restarts s2) u = None \<and>
      (\<forall>v. v \<noteq> u \<longrightarrow> get_df v s \<noteq> None \<longrightarrow> get_df v s2 \<noteq> None) \<and>
      (\<forall>v. map_of (pending_restarts s2) v \<noteq> None \<longrightarrow> map_of (pending_restarts s) v \<noteq> None)"
    using 2 by (auto simp: complete_restart_def insert_started_def persist_eq put_df_def Let_def delete_conv' update_conv'
        split: option.splits prod.splits sum.splits if_splits)
  then have "restarts_ok s2" using settled_ok [OF assms, of s2 u] by blast
  then show ?thesis using 2 by (simp add: finish_dataflow_def Let_def persist_eq restarts_ok_def)
qed

lemma finished_restarts_ok:
  assumes "restarts_ok s"
  shows "restarts_ok (fst (handle_finished_on_daemon D W u d result s))"
proof -
  have cap: "restarts_ok (cap_results s') = restarts_ok s'" for s' by (simp add: restarts_ok_def cap_results_def)
  have "restarts_ok (s\<lparr> dataflow_results := x \<rparr>)" for x using assms by (simp add: restarts_ok_def)
  moreover have "restarts_grow s (put_df u df (s\<lparr> dataflow_results := x \<rparr>))" for df x by (rule restarts_grow_put) auto
  then have "restarts_ok (put_df u df (s\<lparr> dataflow_results := x \<rparr>))" for df x using assms restarts_grow_ok by blast
  ultimately show ?thesis using assms
    by (auto simp: handle_finished_on_daemon_def Let_def merge_late_result_def cap split: option.splits prod.splits
        dest: finish_restarts_ok [where D = D and W = W] simp: prod_eq_iff)
qed

lemma teardown_restarts_ok:
  assumes "restarts_ok s"
  shows "restarts_ok (fst (teardown_failed_spawn W u err ds s))"
proof (cases "get_df u s")
  case (Some df)
  let ?s = "s\<lparr> running_dataflows := AList.delete u (running_dataflows s) \<rparr>"
  obtain s2 answers where 2: "cancel_pending_restart u (RestartSpawnFailed err) ?s = (s2, answers)" by force
  have "map_of (pending_restarts s2) u = None \<and>
      (\<forall>v. v \<noteq> u \<longrightarrow> get_df v s \<noteq> None \<longrightarrow> get_df v s2 \<noteq> None) \<and>
      (\<forall>v. map_of (pending_restarts s2) v \<noteq> None \<longrightarrow> map_of (pending_restarts s) v \<noteq> None)"
    using 2 by (auto simp: cancel_pending_restart_def delete_conv' split: option.splits if_splits)
  then have "restarts_ok s2" using settled_ok [OF assms, of s2 u] by blast
  then show ?thesis using Some 2
    by (simp add: teardown_failed_spawn_def Let_def cap_results_def restarts_ok_def)
qed (simp add: teardown_failed_spawn_def assms Let_def)

lemma put_restarts_ok: "restarts_ok s \<Longrightarrow> restarts_ok (put_df u df (s\<lparr> coord_store := st \<rparr>))"
  by (rule restarts_grow_ok [OF restarts_grow_put]) auto

lemma spawn_result_restarts_ok:
  assumes "restarts_ok s"
  shows "restarts_ok (fst (handle_dataflow_spawn_result D W u d result s))"
proof (cases "get_df u s")
  case (Some df0)
  have put: "restarts_ok (put_df u df (s\<lparr> coord_store := st \<rparr>))" for df st by (rule put_restarts_ok [OF assms])
  show ?thesis using Some put teardown_restarts_ok [OF put]
    by (auto simp: handle_dataflow_spawn_result_def Let_def case_prod_unfold split: option.splits)
qed (simp add: handle_dataflow_spawn_result_def assms)

lemma stuck_spawn_restarts_ok:
  assumes "restarts_ok s"
  shows "restarts_ok (fst (fail_stuck_spawn D W t stuck s))"
  using assms by (auto simp: fail_stuck_spawn_def Let_def case_prod_unfold split: option.splits
      intro!: teardown_restarts_ok put_restarts_ok)

lemma each_inv:
  assumes "\<And>x s. x \<in> set xs \<Longrightarrow> P s \<Longrightarrow> P (fst (f x s))" "P s"
  shows "P (fst (each f xs s))"
  using assms
proof (induction xs arbitrary: s)
  case (Cons x xs)
  obtain s1 e1 where 1: "f x s = (s1, e1)" by (cases "f x s")
  have "P s1" using Cons.prems(1) [of x s] Cons.prems(2) 1 by simp
  then have "P (fst (each f xs s1))" using Cons.IH [of s1] Cons.prems(1) by simp
  then show ?case using 1 by (cases "each f xs s1") simp
qed simp

lemma builds_frame:
  "restarts_grow s (fst (cleanup_disconnected_daemons_from_running_builds D gone s))" "restarts_grow s (fst (check_build_timeouts W t s))"
  "restarts_grow s (fst (handle_build_result b d result s))"
proof -
  have fin: "restarts_grow s (fst (finalize_build b build (s\<lparr> running_builds := bs \<rparr>)))" for b build bs and s :: "('a, 'd, 'c) Coordinator"
    by (rule restarts_grow_same) (auto simp: finalize_build_def Let_def split: prod.splits)
  have "restarts_grow s (fst (each finalize_disconnected_build bs (s\<lparr> running_builds := x \<rparr>)))" for bs x
    by (rule restarts_grow_trans [OF restarts_grow_same restarts_grow_each])
      (auto simp: finalize_disconnected_build_def split: option.splits intro!: fin)
  then show "restarts_grow s (fst (cleanup_disconnected_daemons_from_running_builds D gone s))"
    by (simp add: cleanup_disconnected_daemons_from_running_builds_def)
  show "restarts_grow s (fst (check_build_timeouts W t s))"
    unfolding check_build_timeouts_def
    by (rule restarts_grow_each, rule restarts_grow_same) (auto simp: fail_stuck_build_def split: prod.splits option.splits)
  show "restarts_grow s (fst (handle_build_result b d result s))"
    by (auto simp: handle_build_result_def Let_def split: option.splits intro!: fin restarts_grow_same)
qed

lemma action_restarts:
  assumes "restarts_ok s \<and> (\<forall>u. ReclaimOrphaned u \<in> set actions \<longrightarrow> map_of (pending_restarts s) u = None)"
    "action \<in> set actions" "(s', eff) = apply_disconnect_action D W action s"
  shows "restarts_ok s' \<and> (\<forall>u. ReclaimOrphaned u \<in> set actions \<longrightarrow> map_of (pending_restarts s') u = None)"
proof (cases action)
  case (ReleaseReadyBarrier u)
  have "pending_restarts s' = pending_restarts s" "restarts_grow s s'"
    using assms(3) ReleaseReadyBarrier broadcast_grows [of s D W u]
    by (auto simp: apply_disconnect_action_def broadcast_all_nodes_ready_def release_barrier_message_def
        persist_ready_barrier_release_def Let_def persist_eq put_df_def split: option.splits)
  then show ?thesis using assms(1) restarts_grow_ok by auto
next
  case (ReclaimOrphaned u)
  have "pending_restarts s' = pending_restarts s" "\<And>v. v \<noteq> u \<Longrightarrow> get_df v s \<noteq> None \<Longrightarrow> get_df v s' \<noteq> None"
    using assms(3) ReclaimOrphaned
    by (auto simp: apply_disconnect_action_def begin_orphaned_dataflow_reclaim_def persist_eq delete_conv'
        split: option.splits)
  then show ?thesis using assms(1,2) ReclaimOrphaned settled_ok [of s s' u] by auto
qed

lemma each_cancel_None:
  "u \<in> set us \<Longrightarrow> map_of (pending_restarts (fst (each (\<lambda>u. cancel_pending_restart u r) us s))) u = None"
proof (induction us arbitrary: s)
  case (Cons v us)
  obtain s1 e1 where 1: "cancel_pending_restart v r s = (s1, e1)" by force
  have "map_of (pending_restarts s1) v = None"
    using 1 by (auto simp: cancel_pending_restart_def delete_conv' split: option.splits)
  moreover have "restarts_grow s1 (fst (each (\<lambda>u. cancel_pending_restart u r) us s1))"
    by (rule restarts_grow_each) (rule cancel_grows)
  ultimately have "map_of (pending_restarts (fst (each (\<lambda>u. cancel_pending_restart u r) us s1))) v = None"
    by (auto simp: restarts_grow_def)
  then show ?case using Cons.IH [of s1] Cons.prems 1 by (auto split: prod.splits)
qed simp

lemma disconnect_restarts_ok:
  assumes ok: "restarts_ok s"
  shows "restarts_ok (fst (disconnect_daemons D W gone s))"
proof -
  define s1 where "s1 = s\<lparr> daemon_connections := fold AList.delete gone (daemon_connections s),
    coord_store := fold mem_unregister_daemon gone (coord_store s) \<rparr>"
  define s2 where "s2 = s1\<lparr> running_dataflows := map (\<lambda>(u, df). (u, prune_daemons gone df)) (running_dataflows s1) \<rparr>"
  define actions where "actions = List.map_filter (disconnect_action gone) (map snd (running_dataflows s1))"
  define us where "us = map df_uuid (filter (affected gone) (map snd (running_dataflows s1)))"
  obtain s3 e3 where 3: "each (\<lambda>u. cancel_pending_restart u RestartDisconnected) us s2 = (s3, e3)" by force
  obtain s4 e4 where 4: "each (apply_disconnect_action D W) actions s3 = (s4, e4)" by force
  have "restarts_grow s s2"
    by (rule restarts_grow_map [where g = "prune_daemons gone"]) (simp_all add: s1_def s2_def)
  moreover have "restarts_grow s2 s3"
    using restarts_grow_each [of "\<lambda>u. cancel_pending_restart u RestartDisconnected" s2 us, OF cancel_grows] 3 by simp
  ultimately have "restarts_ok s3" using ok restarts_grow_ok by blast
  moreover have "u \<in> set us" if "ReclaimOrphaned u \<in> set actions" for u
    using that by (force simp: actions_def us_def List.map_filter_def dest: reclaim_actionD)
  then have "map_of (pending_restarts s3) u = None" if "ReclaimOrphaned u \<in> set actions" for u
    using each_cancel_None [of u us RestartDisconnected s2] 3 that by simp
  ultimately have "restarts_ok (fst (each (apply_disconnect_action D W) actions s3))"
    using each_inv [where P = "\<lambda>s. restarts_ok s \<and>
        (\<forall>u. ReclaimOrphaned u \<in> set actions \<longrightarrow> map_of (pending_restarts s) u = None)"
        and f = "apply_disconnect_action D W" and xs = actions and s = s3]
      action_restarts [OF _ _ prod.collapse] by blast
  then have "restarts_ok s4" using 4 by simp
  then have "restarts_ok (fst (cleanup_disconnected_daemons_from_running_builds D gone s4))"
    using builds_frame(1) restarts_grow_ok by blast
  then show ?thesis using 3 4
    by (cases "cleanup_disconnected_daemons_from_running_builds D gone s4")
      (simp add: disconnect_daemons_def cleanup_disconnected_daemons_from_running_dataflows_def Let_def
        s1_def [symmetric] s2_def [symmetric] us_def [symmetric] actions_def [symmetric])
qed

lemma heartbeat_restarts_ok:
  assumes "restarts_ok s"
  shows "restarts_ok (fst (handle_heartbeat_interval D W st bt outcome s))"
proof -
  let ?s = "\<lambda>cs. s\<lparr> running_dataflows := map (\<lambda>(u, df). (u, expire_stopped_nodes (now W) df)) (running_dataflows s),
    daemon_connections := cs \<rparr>"
  have "restarts_grow s (?s cs)" for cs
    by (rule restarts_grow_map [where g = "expire_stopped_nodes (now W)"]) simp_all
  then have 1: "restarts_ok (?s cs)" for cs using assms restarts_grow_ok by blast
  have 2: "restarts_ok s \<Longrightarrow> restarts_ok (fst (check_spawn_timeouts D W st s))" for s :: "('a, 'b, 'c) Coordinator"
    unfolding check_spawn_timeouts_def by (rule each_inv) (rule stuck_spawn_restarts_ok)
  have 3: "restarts_ok s \<Longrightarrow> restarts_ok (fst (check_build_timeouts W bt s))" for s :: "('a, 'b, 'c) Coordinator"
    using builds_frame(2) restarts_grow_ok by blast
  have 4: "restarts_ok (s\<lparr> coord_store := x \<rparr>) = restarts_ok s" for s :: "('a, 'b, 'c) Coordinator" and x
    by (simp add: restarts_ok_def)
  show ?thesis
    by (auto simp: handle_heartbeat_interval_def Let_def case_prod_unfold 4
        intro!: 2 3 1 [unfolded case_prod_unfold] disconnect_restarts_ok)
qed

lemma reestablish_grows:
  "reestablish_running_dataflow D W r d reported s = Some (s', b) \<Longrightarrow> restarts_grow s s'"
  by (auto simp: reestablish_running_dataflow_def Let_def split: option.splits intro!: restarts_grow_put)

lemma reconcile_entry_grows:
  assumes "reconcile_entry D W d e s = Some (s', eff)"
  shows "restarts_grow s s'"
proof -
  have link: "restarts_grow s s'" if "relink D W r d ns s = Some (s', eff)" for r ns and s :: "('a, 'b, 'c) Coordinator"
    using that reestablish_grows by (fastforce simp: relink_def split: option.splits)
  have "restarts_grow s s'" if "relink D W r d ns (s\<lparr> coord_store := st \<rparr>) = Some (s', eff)" for r ns st
    by (rule restarts_grow_trans [OF restarts_grow_same link [OF that]]) simp_all
  then show ?thesis using assms
    by (auto simp: reconcile_entry_def Let_def split: if_splits option.splits StoreDataflowStatus.splits intro: link)
qed

lemma reconcile_grows: "reconcile D W d es s = Some (s', eff) \<Longrightarrow> restarts_grow s s'"
proof (induction es arbitrary: s eff)
  case (Cons e es)
  then show ?case by (auto split: option.splits prod.splits dest!: reconcile_entry_grows intro: restarts_grow_trans)
qed simp

lemma each_entry_dom:
  assumes "\<And>u df. fst (fst (f (u, df))) = u"
  shows "map_of (fst (each_entry f m)) u = None \<longleftrightarrow> map_of m u = None"
proof -
  have "fst ` set (fst (each_entry f m)) = fst ` set m"
    using assms by (induction m) (auto simp: each_entry_def)
  then show ?thesis by (simp add: map_of_eq_None_iff)
qed

lemma status_report_grows:
  fixes s :: "('u::linorder, 'd, 'x) Coordinator"
  assumes "handle_daemon_status_report D W d entries s = Some (s', eff)"
  shows "restarts_grow s s'"
proof -
  obtain s1 e1 where 1: "reconcile D W d entries s = Some (s1, e1)"
    using assms by (auto simp: handle_daemon_status_report_def split: option.splits)
  define f :: "'u \<times> ('u, 'd, 'x) CoordDataflow \<Rightarrow> _" where
    "f = auto_recover W d (map se_dataflow entries) (daemon_connections s1)"
  define g :: "'u \<times> ('u, 'd, 'x) CoordDataflow \<Rightarrow> _" where
    "g = catch_up D W (daemon_connections s1) (coord_store s1) d (map se_dataflow entries)"
  have dom_f: "map_of (fst (each_entry f m)) u = None \<longleftrightarrow> map_of m u = None" for m u
    by (rule each_entry_dom) (simp add: f_def auto_recover_frame)
  have dom_g: "map_of (fst (each_entry g m)) u = None \<longleftrightarrow> map_of m u = None" for m u
    by (rule each_entry_dom) (simp add: g_def catch_up_frame)
  have "s' = s1\<lparr> running_dataflows := fst (each_entry g (fst (each_entry f (running_dataflows s1)))) \<rparr>"
    using assms 1 by (simp add: handle_daemon_status_report_def Let_def f_def g_def case_prod_unfold)
  then have "restarts_grow s1 s'" unfolding restarts_grow_def by (simp add: dom_f dom_g del: not_None_eq)
  then show ?thesis using reconcile_grows [OF 1] restarts_grow_trans by blast
qed

lemma destroy_restarts_ok:
  assumes "restarts_ok s"
  shows "restarts_ok (fst (handle_destroy D W s))"
proof -
  have mark: "restarts_ok s \<Longrightarrow> restarts_ok (mark_stopping D W u s)" for u and s :: "('a, 'b, 'c) Coordinator"
    by (auto simp: mark_stopping_def split: option.splits prod.splits intro!: put_restarts_ok)
  have "restarts_ok s \<Longrightarrow> restarts_ok (fold (mark_stopping D W) us s)" for us and s :: "('a, 'b, 'c) Coordinator"
    by (induction us arbitrary: s) (auto intro: mark)
  then have "restarts_ok (fold (mark_stopping D W) us s)" for us using assms by blast
  then show ?thesis by (simp add: handle_destroy_def Let_def restarts_ok_def)
qed

lemma stop_restarts_ok:
  assumes "restarts_ok s"
  shows "restarts_ok (fst (handle_stop D W u grace force w s))"
proof -
  obtain s1 e1 where 1: "cancel_pending_restart u RestartStopped s = (s1, e1)" by force
  have "restarts_grow s s1" using cancel_grows [of s u RestartStopped] 1 by simp
  then have "restarts_ok s1" using assms restarts_grow_ok by blast
  then show ?thesis using 1
    by (auto simp: handle_stop_def persist_eq case_prod_unfold split: sum.splits intro!: put_restarts_ok)
qed

lemma restart_restarts_ok:
  assumes "restarts_ok s"
  shows "restarts_ok (fst (initiate_restart D W u grace force w s))"
  using assms by (auto simp: initiate_restart_def restarts_ok_def persist_eq put_df_def update_conv' Let_def
      case_prod_unfold split: option.splits sum.splits)

lemma start_restarts_ok:
  assumes "restarts_ok s"
  shows "restarts_ok (fst (handle_start D W descr name uv w s))"
  using put_restarts_ok [OF assms] assms
  by (auto simp: handle_start_def insert_started_def case_prod_unfold split: sum.splits)

lemma quiet_grows:
  "restarts_grow s (fst (handle_ready_on_daemon D W u d exited s))" "restarts_grow s (handle_state_catch_up_ack d u ack s)"
  "restarts_grow s (handle_node_metrics W u ms s)" "restarts_grow s (handle_daemon_node_stopped W d u n clean s)"
  "restarts_grow s (handle_register W m ok labels conn sent s)" "restarts_grow s (handle_daemon_heartbeat W d s)"
  "restarts_grow s (handle_daemon_zenoh_endpoint d c e s)" "restarts_grow s (fst (handle_wait_for_spawn u w s))"
  "restarts_grow s (fst (handle_build D W descr hub w s))" "restarts_grow s (fst (handle_wait_for_build b w s))"
proof -
  have put: "restarts_grow s (put_df u df s)" for u df by (rule restarts_grow_put) simp_all
  show "restarts_grow s (fst (handle_ready_on_daemon D W u d exited s))"
    by (simp add: handle_ready_on_daemon_def Let_def put broadcast_grows split: option.splits)
qed (auto simp: handle_state_catch_up_ack_def handle_node_metrics_def handle_daemon_node_stopped_def handle_register_def
    handle_daemon_heartbeat_def handle_daemon_zenoh_endpoint_def handle_wait_for_spawn_def handle_build_def
    handle_wait_for_build_def Let_def case_prod_unfold put_df_def update_conv' restarts_grow_def split: option.splits sum.splits)

lemma param_grows:
  "restarts_grow s (fst (handle_set_param D W u n key v w s))" "restarts_grow s (fst (handle_delete_param D W u n key w s))"
proof -
  have "restarts_grow s (fst (fst (forward_param W u target oper msg rep (s\<lparr> coord_store := st \<rparr>))))" for target oper msg rep st
    by (auto simp: forward_param_def Let_def put_df_def update_conv' restarts_grow_def split: ParamTarget.splits option.splits)
  then show "restarts_grow s (fst (handle_set_param D W u n key v w s))" "restarts_grow s (fst (handle_delete_param D W u n key w s))"
    by (auto simp: handle_set_param_def handle_delete_param_def answer_with_def case_prod_unfold split: sum.splits)
qed

theorem step_restarts_ok:
  assumes "coord_step D W ev s = Some (s', eff)" "restarts_ok s"
  shows "restarts_ok s'"
proof (cases ev)
  case (DaemonStatusReport d entries)
  then show ?thesis using assms restarts_grow_ok [OF status_report_grows] by simp
next
  case (DaemonExit d conn)
  then show ?thesis using assms disconnect_restarts_ok [of s D W "[d]"]
    by (auto simp: handle_daemon_exit_def split: if_splits)
next
  case (CtlStopByName name grace force w)
  then show ?thesis using assms
    by (auto simp: handle_stop_by_name_def split: sum.splits dest!: arg_cong [of _ _ fst] intro: stop_restarts_ok)
next
  case (CtlRestartByName name grace force w)
  then show ?thesis using assms
    by (auto simp: restart_by_name_def split: sum.splits dest!: arg_cong [of _ _ fst] intro: restart_restarts_ok)
next
  case (CtlClean w)
  then show ?thesis using assms clean_same [of s "clean_candidates s"]
    by (auto simp: handle_clean_def Let_def same_clients_def restarts_ok_def)
next
  case (FinishedOnDaemon u d result)
  then show ?thesis using assms finished_restarts_ok [OF assms(2), of D W u d result] by simp
next
  case (SpawnResult u d result)
  then show ?thesis using assms spawn_result_restarts_ok [OF assms(2), of D W u d result] by simp
next
  case (HeartbeatInterval st bt outcome)
  then show ?thesis using assms heartbeat_restarts_ok [OF assms(2), of D W st bt outcome] by simp
next
  case (CtlStop u grace force w)
  then show ?thesis using assms stop_restarts_ok [OF assms(2), of D W u grace force w] by simp
next
  case (CtlRestart u grace force w)
  then show ?thesis using assms restart_restarts_ok [OF assms(2), of D W u grace force w] by simp
next
  case (CtlStart descr name uv w)
  then show ?thesis using assms start_restarts_ok [OF assms(2), of D W descr name uv w] by simp
next
  case CtrlC
  then show ?thesis using assms destroy_restarts_ok [OF assms(2), of D W] by simp
next
  case (ReadyOnDaemon u d exited)
  then show ?thesis using assms restarts_grow_ok [OF quiet_grows(1) [of s D W u d exited]] by simp
next
  case (DaemonStateCatchUpAck d u ack)
  then show ?thesis using assms restarts_grow_ok [OF quiet_grows(2) [of s d u ack]] by simp
next
  case (NodeMetricsEvent u ms)
  then show ?thesis using assms restarts_grow_ok [OF quiet_grows(3) [of s W u ms]] by simp
next
  case (DaemonNodeStopped d u n clean)
  then show ?thesis using assms restarts_grow_ok [OF quiet_grows(4) [of s W d u n clean]] by simp
next
  case (RegisterDaemon m ok labels conn sent)
  then show ?thesis using assms restarts_grow_ok [OF quiet_grows(5) [of s W m ok labels conn sent]] by simp
next
  case (DaemonHeartbeat d)
  then show ?thesis using assms restarts_grow_ok [OF quiet_grows(6) [of s W d]] by simp
next
  case (DaemonZenohEndpoint d c e)
  then show ?thesis using assms restarts_grow_ok [OF quiet_grows(7) [of s d c e]] by simp
next
  case (CtlWaitForSpawn u w)
  then show ?thesis using assms restarts_grow_ok [OF quiet_grows(8) [of s u w]] by simp
next
  case (CtlBuild descr hub w)
  then show ?thesis using assms restarts_grow_ok [OF quiet_grows(9) [of s D W descr hub w]] by simp
next
  case (CtlWaitForBuild b w)
  then show ?thesis using assms restarts_grow_ok [OF quiet_grows(10) [of s b w]] by simp
next
  case (BuildResult b d result)
  then show ?thesis using assms restarts_grow_ok [OF builds_frame(3) [of s b d result]] by simp
next
  case (CtlSetParam u n key v w)
  then show ?thesis using assms restarts_grow_ok [OF param_grows(1) [of s D W u n key v w]] by simp
next
  case (CtlDeleteParam u n key w)
  then show ?thesis using assms restarts_grow_ok [OF param_grows(2) [of s D W u n key w]] by simp
qed

lemma served_restarts_ok: "served D s reqs ans \<Longrightarrow> restarts_ok s"
proof (induction rule: served.induct)
  case (start t st)
  show ?case by (simp add: start_coordinator_def Let_def restarts_ok_def)
next
  case (step s reqs ans W ev s' eff)
  then show ?case using step_restarts_ok by blast
qed

lemma parked_idle:
  assumes "keys_ok s" "restarts_ok s" "running_dataflows s = []" "running_builds s = []"
  shows "parked s = {#}"
proof -
  have "pending_restarts s = []"
    using assms(2,3) by (cases "pending_restarts s") (auto simp: restarts_ok_def split: if_splits)
  moreover have "wsum cr_waiting (finished_builds s) = {#}"
    using assms(1) by (intro wsum_empty) (auto simp: keys_ok_def dest!: not_pending_waiting)
  ultimately show ?thesis using assms(3,4) by (simp add: parked_def)
qed

text \<open>C40: The coordinator answers every request of a client exactly once. In every run, the requests it has read are the
  answers it has sent together with the clients that are still parked in its state; no handler loses a parked client
  or answers one twice. When no dataflow and no build is left, every request has been answered.\<close>

theorem every_request_answered_once:
  assumes "served D s reqs ans"
  shows "reqs = ans + parked s \<and> (running_dataflows s = [] \<and> running_builds s = [] \<longrightarrow> reqs = ans)"
  using served_invariant [OF assms] served_restarts_ok [OF assms] parked_idle by fastforce

definition demo_deps :: "(nat, unit) deps" where
  "demo_deps = \<lparr> to_json = (\<lambda>_. []), from_json = (\<lambda>_. Some ()), resolve_nodes = (\<lambda>_. Some [(NodeId ''a'', None)]),
     descriptor_nodes = (\<lambda>_. [NodeId ''a'']), show_uuid = show_nat, json_valid = (\<lambda>_. True) \<rparr>"

definition demo_env :: "nat \<Rightarrow> (nat, unit) env" where
  "demo_env u = \<lparr> now = 0, net = (\<lambda>_. True), accepts = (\<lambda>_. True), applies = (\<lambda>_ _ _. True), fresh = u, stamp = () \<rparr>"

definition demo_conn :: "nat \<Rightarrow> nat DaemonConnection" where
  "demo_conn u = \<lparr> peer_is_local = True, last_heartbeat = 0, conn_labels = [], conn_supports_hub_sources = True,
     connection_id = u, zenoh_listen_endpoint = None, consecutive_heartbeat_send_timeouts = 0 \<rparr>"

fun demo_run :: "(nat \<times> (nat, unit, unit) Event) list \<Rightarrow> (nat, unit, unit) Coordinator \<Rightarrow>
    ((nat, unit, unit) Coordinator \<times> (nat, unit) effect list) option" where
  "demo_run [] s = Some (s, [])"
| "demo_run ((u, ev) # evs) s =
     (if unused u s then
        (case coord_step demo_deps (demo_env u) ev s of
           None \<Rightarrow> None
         | Some (s, eff) \<Rightarrow>
             (case demo_run evs s of None \<Rightarrow> None | Some (s, eff') \<Rightarrow> Some (s, eff @ eff')))
      else None)"

lemma demo_run_served:
  "served demo_deps s reqs ans \<Longrightarrow> demo_run evs s = Some (s', eff) \<Longrightarrow>
   served demo_deps s' (reqs + (\<Sum>(_, ev)\<leftarrow>evs. requested ev)) (ans + answered eff)"
proof (induction evs arbitrary: s reqs ans eff)
  case (Cons e evs)
  obtain u ev where e: "e = (u, ev)" by force
  obtain s1 e1 e2 where 1: "unused u s" "coord_step demo_deps (demo_env u) ev s = Some (s1, e1)"
    "demo_run evs s1 = Some (s', e2)" "eff = e1 @ e2"
    using Cons.prems(2) by (auto simp: e split: if_splits option.splits)
  have "served demo_deps s1 (reqs + requested ev) (ans + answered e1)"
    using served.step [OF Cons.prems(1), of "demo_env u"] 1(1,2) by (simp add: demo_env_def)
  from Cons.IH [OF this 1(3)] show ?case by (simp add: e 1(4) ac_simps)
qed simp

definition demo_events :: "(nat \<times> (nat, unit, unit) Event) list" where
  "demo_events =
     [(1, RegisterDaemon None True [] (demo_conn 1) True), (2, CtlStart () None False 10), (3, CtlWaitForSpawn 2 11),
      (3, SpawnResult 2 (DaemonId None 1) None), (3, CtlStop 2 None False 12)]"

lemmas demo_simps =
  demo_deps_def demo_env_def demo_conn_def start_coordinator_def mem_new_def Let_def
  mem_list_daemons_def mem_list_dataflows_def unused_def mem_get_dataflow_def handle_register_def unnamed_def
  mem_register_daemon_def handle_start_def start_dataflow_def spawn_dataflow_def resolve_daemon_def bm_entry_def
  send_to_def insert_started_def persist_eq make_record_def put_df_def mem_put_dataflow_def truncate_status_def
  bm_from_def daemon_id_display_def handle_wait_for_spawn_def cr_register_def handle_dataflow_spawn_result_def
  bs_remove_def handle_spawn_result_ok_def cr_is_pending_def set_result_def handle_stop_def cancel_pending_restart_def
  stop_dataflow_def

lemma demo_events_result:
  "\<exists>s eff. demo_run demo_events (start_coordinator 0 mem_new) = Some (s, eff) \<and>
     answered eff = {#10, 11#} \<and> parked s = {#12#}"
  by (simp add: demo_simps demo_events_def parked_def df_waiting_def cr_waiting_def)

theorem every_request_answered_once_witness:
  "\<exists>s :: (nat, unit, unit) Coordinator.
     served demo_deps s {#10, 11, 12#} {#10, 11#} \<and> {#10, 11, 12#} = {#10, 11#} + parked s"
proof -
  obtain s eff where run: "demo_run demo_events (start_coordinator 0 mem_new) = Some (s, eff)"
    "answered eff = {#10, 11#}" using demo_events_result by blast
  have "served demo_deps s ({#} + (\<Sum>(_, ev)\<leftarrow>demo_events. requested ev)) ({#} + answered eff)"
    by (rule demo_run_served [OF served.start run(1)])
  then have served: "served demo_deps s {#10, 11, 12#} {#10, 11#}"
    by (simp add: run(2) demo_events_def add_mset_commute)
  have "{#10, 11, 12#} = {#10, 11#} + parked s"
    by (rule conjunct1 [OF every_request_answered_once [OF served]])
  then show ?thesis using served by blast
qed

end
