(* ===== verification/Spec2Isabelle.thy ===== *)
theory Spec2Isabelle
  imports
    Dora_Prelude
    Ids
    F64
    Metadata_Params
    Message_Common
    Input_Config
    Node_Events
    Event_Scheduler
    Recording_Format
    Fault_Tolerance
    Pending_Barrier
    Resolved_Nodes
    Output_Routing
    Dataflow_State
    Local_Delivery
    Framing
    Node_Listener
    Daemon_Delivery
    Stderr_Capture
    Node_Lifecycle
    Finish_Watchdog
    Restart_Loop
    Type_System
    Edit_Distance
    Coordinator_Store
    Coordinator_State
    Coordinator_Events
    Coordinator_Replies
begin

text \<open>
  A verification development for dora, a dataflow framework in Rust.

  \<^bold>\<open>The program.\<close> A dataflow is a graph of nodes, each a process. A \<^emph>\<open>coordinator\<close> accepts
  commands and assigns dataflows to \<^emph>\<open>daemons\<close>; a daemon spawns the nodes of its machine, routes
  their outputs to the inputs of other nodes, watches for exits and stalls, restarts and stops
  them. A node receives its events through the node API, which schedules them fairly over the
  inputs. The message library defines what the parts exchange; the core library interprets
  dataflow descriptors; the recording library stores message streams.

  \<^bold>\<open>Theories, bottom up.\<close>
  \<^item> \<open>Dora_Prelude\<close>: what the code uses of the Rust standard library (strings, decimal and
    little-endian integers, hash and ordered collections) with its lemmas.
  \<^item> \<open>Ids\<close>: \<open>libraries/message/src/id.rs\<close>. Which identifiers are valid; valid identifiers can be
    split and converted without panics.
  \<^item> \<open>F64\<close>: the IEEE double operations that the configuration grammar uses.
  \<^item> \<open>Metadata_Params\<close>: \<open>libraries/message/src/metadata.rs\<close>. Startup probes, internal keys,
    schema fingerprints.
  \<^item> \<open>Message_Common\<close>: \<open>libraries/message/src/common.rs\<close>. Log level filter, exit status, node error
    report, daemon identity.
  \<^item> \<open>Input_Config\<close>: \<open>libraries/message/src/config.rs\<close>. Queue capacities, the input mapping grammar
    and its round trip, byte sizes.
  \<^item> \<open>Node_Events\<close>, \<open>Event_Scheduler\<close>: \<open>apis/rust/node/src/event_stream/scheduler.rs\<close>. Bounds,
    protection of stops and correlations, order, accounting and fairness of event delivery.
  \<^item> \<open>Recording_Format\<close>: \<open>libraries/recording/src/lib.rs\<close>. Round trip of recordings, also when cut
    off, exactness of the record parser.
  \<^item> \<open>Fault_Tolerance\<close>: \<open>binaries/daemon/src/{fault_tolerance,node_exit,shutdown}.rs\<close>. Drop
    statistics, cascading causes, and the wait for the processes of a destroyed daemon, which
    ends and signals nothing but its own children.
  \<^item> \<open>Pending_Barrier\<close>: \<open>binaries/daemon/src/pending.rs\<close>. The startup barrier: no subscriber is left
    without an answer, and the verdict reported agrees with the answers given.
  \<^item> \<open>Resolved_Nodes\<close>, \<open>Output_Routing\<close>: \<open>binaries/daemon/src/output_routing.rs\<close> and the node types of
    \<open>libraries/message/src/descriptor.rs\<close>. Which outputs go to local and to remote receivers.
  \<^item> \<open>Dataflow_State\<close>: \<open>binaries/daemon/src/running_dataflow.rs\<close>, the state of a dataflow on a daemon
    with its bounded event channels.
  \<^item> \<open>Local_Delivery\<close>, \<open>Daemon_Delivery\<close>: \<open>binaries/daemon/src/local_delivery.rs\<close> and the handlers that call
    it. Deliveries, held producers, circuit breaking, closed inputs; no silent loss, exact
    counters, held producers released. \<open>Daemon_Delivery\<close> has the invariants over whole runs.
  \<^item> \<open>Framing\<close>, \<open>Node_Listener\<close>: \<open>socket_stream_utils.rs\<close> and \<open>node_communication/mod.rs\<close> of the daemon. Round trip of
    frames; order, memory bound and frame budget of the events handed to a node.
  \<^item> \<open>Stderr_Capture\<close>: \<open>spawn/prepared.rs\<close> and \<open>extract_err_from_stderr.rs\<close> of the daemon. Reading of bounded log lines.
  \<^item> \<open>Node_Lifecycle\<close>: \<open>running_dataflow.rs\<close>, \<open>node_events.rs\<close>, \<open>dora_events.rs\<close> of the daemon. Incarnations of a node: stops
    reach every process, a superseded process stays superseded, exits are reported exactly.
  \<^item> \<open>Finish_Watchdog\<close>, \<open>Restart_Loop\<close>: the watchdogs of \<open>lib.rs\<close> and \<open>dataflow_lifecycle.rs\<close> and the restart loop of \<open>spawn/prepared.rs\<close>.
    Stragglers are exactly the nodes past their grace, restarts stay within their budget.
  \<^item> \<open>Type_System\<close>, \<open>Edit_Distance\<close>: \<open>libraries/core/src/types.rs\<close>. Compatibility of port types, the
    Arrow types they admit, and the suggestion distance, which is the least number of edits.
  \<^item> \<open>Coordinator_Store\<close>: \<open>libraries/coordinator-store/src\<close>. Records, parameters and builds in memory
    and in a redb file; the persistent store refines the one in memory.
  \<^item> \<open>Coordinator_State\<close>, \<open>Coordinator_Events\<close>: \<open>binaries/coordinator/src\<close>. Connections, dataflows, builds and
    the replication log; one function per event handler, dispatched by \<open>coord_step\<close>. A handler returns the
    new state and the messages and answers it sends.
  \<^item> \<open>Coordinator_Replies\<close>: every request is answered exactly once or still waits in the state.

  \<^bold>\<open>Conventions.\<close> A string is its list of UTF-8 bytes; white space trimming and letter case
  are those of ASCII. Unsigned machine integers are natural numbers with their bounds written out
  (\<open>usize\<close> has 64 bits) or words. A fallible function returns a sum whose left side is an error
  datatype with one constructor per error; a panic is its own outcome. A \<open>HashMap\<close> is an association list
  with distinct keys in an arbitrary order. Logging and tracing are left out everywhere. Values of third-party
  types that the code only carries are elements of a type parameter. Shared objects live in stores
  indexed by natural numbers. Points in time and the outcomes of I/O (a send that fails, a process
  that exits) are arguments, so a theorem holds for every outcome.

  \<^bold>\<open>Interfaces.\<close> A contract that a client relies on is a locale, interpreted on the model:
  \<open>dict\<close> (the hash maps of the standard library, \<open>Dora_Prelude\<close>), \<open>uuid_format\<close> (\<open>Message_Common\<close>),
  \<open>event_sender\<close> (\<open>Dataflow_State\<close>), \<open>channel_invariant\<close> (\<open>Local_Delivery\<close>), \<open>frame_transport\<close> (\<open>Framing\<close>),
  \<open>param_store\<close> and \<open>redb_library\<close> (\<open>Coordinator_Store\<close>).

  \<^bold>\<open>Bounds.\<close> No definition uses fuel: loops are structural recursions or have a termination
  proof. Capacities and limits are the constants of the source. Where a function computes on
  64-bit integers and can overflow, the bound is part of its model.

  \<^bold>\<open>Not modelled.\<close> Sockets, WebSocket and HTTP servers, zenoh sessions, process creation and
  file systems are I/O around third-party crates; the decisions the code takes from their results are
  modelled where they carry state. Serialization by serde, postcard and bincode is third-party code:
  where a property needs it, it is a parameter with its round-trip law. Parsing and
  expanding descriptors reads files and goes through serde. The bindings for C, C++ and Python, the
  operator runtimes, the ROS 2 and MAVLink bridges, the tensor pool and the command line interface
  are foreign interfaces, generated code, unsafe memory or terminal I/O. Of the coordinator, the subscribers of logs and
  topics, telemetry, requests that only read the state and live edits of the topology are left out.
\<close>

end
